(* ===== verification/Prelude.thy ===== *)
theory Prelude
  imports Main "HOL-Library.Word"
begin

text \<open>
  Shared vocabulary of the development: machine integers, bytes and strings, C++ exceptions as
  values, byte-array writes, little-endian fields and the lemma collections the component
  theories extend.

  A byte (\<^verbatim>\<open>char\<close>, \<^verbatim>\<open>unsigned char\<close>, \<^verbatim>\<open>std::uint8_t\<close>) is a HOL \<^typ>\<open>char\<close>, which has
  exactly 256 values; \<^const>\<open>of_char\<close> reads its number and \<open>byte_of\<close> truncates an integer to it,
  as \<^verbatim>\<open>static_cast<unsigned char>\<close> does.  \<^verbatim>\<open>std::string\<close> and a byte buffer are \<^typ>\<open>string\<close>.
\<close>

unbundle bit_operations_syntax

section \<open>Types\<close>

type_synonym u8 = "8 word"
type_synonym u16 = "16 word"
type_synonym u32 = "32 word"
type_synonym u64 = "64 word"
type_synonym bytes = string

text \<open>The C++ exceptions the modelled code throws, with their messages.\<close>

datatype exn =
    Runtime_error string
  | Invalid_argument string
  | Logic_error string
  | Operation_paused
  | Operation_cancelled
  | Task_capacity
  | Workflow_error nat

type_synonym 'a result = "exn + 'a"

fun is_ok :: "'e + 'a \<Rightarrow> bool" where
  "is_ok (Inl _) = False"
| "is_ok (Inr _) = True"

named_theorems codec \<open>field writers and readers are inverse, and disjoint fields do not interfere\<close>
named_theorems frame \<open>what an operation leaves unchanged\<close>

section \<open>Bytes and words\<close>

definition byte_of :: "'a::len word \<Rightarrow> char" where
  "byte_of w = char_of (unat w)"

lemma of_char_byte_of [simp]: "(of_char (byte_of w) :: nat) = unat w mod 256"
  by (simp add: byte_of_def)

lemma byte_of_0 [simp]: "byte_of 0 = CHR 0x00"
  by (simp add: byte_of_def char_of_def)

lemma of_nat_unat_mod256: "(of_nat (unat w mod 256) :: 'a::len word) = take_bit 8 w"
proof -
  have "(of_nat (unat w mod 256) :: 'a word) = of_nat (take_bit 8 (unat w))"
    by (simp add: take_bit_eq_mod)
  also have "\<dots> = take_bit 8 (of_nat (unat w))"
    by (rule bit_word_eqI) (auto simp add: bit_simps)
  finally show ?thesis by simp
qed

lemma of_char_byte_of_word [simp]: "of_char (byte_of (w :: 'a::len word)) = take_bit 8 w"
  by (metis of_char_byte_of of_nat_of_char of_nat_unat_mod256)

lemma le_step:
  "take_bit n w OR push_bit n (take_bit 8 (drop_bit n w)) = take_bit (n + 8) (w :: 'a::len word)"
  by (rule bit_word_eqI) (auto simp: bit_simps)

lemma le_fold:
  "fold (\<lambda>i v. v OR push_bit (8 * i) (take_bit 8 (drop_bit (8 * i) w))) [0..<k] 0
     = take_bit (8 * k) (w :: 'a::len word)"
  by (induction k) (simp_all add: le_step add.commute)

lemma take_bit_full [simp]:
  "take_bit 64 (v :: u64) = v" "take_bit 32 (w :: u32) = w" "take_bit 16 (x :: u16) = x"
  by (rule bit_word_eqI, simp add: bit_simps)+

section \<open>Writing into a fixed array\<close>

text \<open>\<open>blit xs p ys\<close> is \<^verbatim>\<open>memcpy(xs + p, ys, |ys|)\<close> (or \<^verbatim>\<open>std::fill\<close>) inside the array \<open>xs\<close>.\<close>

definition blit :: "'a list \<Rightarrow> nat \<Rightarrow> 'a list \<Rightarrow> 'a list" where
  "blit xs p ys = take p xs @ ys @ drop (p + length ys) xs"

lemma length_blit [simp]:
  "p + length ys \<le> length xs \<Longrightarrow> length (blit xs p ys) = length xs"
  by (simp add: blit_def)

lemma take_blit [simp]:
  "p \<le> length xs \<Longrightarrow> take (p + length ys) (blit xs p ys) = take p xs @ ys"
  by (simp add: blit_def)

lemma blit_read [codec]:
  "p \<le> length xs \<Longrightarrow> take (length ys) (drop p (blit xs p ys)) = ys"
  by (simp add: blit_def)

lemma blit_all: "p + length ys = length xs \<Longrightarrow> blit xs p ys = take p xs @ ys"
  by (simp add: blit_def)

lemma blit_at_end: "p = length xs \<Longrightarrow> blit (xs @ zs) p ys = xs @ ys @ drop (length ys) zs"
  by (simp add: blit_def)

text \<open>Reading \<open>n\<close> bytes from \<open>p\<close> on (\<^verbatim>\<open>memcmp\<close> against them, \<^verbatim>\<open>read\<close> of a field).\<close>

definition field :: "'a list \<Rightarrow> nat \<Rightarrow> nat \<Rightarrow> 'a list" where
  "field xs p n = take n (drop p xs)"

lemma length_field [simp]: "p + n \<le> length xs \<Longrightarrow> length (field xs p n) = n"
  by (simp add: field_def)

lemma field_blit_same [codec]:
  "p \<le> length xs \<Longrightarrow> n = length ys \<Longrightarrow> field (blit xs p ys) p n = ys"
  by (simp add: field_def blit_read)

lemma field_blit_after [codec]:
  assumes "p + length ys \<le> q" and "p + length ys \<le> length xs"
  shows "field (blit xs p ys) q n = field xs q n"
proof -
  have "p + length ys + (q - (p + length ys)) = q" using assms(1) by simp
  then show ?thesis using assms by (simp add: field_def blit_def)
qed

lemma field_blit_before [codec]:
  "q + n \<le> p \<Longrightarrow> p \<le> length xs \<Longrightarrow> field (blit xs p ys) q n = field xs q n"
  by (simp add: field_def blit_def take_drop min_def)

section \<open>Decimal text\<close>

text \<open>\<^verbatim>\<open>std::to_string\<close> of an unsigned value.\<close>

fun dec :: "nat \<Rightarrow> string" where
  "dec n = (if n < 10 then [char_of (48 + n)] else dec (n div 10) @ [char_of (48 + n mod 10)])"

declare dec.simps [simp del]

definition is_digit :: "char \<Rightarrow> bool" where
  "is_digit c \<longleftrightarrow> 48 \<le> (of_char c :: nat) \<and> (of_char c :: nat) \<le> 57"

definition digit_val :: "char \<Rightarrow> nat" where
  "digit_val c = of_char c - 48"

lemma is_digit_char_of [simp]: "d < 10 \<Longrightarrow> is_digit (char_of (48 + d :: nat))"
  by (simp add: is_digit_def)

lemma digit_val_char_of [simp]: "d < 10 \<Longrightarrow> digit_val (char_of (48 + d :: nat)) = d"
  by (simp add: digit_val_def)

lemma digit_val_less [simp]: "is_digit c \<Longrightarrow> digit_val c < 10"
  by (auto simp add: is_digit_def digit_val_def)

text \<open>The value of a digit string, most significant digit first, from an accumulator.\<close>

definition dec_value_from :: "nat \<Rightarrow> string \<Rightarrow> nat" where
  "dec_value_from acc s = foldl (\<lambda>v c. 10 * v + digit_val c) acc s"

lemma dec_value_from_simps [simp]:
  "dec_value_from acc [] = acc"
  "dec_value_from acc (c # s) = dec_value_from (10 * acc + digit_val c) s"
  "dec_value_from acc (s @ t) = dec_value_from (dec_value_from acc s) t"
  by (simp_all add: dec_value_from_def)

lemma dec_value_from_ge: "acc \<le> dec_value_from acc s"
proof (induction s arbitrary: acc)
  case Nil
  then show ?case by simp
next
  case (Cons c s)
  have "acc \<le> 10 * acc + digit_val c" by simp
  also have "\<dots> \<le> dec_value_from (10 * acc + digit_val c) s" by (rule Cons.IH)
  finally show ?case by simp
qed

lemma dec_nonempty [simp]: "dec n \<noteq> []"
  by (subst dec.simps) simp

lemma dec_digits: "c \<in> set (dec n) \<Longrightarrow> is_digit c"
proof (induction n rule: dec.induct)
  case (1 n)
  show ?case
  proof (cases "n < 10")
    case True
    with "1.prems" show ?thesis by (subst (asm) dec.simps) simp
  next
    case False
    with "1.prems" have "c \<in> set (dec (n div 10)) \<or> c = char_of (48 + n mod 10)"
      by (subst (asm) dec.simps) auto
    with False "1.IH" show ?thesis by (auto intro: is_digit_char_of simp del: char_of_nat)
  qed
qed

lemma dec_value_dec [simp]: "dec_value_from 0 (dec n) = n"
proof (induction n rule: dec.induct)
  case (1 n)
  then show ?case by (subst dec.simps) simp
qed

lemma dec_inj: "dec m = dec n \<Longrightarrow> m = n"
  by (metis dec_value_dec)

lemma length_dec_less: "n < 10 ^ Suc k \<Longrightarrow> length (dec n) \<le> Suc k"
proof (induction k arbitrary: n)
  case 0
  then show ?case by (subst dec.simps) simp
next
  case (Suc k)
  show ?case
  proof (cases "n < 10")
    case True
    then show ?thesis by (subst dec.simps) simp
  next
    case False
    have "n div 10 < 10 ^ Suc k" using Suc.prems by (simp add: less_mult_imp_div_less)
    then have "length (dec (n div 10)) \<le> Suc k" by (rule Suc.IH)
    with False show ?thesis by (subst dec.simps) simp
  qed
qed

text \<open>The range test of the code's digit loops refuses exactly what does not fit in 64 bits.\<close>

lemma digits_bound: "(d :: nat) \<le> m \<Longrightarrow> (v > (m - d) div 10) = (m < v * 10 + d)"
  by (simp add: not_le [symmetric] less_eq_div_iff_mult_less_eq) linarith

lemma digits_guard:
  "d < 10 \<Longrightarrow> (v > (2 ^ 64 - 1 - d) div 10) = (2 ^ 64 \<le> v * 10 + (d :: nat))"
  by (subst digits_bound) auto

section \<open>Unsigned subtraction, text tests\<close>

text \<open>\<^verbatim>\<open>a - b\<close> in \<^verbatim>\<open>std::uint64_t\<close> (or \<^verbatim>\<open>std::size_t\<close>), on values below \<open>2 ^ 64\<close>.\<close>

definition sub64 :: "nat \<Rightarrow> nat \<Rightarrow> nat" where
  "sub64 a b = (a + 2 ^ 64 - b) mod 2 ^ 64"

lemma sub64_eq [simp]: "b \<le> a \<Longrightarrow> a < 2 ^ 64 \<Longrightarrow> sub64 a b = a - b"
proof -
  assume "b \<le> a" "a < 2 ^ 64"
  then have "a + 2 ^ 64 - b = (a - b) + 2 ^ 64" by simp
  moreover have "a - b < 2 ^ 64" using \<open>a < 2 ^ 64\<close> by (rule less_imp_diff_less)
  ultimately show ?thesis by (simp only: sub64_def mod_add_self2 mod_less)
qed

lemma take_length_take: "take (length (take n xs)) xs = take n xs"
  by (cases "n \<le> length xs") auto

definition ends_with :: "string \<Rightarrow> string \<Rightarrow> bool" where
  "ends_with s suf \<longleftrightarrow> length suf \<le> length s \<and> drop (length s - length suf) s = suf"

definition starts_with :: "string \<Rightarrow> string \<Rightarrow> bool" where
  "starts_with s pre \<longleftrightarrow> take (length pre) s = pre"

definition strip_end :: "nat \<Rightarrow> string \<Rightarrow> string" where
  "strip_end n s = take (length s - n) s"

lemma ends_with_append [simp]: "ends_with (s @ suf) suf"
  by (simp add: ends_with_def)

lemma strip_end_append [simp]: "strip_end (length suf) (s @ suf) = s"
  by (simp add: strip_end_def)

lemma ends_with_strip: "ends_with s suf \<Longrightarrow> strip_end (length suf) s @ suf = s"
  by (metis append_take_drop_id ends_with_def strip_end_def)

lemma starts_with_append [simp]: "starts_with (pre @ s) pre"
  by (simp add: starts_with_def)

end
