(* ===== verification/FileSystem.thy ===== *)
theory FileSystem
  imports Prelude
begin

text \<open>
  The directory and the system calls the storage components work on.  A directory is the list of
  its entries in \<^verbatim>\<open>readdir\<close> order; an entry is a name with an inode.  What the kernel decides
  (which call fails, how many bytes a \<^verbatim>\<open>read\<close> or \<^verbatim>\<open>write\<close> moves) is the parameter \<open>kernel\<close> of every
  operation, so each error path of the code is a branch of the model.
\<close>

section \<open>Directories\<close>

datatype kind = Regular | Symlink | Special

record inode =
  kind :: kind
  nlink :: nat
  content :: bytes

type_synonym entries = "(string \<times> inode) list"

definition plain_file :: "inode \<Rightarrow> bool" where
  "plain_file i \<longleftrightarrow> kind i = Regular \<and> nlink i = 1"

definition fresh_file :: "bytes \<Rightarrow> inode" where
  "fresh_file b = \<lparr>kind = Regular, nlink = 1, content = b\<rparr>"

fun dir_put :: "string \<Rightarrow> inode \<Rightarrow> entries \<Rightarrow> entries" where
  "dir_put n i [] = [(n, i)]"
| "dir_put n i ((m, j) # es) = (if m = n then (n, i) # es else (m, j) # dir_put n i es)"

definition dir_remove :: "string \<Rightarrow> entries \<Rightarrow> entries" where
  "dir_remove n es = filter (\<lambda>(m, _). m \<noteq> n) es"

text \<open>\<^verbatim>\<open>renameat(old, new)\<close>: the entry moves and replaces an entry of the new name.\<close>

definition dir_rename :: "string \<Rightarrow> string \<Rightarrow> entries \<Rightarrow> entries" where
  "dir_rename old new es =
     (case map_of es old of None \<Rightarrow> es | Some i \<Rightarrow> dir_put new i (dir_remove old es))"

lemma plain_fresh [simp]: "plain_file (fresh_file b)"
  by (simp add: plain_file_def fresh_file_def)

lemma content_fresh [simp]: "content (fresh_file b) = b"
  by (simp add: fresh_file_def)

lemma map_of_dir_put [simp]: "map_of (dir_put n i es) = (map_of es)(n \<mapsto> i)"
  by (induction n i es rule: dir_put.induct) (auto simp: fun_eq_iff)

lemma map_of_dir_remove [simp]: "map_of (dir_remove n es) = (map_of es)(n := None)"
  by (induction es) (auto simp: dir_remove_def fun_eq_iff)

lemma map_of_dir_rename:
  "map_of es old = Some i \<Longrightarrow>
     map_of (dir_rename old new es) = ((map_of es)(old := None))(new \<mapsto> i)"
  by (simp add: dir_rename_def)

lemma names_dir_put: "fst ` set (dir_put n i es) = insert n (fst ` set es)"
  by (induction n i es rule: dir_put.induct) auto

lemma distinct_dir_put [simp]:
  "distinct (map fst es) \<Longrightarrow> distinct (map fst (dir_put n i es))"
proof (induction n i es rule: dir_put.induct)
  case (1 n i)
  then show ?case by simp
next
  case (2 n i m j es)
  then have "m \<noteq> n \<Longrightarrow> m \<notin> fst ` set (dir_put n i es)" by (simp add: names_dir_put)
  with 2 show ?case by auto
qed

lemma distinct_dir_remove [simp]:
  "distinct (map fst es) \<Longrightarrow> distinct (map fst (dir_remove n es))"
  by (simp add: dir_remove_def distinct_map_filter)

lemma distinct_dir_rename [simp]:
  "distinct (map fst es) \<Longrightarrow> distinct (map fst (dir_rename old new es))"
  by (simp add: dir_rename_def split: option.split)

lemma dir_put_new: "map_of es n = None \<Longrightarrow> dir_put n i es = es @ [(n, i)]"
  by (induction n i es rule: dir_put.induct) (auto split: if_splits)

lemma dir_remove_absent: "map_of es n = None \<Longrightarrow> dir_remove n es = es"
  unfolding dir_remove_def by (rule filter_True) (auto simp: map_of_eq_None_iff rev_image_eqI)

lemma dir_remove_append: "dir_remove n (es @ fs) = dir_remove n es @ dir_remove n fs"
  by (simp add: dir_remove_def)

section \<open>The kernel\<close>

datatype syscall =
    Sys_create_directories
  | Sys_open_dir
  | Sys_open_lock
  | Sys_flock
  | Sys_scan
  | Sys_stat string
  | Sys_open string
  | Sys_restat string \<comment> \<open>the second \<^verbatim>\<open>fstat\<close> fails or shows a change during the read\<close>
  | Sys_unlink string
  | Sys_create string
  | Sys_write string nat
  | Sys_read string nat
  | Sys_fsync string
  | Sys_rename string
  | Sys_fsync_dir

text \<open>One answer of \<^verbatim>\<open>read\<close> or \<^verbatim>\<open>write\<close>: a byte count, \<^verbatim>\<open>EINTR\<close>, or another error.\<close>

datatype reply = Moved nat | Interrupted | Failed

record kernel =
  k_fails :: "syscall \<Rightarrow> bool"
  k_replies :: "syscall \<Rightarrow> reply list"

definition quiet :: "kernel \<Rightarrow> bool" where
  "quiet k \<longleftrightarrow> (\<forall>s. \<not> k_fails k s) \<and> (\<forall>s. Failed \<notin> set (k_replies k s) \<and> Moved 0 \<notin> set (k_replies k s))"

definition calm_kernel :: kernel where
  "calm_kernel = \<lparr>k_fails = (\<lambda>_. False), k_replies = (\<lambda>_. [])\<rparr>"

lemma quiet_calm [simp]: "quiet calm_kernel"
  by (simp add: quiet_def calm_kernel_def)

lemma quiet_fails [simp]: "quiet k \<Longrightarrow> \<not> k_fails k s"
  by (simp add: quiet_def)

section \<open>The transfer loop\<close>

text \<open>
  \<^verbatim>\<open>transfer\<close> writing: \<open>acc\<close> is what the file holds already.  The result lists what the file held
  after each call, so that a crash between two calls is one of its elements, and says whether
  everything was moved.  When the kernel's scripted answers run out it takes all that is left.
\<close>

fun transfer_out :: "reply list \<Rightarrow> bytes \<Rightarrow> bytes \<Rightarrow> bytes list \<times> bool" where
  "transfer_out rs acc [] = ([acc], True)"
| "transfer_out [] acc data = ([acc, acc @ data], True)"
| "transfer_out (Interrupted # rs) acc data = transfer_out rs acc data"
| "transfer_out (Failed # rs) acc data = ([acc], False)"
| "transfer_out (Moved n # rs) acc data =
     (if n = 0 then ([acc], False)
      else let (vs, ok) = transfer_out rs (acc @ take n data) (drop n data) in (acc # vs, ok))"

text \<open>\<^verbatim>\<open>transfer\<close> reading \<open>want\<close> bytes from what is left of the file; \<^verbatim>\<open>read\<close> returns 0 at its end.\<close>

fun transfer_in :: "reply list \<Rightarrow> nat \<Rightarrow> bytes \<Rightarrow> bytes option" where
  "transfer_in rs 0 rest = Some []"
| "transfer_in [] want rest = (if want \<le> length rest then Some (take want rest) else None)"
| "transfer_in (Interrupted # rs) want rest = transfer_in rs want rest"
| "transfer_in (Failed # rs) want rest = None"
| "transfer_in (Moved n # rs) want rest =
     (let got = take (min n want) rest
      in if got = [] then None
         else map_option ((@) got) (transfer_in rs (want - length got) (drop (length got) rest)))"

lemma transfer_out_prefix:
  "v \<in> set (fst (transfer_out rs acc data)) \<Longrightarrow> \<exists>k. v = acc @ take k data"
proof (induction rs acc data rule: transfer_out.induct)
  case (5 n rs acc d ds)
  show ?case
  proof (cases "n = 0 \<or> v = acc")
    case True
    with "5.prems" show ?thesis by (auto split: if_splits prod.splits intro: exI [of _ 0])
  next
    case False
    with "5.prems" have "v \<in> set (fst (transfer_out rs (acc @ take n (d # ds)) (drop n (d # ds))))"
      by (auto split: prod.splits)
    with False "5.IH" obtain k where "v = (acc @ take n (d # ds)) @ take k (drop n (d # ds))"
      by blast
    then have "v = acc @ take (n + k) (d # ds)" by (simp add: take_add)
    then show ?thesis ..
  qed
next
  case (2 acc d ds)
  then have "v = acc @ take 0 (d # ds) \<or> v = acc @ take (length (d # ds)) (d # ds)" by simp
  then show ?case by blast
qed (auto intro: exI [of _ 0])

lemma transfer_out_nonempty [simp]: "fst (transfer_out rs acc data) \<noteq> []"
  by (induction rs acc data rule: transfer_out.induct) (auto simp: case_prod_beta)

lemma transfer_out_last:
  "snd (transfer_out rs acc data) \<Longrightarrow> last (fst (transfer_out rs acc data)) = acc @ data"
  by (induction rs acc data rule: transfer_out.induct)
     (auto simp: case_prod_beta Let_def split: if_splits)

lemma transfer_out_calm:
  "Failed \<notin> set rs \<Longrightarrow> Moved 0 \<notin> set rs \<Longrightarrow> snd (transfer_out rs acc data)"
  by (induction rs acc data rule: transfer_out.induct) (auto split: prod.splits if_splits)

lemma transfer_in_sound: "transfer_in rs want rest = Some b \<Longrightarrow> b = take want rest \<and> want \<le> length rest"
proof (induction rs want rest arbitrary: b rule: transfer_in.induct)
  case (5 n rs w rest)
  let ?want = "Suc w"
  let ?got = "take (min n ?want) rest"
  from "5.prems" obtain b' where got: "?got \<noteq> []" and b: "b = ?got @ b'"
    and r: "transfer_in rs (?want - length ?got) (drop (length ?got) rest) = Some b'"
    by (auto simp: Let_def split: if_splits)
  from "5.IH" [OF refl got r] have b': "b' = take (?want - length ?got) (drop (length ?got) rest)"
    and le: "?want - length ?got \<le> length (drop (length ?got) rest)" by simp_all
  have "?got = take (length ?got) rest" by (simp only: take_length_take)
  moreover have "length ?got + (?want - length ?got) = ?want" by simp
  ultimately have "b = take ?want rest" using b b' by (metis take_add)
  moreover have "?want \<le> length rest" using le by simp
  ultimately show ?case by simp
qed (auto split: if_splits)

lemma transfer_in_calm:
  "Failed \<notin> set rs \<Longrightarrow> Moved 0 \<notin> set rs \<Longrightarrow> want \<le> length rest \<Longrightarrow>
     transfer_in rs want rest = Some (take want rest)"
proof (induction rs want rest rule: transfer_in.induct)
  case (5 n rs w rest)
  let ?want = "Suc w"
  let ?got = "take (min n ?want) rest"
  have got: "?got \<noteq> []" using "5.prems" by (cases n) auto
  have "transfer_in rs (?want - length ?got) (drop (length ?got) rest)
      = Some (take (?want - length ?got) (drop (length ?got) rest))"
    by (rule "5.IH" [OF refl got]) (use "5.prems" in auto)
  moreover have "?got = take (length ?got) rest" by (simp only: take_length_take)
  moreover have "length ?got + (?want - length ?got) = ?want" by simp
  ultimately show ?case using got by (simp only: transfer_in.simps Let_def if_False option.map)
      (metis take_add)
qed auto

lemma quiet_out [simp]: "quiet k \<Longrightarrow> snd (transfer_out (k_replies k s) acc data)"
  by (simp add: quiet_def transfer_out_calm)

lemma quiet_in [simp]:
  "quiet k \<Longrightarrow> want \<le> length rest \<Longrightarrow> transfer_in (k_replies k s) want rest = Some (take want rest)"
  by (simp add: quiet_def transfer_in_calm)

end
