(* ===== verification/Sha256.thy ===== *)
theory Sha256
  imports Prelude
begin

text \<open>
  \<^verbatim>\<open>include/voxmutatio/core/sha256.h\<close>: the streaming digest that binds checkpoints, caches and
  datasets to their content.  The class' four members are the record \<open>sha\<close>; \<open>sha_compress\<close>,
  \<open>sha_update\<close>, \<open>sha_finish\<close> and \<open>valid_digest\<close> are its operations.  The theory proves the streaming
  object equal to a one-shot reference (\<open>sha_ref\<close>: pad, cut into 64-byte blocks, fold the
  compression function), however the input is cut into \<open>sha_update\<close> calls.
\<close>

section \<open>State and round constants\<close>

record sha =
  sh_h :: "u32 list"
  sh_block :: bytes
  sh_used :: u64
  sh_bytes :: u64

text \<open>The constants are written in decimal; the source writes them in hexadecimal.\<close>

definition round_k :: "u32 list" where
  "round_k = [
    1116352408, 1899447441, 3049323471, 3921009573, 961987163, 1508970993, 2453635748, 2870763221,
    3624381080, 310598401, 607225278, 1426881987, 1925078388, 2162078206, 2614888103, 3248222580,
    3835390401, 4022224774, 264347078, 604807628, 770255983, 1249150122, 1555081692, 1996064986,
    2554220882, 2821834349, 2952996808, 3210313671, 3336571891, 3584528711, 113926993, 338241895,
    666307205, 773529912, 1294757372, 1396182291, 1695183700, 1986661051, 2177026350, 2456956037,
    2730485921, 2820302411, 3259730800, 3345764771, 3516065817, 3600352804, 4094571909, 275423344,
    430227734, 506948616, 659060556, 883997877, 958139571, 1322822218, 1537002063, 1747873779,
    1955562222, 2024104815, 2227730452, 2361852424, 2428436474, 2756734187, 3204031479, 3329325298]"

definition initial_h :: "u32 list" where
  "initial_h = [
    1779033703, 3144134277, 1013904242, 2773480762, 1359893119, 2600822924, 528734635, 1541459225]"

definition new_sha :: sha where
  "new_sha = \<lparr>sh_h = initial_h, sh_block = replicate 64 (CHR 0x00), sh_used = 0, sh_bytes = 0\<rparr>"

section \<open>The compression function\<close>

definition be_word :: "bytes \<Rightarrow> nat \<Rightarrow> u32" where
  "be_word b i =
     push_bit 24 (of_char (b ! (4 * i))) OR push_bit 16 (of_char (b ! (4 * i + 1)))
       OR push_bit 8 (of_char (b ! (4 * i + 2))) OR of_char (b ! (4 * i + 3))"

definition schedule_next :: "u32 list \<Rightarrow> nat \<Rightarrow> u32" where
  "schedule_next w i =
     (let x = w ! (i - 15); y = w ! (i - 2)
      in w ! (i - 16) + (word_rotr 7 x XOR word_rotr 18 x XOR drop_bit 3 x)
           + w ! (i - 7) + (word_rotr 17 y XOR word_rotr 19 y XOR drop_bit 10 y))"

definition sha_schedule :: "bytes \<Rightarrow> u32 list" where
  "sha_schedule b = fold (\<lambda>i w. w @ [schedule_next w i]) [16..<64] (map (be_word b) [0..<16])"

type_synonym working = "u32 \<times> u32 \<times> u32 \<times> u32 \<times> u32 \<times> u32 \<times> u32 \<times> u32"

fun sha_round :: "u32 list \<Rightarrow> nat \<Rightarrow> working \<Rightarrow> working" where
  "sha_round w i (a, b, c, d, e, f, g, h) =
     (let t1 = h + (word_rotr 6 e XOR word_rotr 11 e XOR word_rotr 25 e)
                 + ((e AND f) XOR (NOT e AND g)) + round_k ! i + w ! i;
          t2 = (word_rotr 2 a XOR word_rotr 13 a XOR word_rotr 22 a)
                 + ((a AND b) XOR (a AND c) XOR (b AND c))
      in (t1 + t2, a, b, c, d + t1, e, f, g))"

fun working_list :: "working \<Rightarrow> u32 list" where
  "working_list (a, b, c, d, e, f, g, h) = [a, b, c, d, e, f, g, h]"

definition working_of :: "u32 list \<Rightarrow> working" where
  "working_of h = (h ! 0, h ! 1, h ! 2, h ! 3, h ! 4, h ! 5, h ! 6, h ! 7)"

definition compress_block :: "u32 list \<Rightarrow> bytes \<Rightarrow> u32 list" where
  "compress_block h b =
     map2 (+) h (working_list (fold (sha_round (sha_schedule b)) [0..<64] (working_of h)))"

definition sha_compress :: "sha \<Rightarrow> sha" where
  "sha_compress s = s\<lparr>sh_h := compress_block (sh_h s) (sh_block s)\<rparr>"

section \<open>Streaming\<close>

text \<open>
  The body of the \<^verbatim>\<open>while(n)\<close> loop and the loop itself.  \<^verbatim>\<open>64 - used_\<close> is computed in \<^verbatim>\<open>size_t\<close>;
  the loop stops because an iteration consumes input unless \<^verbatim>\<open>used_\<close> is 64, and then resets it.
\<close>

definition absorb_count :: "sha \<Rightarrow> bytes \<Rightarrow> nat" where
  "absorb_count s data = min (length data) (unat (64 - sh_used s))"

definition absorb :: "sha \<Rightarrow> bytes \<Rightarrow> sha" where
  "absorb s part =
     (let s1 = s\<lparr>sh_block := blit (sh_block s) (unat (sh_used s)) part,
                 sh_used := sh_used s + of_nat (length part)\<rparr>
      in if sh_used s1 = 64 then (sha_compress s1)\<lparr>sh_used := 0\<rparr> else s1)"

function sha_update_loop :: "sha \<Rightarrow> bytes \<Rightarrow> sha" where
  "sha_update_loop s data =
     (if data = [] then s
      else let t = absorb_count s data
           in sha_update_loop (absorb s (take t data)) (drop t data))"
  by pat_completeness auto
termination
proof (relation "measures [\<lambda>(s, d). length d, \<lambda>(s, d). if sh_used s = 64 then 1 else 0]", simp, clarify)
  fix s :: sha and data :: bytes
  assume ne: "data \<noteq> []"
  let ?t = "absorb_count s data"
  show "((absorb s (take ?t data), drop ?t data), s, data)
      \<in> measures [\<lambda>(s, d). length d, \<lambda>(s, d). if sh_used s = 64 then 1 else 0]"
  proof (cases "sh_used s = 64")
    case True
    then have "?t = 0" by (simp add: absorb_count_def)
    with True show ?thesis by (simp add: absorb_def sha_compress_def Let_def)
  next
    case False
    then have "64 - sh_used s \<noteq> 0" by simp
    then have "0 < unat (64 - sh_used s)" by (simp add: unat_gt_0)
    with ne have "0 < ?t" by (simp add: absorb_count_def)
    with ne show ?thesis by simp
  qed
qed

declare sha_update_loop.simps [simp del]

definition sha_update :: "sha \<Rightarrow> bytes \<Rightarrow> sha result" where
  "sha_update s data =
     (if of_nat (length data) > (- 1 :: u64) div 8 - sh_bytes s
      then Inl (Invalid_argument ''SHA256 input too large'')
      else Inr (sha_update_loop (s\<lparr>sh_bytes := sh_bytes s + of_nat (length data)\<rparr>) data))"

section \<open>Finishing\<close>

definition hex_digit :: "u32 \<Rightarrow> char" where
  "hex_digit n = ''0123456789abcdef'' ! unat n"

definition hex_word :: "u32 \<Rightarrow> string" where
  "hex_word w = map (\<lambda>i. hex_digit (drop_bit (28 - 4 * i) w AND 15)) [0..<8]"

definition store_length :: "bytes \<Rightarrow> u64 \<Rightarrow> bytes" where
  "store_length b n = fold (\<lambda>i b. b[63 - i := byte_of (drop_bit (8 * i) n)]) [0..<8] b"

definition sha_finish :: "sha \<Rightarrow> string" where
  "sha_finish s =
     (let n = sh_bytes s * 8;
          s1 = s\<lparr>sh_block := (sh_block s)[unat (sh_used s) := CHR 0x80], sh_used := sh_used s + 1\<rparr>;
          s2 = (if sh_used s1 > 56
                then (sha_compress (s1\<lparr>sh_block := blit (sh_block s1) (unat (sh_used s1))
                        (replicate (64 - unat (sh_used s1)) (CHR 0x00))\<rparr>))\<lparr>sh_used := 0\<rparr>
                else s1);
          b = store_length (blit (sh_block s2) (unat (sh_used s2))
                 (replicate (56 - unat (sh_used s2)) (CHR 0x00))) n
      in concat (map hex_word (sh_h (sha_compress (s2\<lparr>sh_block := b\<rparr>)))))"

definition sha256 :: "bytes \<Rightarrow> string result" where
  "sha256 text = (case sha_update new_sha text of Inl e \<Rightarrow> Inl e | Inr s \<Rightarrow> Inr (sha_finish s))"

definition valid_digest :: "string \<Rightarrow> bool" where
  "valid_digest s \<longleftrightarrow> length s = 64 \<and> (\<forall>c \<in> set s. c \<in> set ''0123456789abcdef'')"

section \<open>Reference: one-shot padding and folding\<close>

function blocks64 :: "'a list \<Rightarrow> 'a list list" where
  "blocks64 xs = (if length xs < 64 then [] else take 64 xs # blocks64 (drop 64 xs))"
  by pat_completeness auto
termination
  by (relation "measure length") auto

declare blocks64.simps [simp del]

definition sha_pad :: "bytes \<Rightarrow> bytes" where
  "sha_pad m = m @ CHR 0x80 # replicate ((119 - length m mod 64) mod 64) (CHR 0x00)
      @ map (\<lambda>i. byte_of (drop_bit (56 - 8 * i) (of_nat (8 * length m) :: u64))) [0..<8]"

definition sha_ref :: "bytes \<Rightarrow> string" where
  "sha_ref m = concat (map hex_word (foldl compress_block initial_h (blocks64 (sha_pad m))))"

text \<open>The digest state after the bytes \<open>m\<close>: whole blocks folded in, the rest buffered.\<close>

definition sha_repr :: "sha \<Rightarrow> bytes \<Rightarrow> bool" where
  "sha_repr s m \<longleftrightarrow> (\<exists>full rest. m = full @ rest \<and> 64 dvd length full \<and> length rest < 64
     \<and> length (sh_block s) = 64 \<and> take (length rest) (sh_block s) = rest
     \<and> unat (sh_used s) = length rest
     \<and> sh_h s = foldl compress_block initial_h (blocks64 full))"

definition sha_inv :: "sha \<Rightarrow> bytes \<Rightarrow> bool" where
  "sha_inv s m \<longleftrightarrow> sha_repr s m \<and> unat (sh_bytes s) = length m \<and> length m < 2 ^ 61"

section \<open>Streaming equals one-shot\<close>

lemma blocks64_small [simp]: "length xs < 64 \<Longrightarrow> blocks64 xs = []"
  by (simp add: blocks64.simps)

lemma blocks64_one [simp]: "length xs = 64 \<Longrightarrow> blocks64 xs = [xs]"
  by (simp add: blocks64.simps)

lemma blocks64_append: "64 dvd length xs \<Longrightarrow> blocks64 (xs @ ys) = blocks64 xs @ blocks64 ys"
proof (induction xs rule: blocks64.induct)
  case (1 xs)
  show ?case
  proof (cases "length xs < 64")
    case True
    with "1.prems" have "xs = []" by (auto dest: dvd_imp_le)
    then show ?thesis by simp
  next
    case False
    then have "64 dvd length (drop 64 xs)" using "1.prems" by (simp add: dvd_diff_nat)
    then have "blocks64 (drop 64 xs @ ys) = blocks64 (drop 64 xs) @ blocks64 ys"
      by (rule "1.IH" [OF False])
    with False show ?thesis
      by (simp add: blocks64.simps [of "xs @ ys"] blocks64.simps [of xs])
  qed
qed

lemma sha_repr_new: "sha_repr new_sha []"
  by (simp add: sha_repr_def new_sha_def)

lemma unat_room: "unat (u :: u64) < 64 \<Longrightarrow> unat (64 - u) = 64 - unat u"
proof -
  assume "unat u < 64"
  then have "u \<le> 64" by (simp add: word_le_nat_alt)
  then show ?thesis by (simp add: unat_sub)
qed

lemma unat_plus_of_nat:
  "unat (u :: u64) + n < 2 ^ 64 \<Longrightarrow> unat (u + of_nat n) = unat u + n"
  by (simp add: unat_word_ariths unat_of_nat)

lemma absorb_repr:
  assumes r: "sha_repr s m" and le: "unat (sh_used s) + length part \<le> 64"
  shows "sha_repr (absorb s part) (m @ part)"
proof -
  from r obtain full rest where m: "m = full @ rest" and full: "64 dvd length full"
    and rest: "length rest < 64" and blk: "length (sh_block s) = 64"
    and tk: "take (length rest) (sh_block s) = rest" and used: "unat (sh_used s) = length rest"
    and hh: "sh_h s = foldl compress_block initial_h (blocks64 full)"
    unfolding sha_repr_def by blast
  have uu: "unat (sh_used s + of_nat (length part)) = length rest + length part"
    using le used by (simp add: unat_plus_of_nat)
  have blk': "length (blit (sh_block s) (length rest) part) = 64"
    using le used blk by simp
  have tk': "take (length rest + length part) (blit (sh_block s) (length rest) part) = rest @ part"
    using blk rest tk by simp
  have is64: "sh_used s + of_nat (length part) = 64 \<longleftrightarrow> length rest + length part = 64"
    using uu by (simp add: word_unat_eq_iff)
  show ?thesis
  proof (cases "length rest + length part = 64")
    case True
    then have whole: "blit (sh_block s) (length rest) part = rest @ part"
      using tk' blk' by simp
    have "blocks64 (full @ rest @ part) = blocks64 full @ [rest @ part]"
      using full True by (simp add: blocks64_append)
    then show ?thesis
      unfolding sha_repr_def m using True is64 full whole used hh
      by (intro exI [of _ "full @ rest @ part"] exI [of _ "[]"])
         (simp add: absorb_def sha_compress_def)
  next
    case False
    then show ?thesis
      unfolding sha_repr_def m using le is64 full used hh blk' tk' uu
      by (intro exI [of _ full] exI [of _ "rest @ part"]) (simp add: absorb_def)
  qed
qed

lemma sha_update_loop_repr: "sha_repr s m \<Longrightarrow> sha_repr (sha_update_loop s data) (m @ data)"
proof (induction s data arbitrary: m rule: sha_update_loop.induct)
  case (1 s data)
  show ?case
  proof (cases "data = []")
    case True
    with "1.prems" show ?thesis by (simp add: sha_update_loop.simps)
  next
    case False
    let ?t = "absorb_count s data"
    from "1.prems" have "unat (sh_used s) < 64" by (auto simp: sha_repr_def)
    then have "unat (sh_used s) + length (take ?t data) \<le> 64"
      by (simp add: absorb_count_def unat_room)
    then have "sha_repr (absorb s (take ?t data)) (m @ take ?t data)"
      by (rule absorb_repr [OF "1.prems"])
    from "1.IH" [OF False refl this] False show ?thesis
      by (simp add: sha_update_loop.simps [of s data] Let_def)
  qed
qed

lemma absorb_bytes [frame]: "sh_bytes (absorb s part) = sh_bytes s"
  by (simp add: absorb_def sha_compress_def Let_def)

lemma sha_update_loop_bytes [frame]: "sh_bytes (sha_update_loop s data) = sh_bytes s"
proof (induction s data rule: sha_update_loop.induct)
  case (1 s data)
  then show ?case by (cases "data = []") 
      (simp_all add: sha_update_loop.simps [of s "[]"] sha_update_loop.simps [of s data] Let_def frame)
qed

lemma sha_room:
  assumes "length m < 2 ^ 61" and "unat (b :: u64) = length m" and "length d < 2 ^ 64"
  shows "of_nat (length d) > (- 1 :: u64) div 8 - b \<longleftrightarrow> 2 ^ 61 \<le> length m + length d"
proof -
  have d: "unat (of_nat (length d) :: u64) = length d" using assms(3) by (simp add: unat_of_nat)
  have "b \<le> (- 1 :: u64) div 8" using assms by (simp add: word_le_nat_alt unat_div)
  then have "unat ((- 1 :: u64) div 8 - b) = 2 ^ 61 - 1 - length m"
    using assms by (simp add: unat_sub unat_div)
  with d assms(1) show ?thesis by (simp add: word_less_nat_alt) linarith
qed

lemma sha_update_inv:
  assumes inv: "sha_inv s m" and small: "length m + length d < 2 ^ 61"
  obtains s' where "sha_update s d = Inr s'" and "sha_inv s' (m @ d)"
proof
  let ?s' = "sha_update_loop (s\<lparr>sh_bytes := sh_bytes s + of_nat (length d)\<rparr>) d"
  from inv small show "sha_update s d = Inr ?s'"
    using sha_room [of m "sh_bytes s" d] by (auto simp: sha_update_def sha_inv_def)
  have "sha_repr (s\<lparr>sh_bytes := sh_bytes s + of_nat (length d)\<rparr>) m"
    using inv by (simp add: sha_inv_def sha_repr_def)
  then have "sha_repr ?s' (m @ d)" by (rule sha_update_loop_repr)
  moreover have "unat (sh_bytes s + of_nat (length d)) = length m + length d"
    using inv small by (simp add: sha_inv_def unat_plus_of_nat)
  ultimately show "sha_inv ?s' (m @ d)"
    using small by (simp add: sha_inv_def frame)
qed

lemma store_length_eq:
  assumes "length b = 64"
  shows "store_length b n = take 56 b @ map (\<lambda>i. byte_of (drop_bit (56 - 8 * i) n)) [0..<8]"
proof (rule nth_equalityI)
  have upt: "[0..<8] = [0, 1, 2, 3, 4, 5, 6, 7 :: nat]" by (simp add: upt_rec)
  show "length (store_length b n)
      = length (take 56 b @ map (\<lambda>i. byte_of (drop_bit (56 - 8 * i) n)) [0..<8])"
    using assms by (simp add: store_length_def upt)
  fix i assume "i < length (store_length b n)"
  then have "i < 64" using assms by (simp add: store_length_def upt)
  then have "i < 56 \<or> i \<in> {56, 57, 58, 59, 60, 61, 62, 63}" by auto
  then show "store_length b n ! i
      = (take 56 b @ map (\<lambda>i. byte_of (drop_bit (56 - 8 * i) n)) [0..<8]) ! i"
    using assms by (auto simp: store_length_def upt nth_append nth_Cons')
qed

lemma take_set_0x80:
  assumes "take r b = rest" and "length rest = r" and "r < length b"
  shows "take (r + 1) (b[r := c]) = rest @ [c]"
  using assms by (simp add: take_Suc_conv_app_nth)

definition length_bytes :: "u64 \<Rightarrow> bytes" where
  "length_bytes n = map (\<lambda>i. byte_of (drop_bit (56 - 8 * i) n)) [0..<8]"

lemma length_length_bytes [simp]: "length (length_bytes n) = 8"
  by (simp add: length_bytes_def)

lemma sha_pad_eq: "sha_pad m = m @ CHR 0x80 # replicate ((119 - length m mod 64) mod 64) (CHR 0x00)
    @ length_bytes (of_nat (8 * length m))"
  by (simp only: sha_pad_def length_bytes_def)

lemma sha_finish_short:
  assumes "\<not> sh_used s + 1 > 56" and "unat (sh_used s + 1) \<le> 64" and "length (sh_block s) = 64"
  shows "sha_finish s = concat (map hex_word (compress_block (sh_h s)
     (take 56 (blit ((sh_block s)[unat (sh_used s) := CHR 0x80]) (unat (sh_used s + 1))
        (replicate (56 - unat (sh_used s + 1)) (CHR 0x00))) @ length_bytes (sh_bytes s * 8))))"
  using assms by (simp add: sha_finish_def sha_compress_def Let_def store_length_eq
      length_bytes_def word_less_nat_alt del: upt_conv_Cons upt_rec_numeral)

lemma sha_finish_long:
  assumes "sh_used s + 1 > 56"
    and b1: "b1 = blit ((sh_block s)[unat (sh_used s) := CHR 0x80]) (unat (sh_used s + 1))
        (replicate (64 - unat (sh_used s + 1)) (CHR 0x00))"
    and "length b1 = 64"
  shows "sha_finish s = concat (map hex_word (compress_block (compress_block (sh_h s) b1)
     (replicate 56 (CHR 0x00) @ length_bytes (sh_bytes s * 8))))"
proof -
  have "store_length (blit b1 0 (replicate 56 (CHR 0x00))) n
      = replicate 56 (CHR 0x00) @ length_bytes n" for n
    using assms(3) by (simp add: store_length_eq length_bytes_def blit_def
        del: upt_conv_Cons upt_rec_numeral)
  then show ?thesis
    using assms(1) by (simp add: sha_finish_def sha_compress_def Let_def flip: b1)
qed

lemma sha_finish_repr:
  assumes inv: "sha_inv s m"
  shows "sha_finish s = sha_ref m"
proof -
  from inv obtain full rest where m: "m = full @ rest" and full: "64 dvd length full"
    and rest: "length rest < 64" and blk: "length (sh_block s) = 64"
    and tk: "take (length rest) (sh_block s) = rest" and used: "unat (sh_used s) = length rest"
    and hh: "sh_h s = foldl compress_block initial_h (blocks64 full)"
    unfolding sha_inv_def sha_repr_def by blast
  let ?r = "length rest"
  let ?len = "length_bytes (of_nat (8 * length m))"
  have "(of_nat (unat (sh_bytes s)) :: u64) = of_nat (length m)"
    using inv by (simp only: sha_inv_def)
  then have bits: "sh_bytes s * 8 = of_nat (8 * length m)" by simp
  have u1: "unat (sh_used s + 1) = ?r + 1"
    using used rest unat_plus_of_nat [of "sh_used s" 1] by simp
  have gt: "sh_used s + 1 > 56 \<longleftrightarrow> ?r \<ge> 56"
    using u1 by (simp add: word_less_nat_alt) linarith
  let ?b1 = "(sh_block s)[?r := CHR 0x80]"
  have tk1: "take (?r + 1) ?b1 = rest @ [CHR 0x80]"
    by (rule take_set_0x80 [OF tk refl]) (use rest blk in simp)
  have "?r = length m mod 64" using m full rest by (auto simp: mod_add_left_eq [symmetric])
  then have pad: "sha_pad m = full @ rest @ CHR 0x80
      # replicate ((119 - ?r) mod 64) (CHR 0x00) @ ?len"
    unfolding sha_pad_eq by (simp only: m append_assoc)
  show ?thesis
  proof (cases "?r \<ge> 56")
    case False
    let ?zeros = "replicate (55 - ?r) (CHR 0x00)"
    let ?blk = "rest @ CHR 0x80 # ?zeros @ ?len"
    have "119 - ?r = 64 + (55 - ?r)" using False by simp
    moreover have "(64 + (55 - ?r)) mod 64 = 55 - ?r" by simp
    ultimately have zeros: "(119 - ?r) mod 64 = 55 - ?r" by (simp only:)
    have blocks: "blocks64 (sha_pad m) = blocks64 full @ [?blk]"
      unfolding pad zeros using full False by (simp add: blocks64_append)
    have "take 56 (blit ?b1 (?r + 1) ?zeros) = rest @ CHR 0x80 # ?zeros"
      using take_blit [of "?r + 1" ?b1 ?zeros] False blk tk1 by simp
    then have "sha_finish s = concat (map hex_word (compress_block (sh_h s) ?blk))"
      using sha_finish_short [of s] False gt u1 blk used bits by simp
    then show ?thesis by (simp add: sha_ref_def blocks hh)
  next
    case True
    let ?blk1 = "rest @ CHR 0x80 # replicate (63 - ?r) (CHR 0x00)"
    let ?blk2 = "replicate 56 (CHR 0x00) @ ?len"
    have zeros: "(119 - ?r) mod 64 = (63 - ?r) + 56" using True rest by simp
    have "sha_pad m = full @ ?blk1 @ ?blk2"
      unfolding pad zeros replicate_add by simp
    moreover have "blocks64 (?blk1 @ ?blk2) = blocks64 ?blk1 @ blocks64 ?blk2"
      by (rule blocks64_append) (use True rest in simp)
    moreover have "blocks64 ?blk1 = [?blk1]" and "blocks64 ?blk2 = [?blk2]"
      using True rest by simp_all
    ultimately have blocks: "blocks64 (sha_pad m) = blocks64 full @ [?blk1, ?blk2]"
      using full by (simp only: blocks64_append append.simps)
    have b1: "?blk1 = blit ?b1 (?r + 1) (replicate (63 - ?r) (CHR 0x00))"
      using blit_all [of "?r + 1" "replicate (63 - ?r) (CHR 0x00)" ?b1] rest blk tk1 by simp
    have "sha_finish s = concat (map hex_word (compress_block (compress_block (sh_h s) ?blk1) ?blk2))"
      unfolding bits [symmetric]
    proof (rule sha_finish_long)
      show "56 < sh_used s + 1" using gt True by simp
      show "?blk1 = blit ((sh_block s)[unat (sh_used s) := CHR 0x80]) (unat (sh_used s + 1))
          (replicate (64 - unat (sh_used s + 1)) (CHR 0x00))"
        unfolding used u1 b1 by simp
      show "length ?blk1 = 64" using rest by simp
    qed
    then show ?thesis by (simp add: sha_ref_def blocks hh)
  qed
qed

text \<open>Feeding the message in any number of pieces.\<close>

fun sha_updates :: "sha \<Rightarrow> bytes list \<Rightarrow> sha result" where
  "sha_updates s [] = Inr s"
| "sha_updates s (d # ds) = (case sha_update s d of Inl e \<Rightarrow> Inl e | Inr s' \<Rightarrow> sha_updates s' ds)"

lemma sha_updates_inv:
  "sha_inv s m \<Longrightarrow> length m + length (concat ds) < 2 ^ 61
     \<Longrightarrow> \<exists>s'. sha_updates s ds = Inr s' \<and> sha_inv s' (m @ concat ds)"
proof (induction ds arbitrary: s m)
  case Nil
  then show ?case by simp
next
  case (Cons d ds)
  from Cons.prems have "length m + length d < 2 ^ 61" by simp
  with Cons.prems(1) obtain s' where s': "sha_update s d = Inr s'" "sha_inv s' (m @ d)"
    by (rule sha_update_inv)
  from Cons.IH [OF s'(2)] Cons.prems(2) s'(1) show ?case by simp
qed

lemma sha_inv_new: "sha_inv new_sha []"
  by (simp add: sha_inv_def sha_repr_new) (simp add: new_sha_def)

lemma sha256_ref: "length m < 2 ^ 61 \<Longrightarrow> sha256 m = Inr (sha_ref m)"
  using sha_update_inv [OF sha_inv_new, of m] sha_finish_repr by (fastforce simp: sha256_def)

section \<open>Shape of a digest\<close>

lemma nibble_less: "unat (w AND 15 :: u32) < 16"
proof -
  have "unat (w AND 15) \<le> unat (15 :: u32)"
    using word_and_le1 [of w 15] by (simp add: word_le_nat_alt)
  then show ?thesis by simp
qed

lemma hex_digit_valid: "hex_digit (w AND 15) \<in> set ''0123456789abcdef''"
  unfolding hex_digit_def by (rule nth_mem) (use nibble_less [of w] in simp)

lemma length_working_list [simp]: "length (working_list w) = 8"
  by (induction w rule: working_list.induct) simp

lemma length_compress_block [simp]: "length h = 8 \<Longrightarrow> length (compress_block h b) = 8"
  by (simp add: compress_block_def)

lemma length_fold_compress: "length h = 8 \<Longrightarrow> length (foldl compress_block h bs) = 8"
  by (induction bs arbitrary: h) simp_all

lemma length_concat_hex: "length (concat (map hex_word ws)) = 8 * length ws"
  by (induction ws) (simp_all add: hex_word_def)

lemma sha_ref_valid: "valid_digest (sha_ref m)"
proof -
  have "length (foldl compress_block initial_h (blocks64 (sha_pad m))) = 8"
    by (rule length_fold_compress) (simp add: initial_h_def)
  then show ?thesis
    using hex_digit_valid
    by (auto simp: valid_digest_def sha_ref_def length_concat_hex hex_word_def simp del: set_simps)
qed

section \<open>Properties\<close>

text \<open>C7: Streaming: however a message below \<open>2 ^ 61\<close> bytes is cut into \<^verbatim>\<open>update\<close> calls, all of them
  are accepted and \<^verbatim>\<open>finish\<close> returns the reference digest of the whole message.\<close>

theorem sha256_streaming:
  assumes "length (concat ds) < 2 ^ 61"
  shows "\<exists>s. sha_updates new_sha ds = Inr s \<and> sha_finish s = sha_ref (concat ds)
    \<and> sha256 (concat ds) = Inr (sha_finish s)"
proof -
  obtain s where s: "sha_updates new_sha ds = Inr s" "sha_inv s ([] @ concat ds)"
    using sha_updates_inv [OF sha_inv_new, of ds] assms by auto
  then show ?thesis using sha_finish_repr [OF s(2)] sha256_ref [OF assms] by simp
qed

theorem sha256_streaming_witness:
  "length (concat [''a'', ''bc'']) < 2 ^ 61
     \<and> (\<exists>s. sha_updates new_sha [''a'', ''bc''] = Inr s \<and> sha256 ''abc'' = Inr (sha_finish s))"
  using sha256_streaming [of "[''a'', ''bc'']"] by auto

text \<open>The overflow guard of \<^verbatim>\<open>update\<close>: after \<open>m\<close>, an input is refused exactly when the total would
  reach \<open>2 ^ 61\<close> bytes, the first total whose bit length does not fit 64 bits.\<close>

lemma sha256_update_guard:
  assumes "sha_inv s m" and "length d < 2 ^ 64"
  shows "sha_update s d = Inl (Invalid_argument ''SHA256 input too large'')
    \<longleftrightarrow> 2 ^ 61 \<le> length m + length d"
  using assms sha_room [of m "sh_bytes s" d] by (auto simp: sha_update_def sha_inv_def)

theorem sha256_update_guard_witness:
  "sha_inv new_sha [] \<and> sha_update new_sha ''abc'' \<noteq> Inl (Invalid_argument ''SHA256 input too large'')"
  using sha256_update_guard [OF sha_inv_new, of "''abc''"] sha_inv_new by simp

text \<open>Every digest the code produces is accepted by \<^verbatim>\<open>valid_digest\<close>: 64 lowercase hex digits.\<close>

lemma sha256_valid_digest:
  assumes "sha256 m = Inr d" and "length m < 2 ^ 61"
  shows "valid_digest d"
  using assms sha256_ref [OF assms(2)] sha_ref_valid [of m] by simp

theorem sha256_valid_digest_witness: "valid_digest (sha_ref ''abc'')"
  using sha256_valid_digest [of "''abc''" "sha_ref ''abc''"] sha256_ref [of "''abc''"] by simp

text \<open>The published test vector: the digest of \<^verbatim>\<open>abc\<close>.\<close>

lemma sha256_abc:
  "sha256 ''abc'' = Inr ''ba7816bf8f01cfea414140de5dae2223b00361a396177a9cb410ff61f20015ad''"
  by code_simp

end
