(* ===== verification/Checkpoint.thy ===== *)
theory Checkpoint
  imports FileSystem Sha256
begin

text \<open>
  \<^verbatim>\<open>src/io/block_checkpoint.cpp\<close>: immutable, bounded blocks of floats in a directory, one owner
  at a time.  This theory holds the on-disk format (block header and payload codecs, block
  names), the object's state and every operation of the class: opening in the three modes with
  its lock, identity check, directory scan and recovery, \<open>publish\<close>, \<open>read\<close>, \<open>load\<close>, \<open>save\<close>,
  \<open>boundary\<close>, \<open>stored_identity\<close> and \<open>entries\<close>.  The theorems are in the theories
  \<open>CheckpointFormat\<close> and \<open>CheckpointStore\<close>.

  A float is its 32-bit pattern: the code compares payloads with \<^verbatim>\<open>memcmp\<close> and hashes their bytes.
  A mutating operation returns the list of directory states it passes through, oldest first, so
  that a crash between two system calls is an element of the list and the last element is the
  state it leaves.
\<close>

section \<open>Format\<close>

definition header_size :: nat where "header_size = 160"

definition magic :: bytes where "magic = ''RSBLK001''"

definition valid_key :: "string \<Rightarrow> bool" where
  "valid_key key \<longleftrightarrow> key \<noteq> [] \<and> length key \<le> 64
     \<and> (\<forall>c \<in> set key. c \<in> set ''abcdefghijklmnopqrstuvwxyz0123456789_-'')"

definition check_key :: "string \<Rightarrow> unit result" where
  "check_key key = (if valid_key key then Inr () else Inl (Invalid_argument ''invalid checkpoint key''))"

definition put64 :: "bytes \<Rightarrow> nat \<Rightarrow> u64 \<Rightarrow> bytes" where
  "put64 h p v = fold (\<lambda>i h. h[p + i := byte_of (drop_bit (8 * i) v)]) [0..<8] h"

definition get64 :: "bytes \<Rightarrow> nat \<Rightarrow> u64" where
  "get64 h p = fold (\<lambda>i v. v OR push_bit (8 * i) (of_char (h ! (p + i)))) [0..<8] 0"

definition float_bytes :: "u32 \<Rightarrow> bytes" where
  "float_bytes w = map (\<lambda>i. byte_of (drop_bit (8 * i) w)) [0..<4]"

definition floats_bytes :: "u32 list \<Rightarrow> bytes" where
  "floats_bytes ws = concat (map float_bytes ws)"

definition float_of_bytes :: "bytes \<Rightarrow> u32" where
  "float_of_bytes b = fold (\<lambda>i v. v OR push_bit (8 * i) (of_char (b ! i))) [0..<4] 0"

fun floats_of_bytes :: "nat \<Rightarrow> bytes \<Rightarrow> u32 list" where
  "floats_of_bytes 0 b = []"
| "floats_of_bytes (Suc n) b = float_of_bytes (take 4 b) # floats_of_bytes n (drop 4 b)"

definition is_finite :: "u32 \<Rightarrow> bool" where
  "is_finite w \<longleftrightarrow> drop_bit 23 w AND 255 \<noteq> 255"

definition finite_data :: "u32 list \<Rightarrow> unit result" where
  "finite_data data = (if list_all is_finite data then Inr ()
     else Inl (Runtime_error ''checkpoint contains non-finite data''))"

definition newline :: string where "newline = [CHR 0x0A]"

definition block_digest :: "string \<Rightarrow> string \<Rightarrow> u64 \<Rightarrow> u32 list \<Rightarrow> string result" where
  "block_digest identity key offset data =
     (let prefix = identity @ newline @ key @ newline @ dec (unat offset) @ newline
                     @ dec (length data) @ newline
      in case sha_update new_sha prefix of Inl e \<Rightarrow> Inl e
         | Inr s \<Rightarrow> (case sha_update s (floats_bytes data) of Inl e \<Rightarrow> Inl e
                    | Inr t \<Rightarrow> Inr (sha_finish t)))"

definition make_header :: "string \<Rightarrow> u64 \<Rightarrow> nat \<Rightarrow> string \<Rightarrow> bytes" where
  "make_header identity offset count checksum =
     blit (put64 (put64 (blit (blit (replicate header_size (CHR 0x00)) 0 magic) 8 identity)
        72 offset) 80 (of_nat count)) 88 checksum"

section \<open>State\<close>

datatype mode = Create | Resume | ReadOnly

record limits =
  l_block_bytes :: nat
  l_total_bytes :: nat
  l_blocks :: nat

definition default_limits :: limits where
  "default_limits = \<lparr>l_block_bytes = 32 * 1024 * 1024,
     l_total_bytes = 2 * 1024 * 1024 * 1024, l_blocks = 4096\<rparr>"

record ckpt =
  c_identity :: string
  c_limits :: limits
  c_bytes :: nat
  c_hits :: nat
  c_blocks :: nat
  c_healthy :: bool
  c_read_only :: bool

record store =
  st_entries :: entries
  st_exclusive :: bool
  st_sharers :: nat

section \<open>Publishing a file\<close>

definition discard :: "kernel \<Rightarrow> string \<Rightarrow> entries \<Rightarrow> entries" where
  "discard k pending es = (if k_fails k (Sys_unlink pending) then es else dir_remove pending es)"

definition publish_body ::
  "kernel \<Rightarrow> entries \<Rightarrow> string \<Rightarrow> string \<Rightarrow> bytes \<Rightarrow> bytes \<Rightarrow> entries list \<times> unit result" where
  "publish_body k es pending name head data =
     (let staged = (\<lambda>v. dir_put pending (fresh_file v) es);
          (w1, ok1) = transfer_out (k_replies k (Sys_write pending 0)) [] head;
          s1 = map staged w1
      in if \<not> ok1
         then (s1 @ [discard k pending (last s1)], Inl (Runtime_error ''checkpoint write failed''))
         else
      let (w2, ok2) = transfer_out (k_replies k (Sys_write pending 1)) head data;
          s2 = s1 @ map staged w2
      in if \<not> ok2
         then (s2 @ [discard k pending (last s2)], Inl (Runtime_error ''checkpoint write failed''))
         else if k_fails k (Sys_fsync pending)
         then (s2 @ [discard k pending (last s2)], Inl (Runtime_error ''checkpoint file sync failed''))
         else if k_fails k (Sys_rename pending)
         then (s2 @ [discard k pending (last s2)], Inl (Runtime_error ''checkpoint publication failed''))
         else
      let s3 = s2 @ [dir_rename pending name (last s2)]
      in if k_fails k Sys_fsync_dir
         then (s3, Inl (Runtime_error ''checkpoint publication directory sync failed''))
         else (s3, Inr ()))"

definition publish ::
  "kernel \<Rightarrow> entries \<Rightarrow> ckpt \<Rightarrow> string \<Rightarrow> bytes \<Rightarrow> bytes \<Rightarrow> entries list \<times> ckpt \<times> unit result" where
  "publish k es c name head data =
     (let pending = name @ ''.pending''
      in if k_fails k (Sys_create pending) \<or> map_of es pending \<noteq> None
         then ([es], c\<lparr>c_healthy := False\<rparr>,
               Inl (Runtime_error ''cannot create checkpoint staging file''))
         else
      let (t, r) = publish_body k (dir_put pending (fresh_file []) es) pending name head data
      in (es # t, (if is_ok r then c else c\<lparr>c_healthy := False\<rparr>), r))"

section \<open>Reading a block\<close>

datatype opened = Absent | Unreadable | Opened inode

definition open_read :: "kernel \<Rightarrow> entries \<Rightarrow> string \<Rightarrow> opened" where
  "open_read k es name =
     (if k_fails k (Sys_open name) then Unreadable
      else case map_of es name of None \<Rightarrow> Absent
           | Some i \<Rightarrow> if kind i = Symlink then Unreadable else Opened i)"

definition read_payload ::
  "kernel \<Rightarrow> ckpt \<Rightarrow> string \<Rightarrow> string \<Rightarrow> u64 \<Rightarrow> nat \<Rightarrow> bytes \<Rightarrow> bytes \<Rightarrow> u32 list option result" where
  "read_payload k c key name offset count h rest =
     (case transfer_in (k_replies k (Sys_read name 1)) (4 * count) rest of
        None \<Rightarrow> Inl (Runtime_error ''checkpoint truncated/read failed'')
      | Some d \<Rightarrow>
        let data = floats_of_bytes count d
        in if k_fails k (Sys_restat name)
           then Inl (Runtime_error ''checkpoint changed while reading'')
           else case finite_data data of Inl e \<Rightarrow> Inl e | Inr _ \<Rightarrow>
             (case block_digest (c_identity c) key offset data of Inl e \<Rightarrow> Inl e
              | Inr checksum \<Rightarrow>
                if field h 88 64 \<noteq> checksum
                then Inl (Runtime_error ''checkpoint block checksum mismatch'')
                else Inr (Some data)))"

definition ckpt_read ::
  "kernel \<Rightarrow> entries \<Rightarrow> ckpt \<Rightarrow> string \<Rightarrow> u64 \<Rightarrow> nat \<Rightarrow> u32 list option result" where
  "ckpt_read k es c key offset count =
     (if \<not> c_healthy c
      then Inl (Runtime_error ''checkpoint storage failed; reopen before further work'')
      else case check_key key of Inl e \<Rightarrow> Inl e | Inr _ \<Rightarrow>
      if count = 0 \<or> count > l_block_bytes (c_limits c) div 4
      then Inl (Invalid_argument ''checkpoint count out of bounds'')
      else let name = key @ ''.block''
      in case open_read k es name of
        Absent \<Rightarrow> Inr None
      | Unreadable \<Rightarrow> Inl (Runtime_error ''cannot read checkpoint block'')
      | Opened i \<Rightarrow>
        if k_fails k (Sys_stat name) \<or> \<not> plain_file i \<or> length (content i) \<noteq> header_size + 4 * count
        then Inl (Runtime_error ''checkpoint block size or type mismatch'')
        else case transfer_in (k_replies k (Sys_read name 0)) header_size (content i) of
          None \<Rightarrow> Inl (Runtime_error ''checkpoint truncated/read failed'')
        | Some h \<Rightarrow>
          if field h 0 8 \<noteq> magic \<or> field h 8 64 \<noteq> c_identity c \<or> get64 h 72 \<noteq> offset
             \<or> get64 h 80 \<noteq> of_nat count \<or> get64 h 152 \<noteq> 0
          then Inl (Runtime_error ''checkpoint block metadata mismatch'')
          else read_payload k c key name offset count h (drop header_size (content i)))"

definition ckpt_load ::
  "kernel \<Rightarrow> entries \<Rightarrow> ckpt \<Rightarrow> string \<Rightarrow> u64 \<Rightarrow> nat \<Rightarrow> ckpt \<times> u32 list option result" where
  "ckpt_load k es c key offset count =
     (case ckpt_read k es c key offset count of
        Inl e \<Rightarrow> (c, Inl e)
      | Inr None \<Rightarrow> (c, Inr None)
      | Inr (Some d) \<Rightarrow> (c\<lparr>c_hits := c_hits c + 1\<rparr>, Inr (Some d)))"

section \<open>Saving a block\<close>

definition save_new ::
  "kernel \<Rightarrow> entries \<Rightarrow> ckpt \<Rightarrow> string \<Rightarrow> u64 \<Rightarrow> u32 list \<Rightarrow> entries list \<times> ckpt \<times> unit result" where
  "save_new k es c key offset data =
     (let size = header_size + length (floats_bytes data)
      in if c_blocks c \<ge> l_blocks (c_limits c) \<or> size > sub64 (l_total_bytes (c_limits c)) (c_bytes c)
         then ([es], c, Inl (Runtime_error ''checkpoint disk limit exceeded''))
         else case block_digest (c_identity c) key offset data of Inl e \<Rightarrow> ([es], c, Inl e)
         | Inr checksum \<Rightarrow>
           (case publish k es c (key @ ''.block'')
                  (make_header (c_identity c) offset (length data) checksum) (floats_bytes data) of
              (t, c', Inl e) \<Rightarrow> (t, c', Inl e)
            | (t, c', Inr _) \<Rightarrow>
                (t, c'\<lparr>c_blocks := c_blocks c' + 1, c_bytes := c_bytes c' + size\<rparr>, Inr ())))"

definition ckpt_save ::
  "kernel \<Rightarrow> entries \<Rightarrow> ckpt \<Rightarrow> string \<Rightarrow> u64 \<Rightarrow> u32 list \<Rightarrow> entries list \<times> ckpt \<times> unit result" where
  "ckpt_save k es c key offset data =
     (if c_read_only c then ([es], c, Inl (Runtime_error ''read-only checkpoint cannot save''))
      else case check_key key of Inl e \<Rightarrow> ([es], c, Inl e) | Inr _ \<Rightarrow>
      if data = [] \<or> length data > l_block_bytes (c_limits c) div 4
      then ([es], c, Inl (Invalid_argument ''checkpoint count out of bounds''))
      else case finite_data data of Inl e \<Rightarrow> ([es], c, Inl e) | Inr _ \<Rightarrow>
      (case ckpt_read k es c key offset (length data) of
         Inl e \<Rightarrow> ([es], c, Inl e)
       | Inr (Some old) \<Rightarrow>
           if old \<noteq> data
           then ([es], c, Inl (Runtime_error ''cannot replace a committed checkpoint block''))
           else ([es], c, Inr ())
       | Inr None \<Rightarrow> save_new k es c key offset data))"

text \<open>\<^verbatim>\<open>boundary\<close>: the callback's answer is a parameter (absent, an exception, or its verdict).\<close>

definition ckpt_boundary :: "ckpt \<Rightarrow> bool result option \<Rightarrow> unit result" where
  "ckpt_boundary c pause =
     (if \<not> c_healthy c
      then Inl (Runtime_error ''checkpoint storage failed; reopen before further work'')
      else case pause of None \<Rightarrow> Inr ()
           | Some (Inl e) \<Rightarrow> Inl e
           | Some (Inr stop) \<Rightarrow> if stop then Inl Operation_paused else Inr ())"

definition restored_blocks :: "ckpt \<Rightarrow> nat" where
  "restored_blocks c = c_hits c"

section \<open>Opening\<close>

definition manifest_prefix :: string where
  "manifest_prefix = ''RESONANTIA_BLOCKS 1'' @ newline"

definition manifest :: "string \<Rightarrow> string" where
  "manifest identity = manifest_prefix @ identity @ newline"

definition valid_limits :: "string \<Rightarrow> limits \<Rightarrow> bool" where
  "valid_limits identity l \<longleftrightarrow> valid_digest identity
     \<and> \<not> l_block_bytes l < 4 \<and> \<not> l_block_bytes l > 32 * 1024 * 1024
     \<and> \<not> l_total_bytes l < header_size + 4 \<and> \<not> l_total_bytes l > 2 * 1024 * 1024 * 1024
     \<and> l_blocks l \<noteq> 0 \<and> \<not> l_blocks l > 4096"

text \<open>Opening \<^verbatim>\<open>.lock\<close> (created unless read-only): the entries afterwards, and whether it is usable.\<close>

definition open_lock :: "kernel \<Rightarrow> entries \<Rightarrow> mode \<Rightarrow> entries \<times> bool" where
  "open_lock k es m =
     (if k_fails k Sys_open_lock then (es, False)
      else case map_of es ''.lock'' of
        None \<Rightarrow> if m = ReadOnly then (es, False) else (dir_put ''.lock'' (fresh_file []) es, True)
      | Some i \<Rightarrow> (es, plain_file i))"

definition lock_free :: "kernel \<Rightarrow> store \<Rightarrow> mode \<Rightarrow> bool" where
  "lock_free k s m \<longleftrightarrow> \<not> k_fails k Sys_flock \<and> \<not> st_exclusive s \<and> (m = ReadOnly \<or> st_sharers s = 0)"

text \<open>Does the directory still need its identity file?\<close>

definition check_identity :: "kernel \<Rightarrow> entries \<Rightarrow> mode \<Rightarrow> string \<Rightarrow> bool result" where
  "check_identity k es m identity =
     (if m = Create then Inr True
      else case open_read k es ''identity'' of
        Absent \<Rightarrow> if m = ReadOnly
          then Inl (Runtime_error ''checkpoint identity missing or malformed'') else Inr True
      | Unreadable \<Rightarrow> Inl (Runtime_error ''checkpoint identity missing or malformed'')
      | Opened i \<Rightarrow>
        if k_fails k (Sys_stat ''identity'') \<or> \<not> plain_file i
           \<or> length (content i) \<noteq> length (manifest identity)
        then Inl (Runtime_error ''checkpoint identity missing or malformed'')
        else case transfer_in (k_replies k (Sys_read ''identity'' 0))
                    (length (manifest identity)) (content i) of
          None \<Rightarrow> Inl (Runtime_error ''checkpoint truncated/read failed'')
        | Some text \<Rightarrow> if text \<noteq> manifest identity
            then Inl (Runtime_error ''checkpoint identity mismatch'') else Inr False)"

record scan =
  sc_scanned :: nat
  sc_blocks :: nat
  sc_bytes :: nat
  sc_entries :: entries

text \<open>One \<^verbatim>\<open>readdir\<close> entry of the constructor's scan, and the whole scan.\<close>

definition scan_entry ::
  "kernel \<Rightarrow> mode \<Rightarrow> bool \<Rightarrow> limits \<Rightarrow> string \<Rightarrow> inode \<Rightarrow> scan \<Rightarrow> scan \<times> unit result" where
  "scan_entry k m initialize l name i st0 =
     (if name = ''.'' \<or> name = ''..'' \<or> name = ''.lock'' then (st0, Inr ())
      else let st = st0\<lparr>sc_scanned := sc_scanned st0 + 1\<rparr> in
      if sc_scanned st > 8194
      then (st, Inl (Runtime_error ''checkpoint directory entry limit exceeded''))
      else if k_fails k (Sys_stat name) \<or> \<not> plain_file i
      then (st, Inl (Runtime_error ''checkpoint contains non-regular or linked entry''))
      else if m = Create then (st, Inl (Runtime_error ''new checkpoint directory is not empty''))
      else if name = ''identity'' then (st, Inr ())
      else if initialize
      then (if name = ''identity.pending'' \<and> length (content i) \<le> 256 then (st, Inr ())
            else (st, Inl (Runtime_error ''checkpoint identity missing with existing block data'')))
      else if ends_with name ''.block.pending'' \<and> valid_key (strip_end 14 name)
      then (if m = ReadOnly then (st, Inr ())
            else if k_fails k (Sys_unlink name)
            then (st, Inl (Runtime_error ''cannot remove incomplete checkpoint block''))
            else (st\<lparr>sc_entries := dir_remove name (sc_entries st)\<rparr>, Inr ()))
      else if \<not> ends_with name ''.block'' \<or> \<not> valid_key (strip_end 6 name)
           \<or> length (content i) < header_size + 4
           \<or> length (content i) > header_size + l_block_bytes l
      then (st, Inl (Runtime_error ''invalid checkpoint block entry''))
      else let st' = st\<lparr>sc_blocks := sc_blocks st + 1\<rparr> in
      if sc_blocks st' > l_blocks l \<or> length (content i) > sub64 (l_total_bytes l) (sc_bytes st')
      then (st', Inl (Runtime_error ''checkpoint disk limit exceeded''))
      else (st'\<lparr>sc_bytes := sc_bytes st' + length (content i)\<rparr>, Inr ()))"

fun scan_dir ::
  "kernel \<Rightarrow> mode \<Rightarrow> bool \<Rightarrow> limits \<Rightarrow> entries \<Rightarrow> scan \<Rightarrow> scan \<times> unit result" where
  "scan_dir k m initialize l [] st =
     (st, if k_fails k Sys_scan then Inl (Runtime_error ''checkpoint directory scan failed'')
          else Inr ())"
| "scan_dir k m initialize l ((name, i) # es) st =
     (case scan_entry k m initialize l name i st of
        (st', Inl e) \<Rightarrow> (st', Inl e)
      | (st', Inr _) \<Rightarrow> scan_dir k m initialize l es st')"

text \<open>Publishing the identity when it is missing; a leftover of an interrupted attempt goes first.\<close>

definition init_identity ::
  "kernel \<Rightarrow> mode \<Rightarrow> bool \<Rightarrow> entries \<Rightarrow> ckpt \<Rightarrow> entries list \<times> ckpt \<times> unit result" where
  "init_identity k m initialize es c =
     (if \<not> initialize then ([es], c, Inr ())
      else if m = Resume \<and> map_of es ''identity.pending'' \<noteq> None
              \<and> k_fails k (Sys_unlink ''identity.pending'')
      then ([es], c, Inl (Runtime_error ''cannot remove incomplete checkpoint identity''))
      else let es' = (if m = Resume then dir_remove ''identity.pending'' es else es);
               (t, c', r) = publish k es' c ''identity'' (manifest (c_identity c)) []
           in (es # t, c', r))"

text \<open>The constructor after the lock is held: identity, scan, recovery, final directory sync.\<close>

definition open_locked ::
  "kernel \<Rightarrow> entries \<Rightarrow> string \<Rightarrow> mode \<Rightarrow> limits \<Rightarrow> entries list \<times> ckpt result" where
  "open_locked k es identity m l =
     (case check_identity k es m identity of Inl e \<Rightarrow> ([es], Inl e)
      | Inr initialize \<Rightarrow>
        (case scan_dir k m initialize l es
               \<lparr>sc_scanned = 0, sc_blocks = 0, sc_bytes = 0, sc_entries = es\<rparr> of
           (st, Inl e) \<Rightarrow> ([es, sc_entries st], Inl e)
         | (st, Inr _) \<Rightarrow>
           (let c = \<lparr>c_identity = identity, c_limits = l, c_bytes = sc_bytes st, c_hits = 0,
                     c_blocks = sc_blocks st, c_healthy = True, c_read_only = (m = ReadOnly)\<rparr>
            in case init_identity k m initialize (sc_entries st) c of
                 (t, c', Inl e) \<Rightarrow> (es # t, Inl e)
               | (t, c', Inr _) \<Rightarrow>
                   if m \<noteq> ReadOnly \<and> k_fails k Sys_fsync_dir
                   then (es # t, Inl (Runtime_error ''checkpoint directory sync failed''))
                   else (es # t, Inr c'))))"

definition empty_store :: store where
  "empty_store = \<lparr>st_entries = [], st_exclusive = False, st_sharers = 0\<rparr>"

definition take_lock :: "store \<Rightarrow> mode \<Rightarrow> store" where
  "take_lock s m = (if m = ReadOnly then s\<lparr>st_sharers := st_sharers s + 1\<rparr>
                    else s\<lparr>st_exclusive := True\<rparr>)"

definition release_lock :: "store \<Rightarrow> ckpt \<Rightarrow> store" where
  "release_lock s c = (if c_read_only c then s\<lparr>st_sharers := st_sharers s - 1\<rparr>
                       else s\<lparr>st_exclusive := False\<rparr>)"

definition open_checkpoint ::
  "kernel \<Rightarrow> store option \<Rightarrow> string \<Rightarrow> mode \<Rightarrow> limits \<Rightarrow> store option \<times> ckpt result" where
  "open_checkpoint k so identity m l =
     (if \<not> valid_limits identity l
      then (so, Inl (Invalid_argument ''invalid checkpoint identity or limits''))
      else if m = Create \<and> k_fails k Sys_create_directories
      then (so, Inl (Runtime_error ''cannot create directories''))
      else let so' = (if m = Create \<and> so = None then Some empty_store else so)
      in case so' of
        None \<Rightarrow> (None, Inl (Runtime_error ''cannot open checkpoint directory''))
      | Some s \<Rightarrow>
        if k_fails k Sys_open_dir
        then (so', Inl (Runtime_error ''cannot open checkpoint directory''))
        else let (es, usable) = open_lock k (st_entries s) m; s1 = s\<lparr>st_entries := es\<rparr>
        in if \<not> usable \<or> \<not> lock_free k s m
           then (Some s1, Inl (Runtime_error ''checkpoint directory is already owned or lock is invalid''))
           else case open_locked k es identity m l of
             (t, Inl e) \<Rightarrow> (Some (s1\<lparr>st_entries := last t\<rparr>), Inl e)
           | (t, Inr c) \<Rightarrow> (Some (take_lock (s1\<lparr>st_entries := last t\<rparr>) m), Inr c))"

section \<open>Inspection\<close>

definition stored_identity :: "kernel \<Rightarrow> store option \<Rightarrow> string result" where
  "stored_identity k so =
     (if k_fails k Sys_open_dir \<or> so = None
      then Inl (Runtime_error ''cannot inspect checkpoint directory'')
      else case open_read k (st_entries (the so)) ''identity'' of
        Opened i \<Rightarrow>
          if k_fails k (Sys_stat ''identity'') \<or> \<not> plain_file i
             \<or> length (content i) \<noteq> length manifest_prefix + 65
          then Inl (Runtime_error ''checkpoint identity missing or malformed'')
          else (case transfer_in (k_replies k (Sys_read ''identity'' 0))
                       (length manifest_prefix + 65) (content i) of
             None \<Rightarrow> Inl (Runtime_error ''checkpoint truncated/read failed'')
           | Some d \<Rightarrow>
             let ident = field d (length manifest_prefix) 64
             in if \<not> starts_with d manifest_prefix \<or> last d \<noteq> CHR 0x0A \<or> \<not> valid_digest ident
                then Inl (Runtime_error ''checkpoint identity malformed'')
                else Inr ident)
      | _ \<Rightarrow> Inl (Runtime_error ''checkpoint identity missing or malformed''))"

record block_entry =
  e_key :: string
  e_offset :: u64
  e_count :: u64

definition entry_of_block :: "kernel \<Rightarrow> entries \<Rightarrow> ckpt \<Rightarrow> string \<Rightarrow> block_entry result" where
  "entry_of_block k es c name =
     (let key = strip_end 6 name
      in case check_key key of Inl e \<Rightarrow> Inl e | Inr _ \<Rightarrow>
      (case open_read k es name of
         Opened i \<Rightarrow>
           if k_fails k (Sys_stat name) \<or> \<not> plain_file i \<or> length (content i) < header_size + 4
           then Inl (Runtime_error ''invalid checkpoint entry'')
           else (case transfer_in (k_replies k (Sys_read name 0)) header_size (content i) of
              None \<Rightarrow> Inl (Runtime_error ''checkpoint truncated/read failed'')
            | Some h \<Rightarrow>
              let count = get64 h 80
              in if field h 0 8 \<noteq> magic \<or> field h 8 64 \<noteq> c_identity c \<or> get64 h 152 \<noteq> 0
                    \<or> count = 0 \<or> unat count > l_block_bytes (c_limits c) div 4
                    \<or> length (content i) \<noteq> header_size + 4 * unat count
                 then Inl (Runtime_error ''invalid checkpoint entry metadata'')
                 else Inr \<lparr>e_key = key, e_offset = get64 h 72, e_count = count\<rparr>)
       | _ \<Rightarrow> Inl (Runtime_error ''invalid checkpoint entry'')))"

text \<open>\<open>scanned\<close> starts at 2: \<^verbatim>\<open>readdir\<close> also lists the two dot entries, which this loop counts.\<close>

fun list_blocks ::
  "kernel \<Rightarrow> entries \<Rightarrow> ckpt \<Rightarrow> entries \<Rightarrow> nat \<Rightarrow> block_entry list \<Rightarrow> block_entry list result" where
  "list_blocks k es c [] scanned acc =
     (if k_fails k Sys_scan then Inl (Runtime_error ''checkpoint scan failed'') else Inr acc)"
| "list_blocks k es c ((name, i) # rest) scanned acc =
     (if scanned + 1 > 8196 then Inl (Runtime_error ''checkpoint entry limit exceeded'')
      else if \<not> ends_with name ''.block'' then list_blocks k es c rest (scanned + 1) acc
      else case entry_of_block k es c name of Inl e \<Rightarrow> Inl e
      | Inr b \<Rightarrow>
        if length (acc @ [b]) > l_blocks (c_limits c)
        then Inl (Runtime_error ''checkpoint entry limit exceeded'')
        else list_blocks k es c rest (scanned + 1) (acc @ [b]))"

definition ckpt_entries :: "kernel \<Rightarrow> entries \<Rightarrow> ckpt \<Rightarrow> block_entry list result" where
  "ckpt_entries k es c = list_blocks k es c es 2 []"

end
