(* ===== verification/CheckpointFormat.thy ===== *)
theory CheckpointFormat
  imports Checkpoint
begin

text \<open>
  The block format of \<^verbatim>\<open>src/io/block_checkpoint.cpp\<close> read back: 64-bit header fields, the whole
  160-byte header as one concatenation, float payloads, and the shape of a digest.
\<close>

section \<open>Header fields\<close>

definition le64_bytes :: "u64 \<Rightarrow> bytes" where
  "le64_bytes v = map (\<lambda>i. byte_of (drop_bit (8 * i) v)) [0..<8]"

lemma length_le64_bytes [simp]: "length (le64_bytes v) = 8"
  by (simp add: le64_bytes_def)

lemma blit_snoc:
  "p + length ys < length h \<Longrightarrow> (blit h p ys)[p + length ys := x] = blit h p (ys @ [x])"
  by (simp add: blit_def list_update_append Cons_nth_drop_Suc [symmetric])

lemma put64_fold:
  "p + k \<le> length h \<Longrightarrow>
     fold (\<lambda>i h. h[p + i := f i]) [0..<k] h = blit h p (map f [0..<k])"
proof (induction k)
  case 0
  then show ?case by (simp add: blit_def)
next
  case (Suc k)
  then have "fold (\<lambda>i h. h[p + i := f i]) [0..<k] h = blit h p (map f [0..<k])" by simp
  moreover have "(blit h p (map f [0..<k]))[p + k := f k] = blit h p (map f [0..<k] @ [f k])"
    using blit_snoc [of p "map f [0..<k]" h "f k"] Suc.prems by simp
  ultimately show ?case by simp
qed

lemma put64_blit: "p + 8 \<le> length h \<Longrightarrow> put64 h p v = blit h p (le64_bytes v)"
  unfolding put64_def le64_bytes_def by (rule put64_fold)

lemma get64_field: "p + 8 \<le> length h \<Longrightarrow> get64 h p = get64 (field h p 8) 0"
  unfolding get64_def by (rule fold_cong) (auto simp: field_def simp del: upt_rec_numeral)

lemma get64_le64 [codec]: "get64 (le64_bytes v) 0 = v"
proof -
  have "get64 (le64_bytes v) 0
      = fold (\<lambda>i w. w OR push_bit (8 * i) (take_bit 8 (drop_bit (8 * i) v))) [0..<8] 0"
    unfolding get64_def by (rule fold_cong) (auto simp: le64_bytes_def simp del: upt_rec_numeral)
  also have "\<dots> = v" by (simp only: le_fold) simp
  finally show ?thesis .
qed

lemma get64_put64 [codec]: "p + 8 \<le> length h \<Longrightarrow> get64 (put64 h p v) p = v"
  by (simp add: put64_blit get64_field codec)

lemma get64_put64_other [codec]:
  "p + 8 \<le> length h \<Longrightarrow> q + 8 \<le> length h \<Longrightarrow> q + 8 \<le> p \<or> p + 8 \<le> q \<Longrightarrow>
     get64 (put64 h p v) q = get64 h q"
  by (auto simp: put64_blit get64_field [of q] codec)

section \<open>The header as a concatenation\<close>

lemma length_magic [simp]: "length magic = 8"
  by (simp add: magic_def)

lemma make_header_eq:
  assumes "length identity = 64" and "length checksum = 64"
  shows "make_header identity offset count checksum
    = magic @ identity @ le64_bytes offset @ le64_bytes (of_nat count) @ checksum
        @ replicate 8 (CHR 0x00)"
proof -
  let ?z = "\<lambda>n. replicate n (CHR 0x00)"
  have "blit (?z header_size) 0 magic = magic @ ?z 152"
    using blit_at_end [of 0 "[]" "?z header_size" magic] by (simp add: header_size_def)
  moreover have "blit (magic @ ?z 152) 8 identity = (magic @ identity) @ ?z 88"
    using blit_at_end [of 8 magic "?z 152" identity] assms by simp
  moreover have "put64 ((magic @ identity) @ ?z 88) 72 offset
      = (magic @ identity @ le64_bytes offset) @ ?z 80"
    using blit_at_end [of 72 "magic @ identity" "?z 88" "le64_bytes offset"] assms
    by (simp add: put64_blit)
  moreover have "put64 ((magic @ identity @ le64_bytes offset) @ ?z 80) 80 (of_nat count)
      = (magic @ identity @ le64_bytes offset @ le64_bytes (of_nat count)) @ ?z 72"
    using blit_at_end [of 80 "magic @ identity @ le64_bytes offset" "?z 80"
        "le64_bytes (of_nat count)"] assms
    by (simp add: put64_blit)
  moreover have "blit ((magic @ identity @ le64_bytes offset @ le64_bytes (of_nat count)) @ ?z 72)
        88 checksum
      = magic @ identity @ le64_bytes offset @ le64_bytes (of_nat count) @ checksum @ ?z 8"
    using blit_at_end [of 88 "magic @ identity @ le64_bytes offset @ le64_bytes (of_nat count)"
        "?z 72" checksum] assms by simp
  ultimately show ?thesis by (simp only: make_header_def)
qed

lemma length_make_header [simp]:
  "length identity = 64 \<Longrightarrow> length checksum = 64 \<Longrightarrow>
     length (make_header identity offset count checksum) = header_size"
  by (simp add: make_header_eq header_size_def)

lemma field_skip: "length xs \<le> p \<Longrightarrow> field (xs @ ys) p n = field ys (p - length xs) n"
  by (simp add: field_def)

lemma field_here: "length xs = n \<Longrightarrow> field (xs @ ys) 0 n = xs"
  by (simp add: field_def)

lemma header_fields:
  assumes "length identity = 64" and "length checksum = 64"
    and h_def: "h = make_header identity offset count checksum"
  shows "field h 0 8 = magic" and "field h 8 64 = identity" and "get64 h 72 = offset"
    and "get64 h 80 = of_nat count" and "field h 88 64 = checksum" and "get64 h 152 = 0"
proof -
  have len: "length h = 160" using assms by (simp add: header_size_def)
  have eq: "h = magic @ identity @ le64_bytes offset @ le64_bytes (of_nat count) @ checksum
      @ replicate 8 (CHR 0x00)"
    unfolding h_def using assms(1,2) by (rule make_header_eq)
  have g: "get64 h p = get64 (field h p 8) 0" if "p + 8 \<le> 160" for p
    using that len by (simp add: get64_field [of p h])
  show "field h 0 8 = magic" unfolding eq by (simp add: field_here)
  show "field h 8 64 = identity" unfolding eq using assms(1) by (simp add: field_skip field_here)
  have "field h 72 8 = le64_bytes offset"
    unfolding eq using assms(1) by (simp add: field_skip field_here)
  then show "get64 h 72 = offset" using g [of 72] by (simp add: get64_le64)
  have "field h 80 8 = le64_bytes (of_nat count)"
    unfolding eq using assms(1) by (simp add: field_skip field_here)
  then show "get64 h 80 = of_nat count" using g [of 80] by (simp add: get64_le64)
  show "field h 88 64 = checksum"
    unfolding eq using assms(1,2) by (simp add: field_skip field_here)
  have "field h 152 8 = replicate 8 (CHR 0x00)"
    unfolding eq using assms(1,2) by (simp add: field_skip) (simp add: field_def)
  also have "\<dots> = le64_bytes 0"
    by (simp add: le64_bytes_def upt_rec numeral_eq_Suc)
  finally show "get64 h 152 = 0" using g [of 152] by (simp add: get64_le64)
qed

section \<open>Payload\<close>

lemma length_float_bytes [simp]: "length (float_bytes w) = 4"
  by (simp add: float_bytes_def)

lemma length_floats_bytes [simp]: "length (floats_bytes ws) = 4 * length ws"
  by (induction ws) (simp_all add: floats_bytes_def)

lemma float_of_float_bytes [codec]: "float_of_bytes (float_bytes w) = w"
proof -
  have "float_of_bytes (float_bytes w)
      = fold (\<lambda>i v. v OR push_bit (8 * i) (take_bit 8 (drop_bit (8 * i) w))) [0..<4] 0"
    unfolding float_of_bytes_def
    by (rule fold_cong) (auto simp: float_bytes_def simp del: upt_rec_numeral)
  also have "\<dots> = w" by (simp only: le_fold) simp
  finally show ?thesis .
qed

lemma floats_of_floats_bytes [codec]: "floats_of_bytes (length ws) (floats_bytes ws) = ws"
  by (induction ws) (simp_all add: floats_bytes_def codec)

lemma floats_of_append [codec]:
  "floats_of_bytes (length ws) (floats_bytes ws @ r) = ws"
  by (induction ws) (simp_all add: floats_bytes_def codec)

lemma length_floats_of_bytes [simp]: "length (floats_of_bytes n b) = n"
  by (induction n arbitrary: b) simp_all

section \<open>Digests\<close>

lemma block_digest_ref:
  assumes "length identity + length key + 4 * length data + 2 ^ 20 < 2 ^ 61"
    and "length (dec (unat offset)) + length (dec (length data)) < 2 ^ 20 - 4"
  shows "block_digest identity key offset data
    = Inr (sha_ref (identity @ newline @ key @ newline @ dec (unat offset) @ newline
        @ dec (length data) @ newline @ floats_bytes data))"
proof -
  let ?p = "identity @ newline @ key @ newline @ dec (unat offset) @ newline
      @ dec (length data) @ newline"
  have "length ?p + 4 * length data < 2 ^ 61" using assms by (simp add: newline_def)
  then have l1: "length ([] :: bytes) + length ?p < 2 ^ 61"
    and l2: "length ([] @ ?p) + length (floats_bytes data) < 2 ^ 61" by simp_all
  from sha_update_inv [OF sha_inv_new l1] obtain s
    where s: "sha_update new_sha ?p = Inr s" "sha_inv s ([] @ ?p)" .
  from sha_update_inv [OF s(2) l2] obtain t
    where t: "sha_update s (floats_bytes data) = Inr t" "sha_inv t (([] @ ?p) @ floats_bytes data)" .
  then show ?thesis
    unfolding block_digest_def Let_def s(1) sum.case t(1)
    by (simp add: sha_finish_repr [OF t(2)])
qed

lemma length_dec_u64: "length (dec (unat (w :: u64))) \<le> 20"
proof -
  have "unat w < 2 ^ 64" using unsigned_less [of w] by simp
  also have "(2 :: nat) ^ 64 \<le> 10 ^ Suc 19" by simp
  finally show ?thesis using length_dec_less [of "unat w" 19] by simp
qed

text \<open>The digest of a block the limits admit exists and has 64 characters.\<close>

lemma block_digest_ok:
  assumes "length identity = 64" and "length key \<le> 64" and "length data \<le> 2 ^ 30"
  obtains d where "block_digest identity key offset data = Inr d" and "valid_digest d"
proof -
  have "length data < 10 ^ Suc 9" using assms(3) by simp
  then have "length (dec (length data)) \<le> 10" using length_dec_less [of "length data" 9] by simp
  then have "length (dec (unat offset)) + length (dec (length data)) < 2 ^ 20 - 4"
    using length_dec_u64 [of offset] by simp
  then show ?thesis
    using block_digest_ref [of identity key data offset] assms sha_ref_valid that by simp
qed

lemma valid_digest_length [simp]: "valid_digest d \<Longrightarrow> length d = 64"
  by (simp add: valid_digest_def)

end
