(* ===== verification/CheckpointStore.thy ===== *)
theory CheckpointStore
  imports CheckpointFormat
begin

text \<open>
  What \<^verbatim>\<open>BlockCheckpoint\<close> promises: a saved block reads back, a committed block never changes,
  other blocks are untouched, the disk limits hold, a crash at any system call of a save leaves
  either the old or the complete new block and the directory can be resumed, and one exclusive
  owner at a time.  The \<open>immutable_store\<close> interface states the contract the block-by-block
  clients (\<^verbatim>\<open>bounded_pipeline.cpp\<close>, \<^verbatim>\<open>roformer.cu\<close>) rely on.
\<close>

section \<open>Committed blocks and reading\<close>

definition block_name :: "string \<Rightarrow> string" where
  "block_name key = key @ ''.block''"

definition block_content :: "string \<Rightarrow> u64 \<Rightarrow> u32 list \<Rightarrow> string \<Rightarrow> bytes" where
  "block_content identity offset data checksum =
     make_header identity offset (length data) checksum @ floats_bytes data"

definition committed :: "entries \<Rightarrow> ckpt \<Rightarrow> string \<Rightarrow> u64 \<Rightarrow> u32 list \<Rightarrow> bool" where
  "committed es c key offset data \<longleftrightarrow>
     (\<exists>i checksum. map_of es (block_name key) = Some i \<and> plain_file i
        \<and> block_digest (c_identity c) key offset data = Inr checksum
        \<and> content i = block_content (c_identity c) offset data checksum)"

definition storable :: "ckpt \<Rightarrow> string \<Rightarrow> u32 list \<Rightarrow> bool" where
  "storable c key data \<longleftrightarrow> valid_key key \<and> data \<noteq> []
     \<and> length data \<le> l_block_bytes (c_limits c) div 4 \<and> list_all is_finite data"

lemma digest_valid:
  assumes "length identity = 64" and "valid_key key" and "length data \<le> 2 ^ 30"
    and "block_digest identity key offset data = Inr d"
  shows "length d = 64"
proof -
  have "length key \<le> 64" using assms(2) by (simp add: valid_key_def)
  from block_digest_ok [OF assms(1) this assms(3)] obtain d'
    where "block_digest identity key offset data = Inr d'" and "valid_digest d'" .
  with assms(4) show ?thesis by simp
qed

lemma limits_facts:
  assumes "valid_limits identity l"
  shows "length identity = 64" and "l_block_bytes l \<le> 2 ^ 25" and "l_total_bytes l \<le> 2 ^ 31"
    and "l_blocks l \<le> 4096"
  using assms by (auto simp: valid_limits_def)

lemma storable_small: "valid_limits (c_identity c) (c_limits c) \<Longrightarrow> storable c key data
    \<Longrightarrow> length data \<le> 2 ^ 30 \<and> 0 < length data \<and> length data < 2 ^ 64"
  using limits_facts(2) [of "c_identity c" "c_limits c"] by (auto simp: storable_def)

lemma read_committed:
  assumes k: "quiet k" and healthy: "c_healthy c" and lim: "valid_limits (c_identity c) (c_limits c)"
    and st: "storable c key data" and com: "committed es c key offset data"
  shows "ckpt_read k es c key offset (length data) = Inr (Some data)"
proof -
  from com obtain i d where m: "map_of es (key @ ''.block'') = Some i" and p: "plain_file i"
    and dig: "block_digest (c_identity c) key offset data = Inr d"
    and ct: "content i = make_header (c_identity c) offset (length data) d @ floats_bytes data"
    unfolding committed_def block_name_def block_content_def by blast
  let ?h = "make_header (c_identity c) offset (length data) d"
  have id: "length (c_identity c) = 64" using limits_facts(1) [OF lim] .
  have d: "length d = 64"
    using digest_valid [OF id _ _ dig] st storable_small [OF lim st] by (simp add: storable_def)
  have len: "length ?h = header_size" using id d by simp
  then have take: "take header_size (content i) = ?h" and drop: "drop header_size (content i) = floats_bytes data"
    by (simp_all add: ct)
  have size: "length (content i) = header_size + 4 * length data" using len by (simp add: ct)
  have opn: "open_read k es (key @ ''.block'') = Opened i"
    using k m p by (simp add: open_read_def plain_file_def)
  have payload: "read_payload k c key (key @ ''.block'') offset (length data) ?h (floats_bytes data)
      = Inr (Some data)"
    using k st dig header_fields(5) [OF id d refl, of offset "length data"]
    by (simp add: read_payload_def floats_of_floats_bytes finite_data_def storable_def)
  show ?thesis
    using k healthy st p size take drop payload header_fields [OF id d refl, of offset "length data"]
    by (simp add: ckpt_read_def check_key_def storable_def opn)
qed

lemma read_absent:
  assumes "quiet k" and "c_healthy c" and "valid_key key" and "0 < n"
    and "n \<le> l_block_bytes (c_limits c) div 4" and "map_of es (block_name key) = None"
  shows "ckpt_read k es c key offset n = Inr None"
  using assms by (simp add: ckpt_read_def check_key_def open_read_def block_name_def)

text \<open>Whatever the kernel does, data that \<open>ckpt_read\<close> returns was checked against its digest.\<close>

lemma read_payload_sound:
  assumes "read_payload k c key name offset count h rest = Inr (Some data)"
  shows "data = floats_of_bytes count (take (4 * count) rest) \<and> 4 * count \<le> length rest
    \<and> list_all is_finite data \<and> block_digest (c_identity c) key offset data = Inr (field h 88 64)"
  using assms
  by (auto simp: read_payload_def finite_data_def Let_def dest!: transfer_in_sound
      split: option.splits sum.splits if_splits)

lemma read_sound:
  assumes "ckpt_read k es c key offset count = Inr (Some data)"
  shows "\<exists>i. map_of es (block_name key) = Some i \<and> plain_file i
    \<and> length (content i) = header_size + 4 * count \<and> field (content i) 0 8 = magic
    \<and> field (content i) 8 64 = c_identity c
    \<and> data = floats_of_bytes count (drop header_size (content i))
    \<and> list_all is_finite data \<and> length data = count \<and> c_healthy c \<and> valid_key key
    \<and> block_digest (c_identity c) key offset data = Inr (field (content i) 88 64)"
proof -
  from assms obtain i where opn: "open_read k es (key @ ''.block'') = Opened i"
    and healthy: "c_healthy c" and key: "valid_key key"
    by (auto simp: ckpt_read_def check_key_def Let_def split: if_splits sum.splits opened.splits)
  from opn have m: "map_of es (key @ ''.block'') = Some i"
    by (auto simp: open_read_def split: if_splits option.splits)
  from assms opn obtain h where p: "plain_file i"
    and size: "length (content i) = header_size + 4 * count"
    and h: "transfer_in (k_replies k (Sys_read (key @ ''.block'') 0)) header_size (content i) = Some h"
    and hf: "field h 0 8 = magic" "field h 8 64 = c_identity c"
    and pay: "read_payload k c key (key @ ''.block'') offset count h (drop header_size (content i))
        = Inr (Some data)"
    by (auto simp: ckpt_read_def Let_def split: if_splits sum.splits option.splits)
  have h': "h = take header_size (content i)" using transfer_in_sound [OF h] by simp
  have f: "field h p n = field (content i) p n" if "p + n \<le> header_size" for p n
    unfolding h' field_def using that by (simp add: drop_take min_def)
  from read_payload_sound [OF pay] size
  have "data = floats_of_bytes count (drop header_size (content i))"
    and "list_all is_finite data" and "block_digest (c_identity c) key offset data = Inr (field h 88 64)"
    by auto
  then show ?thesis
    using m p size hf healthy key f [of 0 8] f [of 8 64] f [of 88 64]
    by (simp add: block_name_def header_size_def)
qed

section \<open>Publication and crashes\<close>

text \<open>
  In every directory state a publication passes through, whatever fails, each name other than the
  staging name holds what it held before, or the complete new file under the published name.
\<close>

definition old_or_new :: "string \<Rightarrow> string \<Rightarrow> bytes \<Rightarrow> entries \<Rightarrow> entries \<Rightarrow> bool" where
  "old_or_new pending name whole es es' \<longleftrightarrow>
     (\<forall>n. n \<noteq> pending \<longrightarrow> map_of es' n = map_of es n
        \<or> n = name \<and> map_of es' n = Some (fresh_file whole))"

lemma old_or_new_put [simp]:
  "old_or_new p n w es (dir_put p i es') = old_or_new p n w es es'"
  by (auto simp: old_or_new_def)

lemma old_or_new_discard [simp]:
  "old_or_new p n w es (discard k p es') = old_or_new p n w es es'"
  by (auto simp: old_or_new_def discard_def)

lemma old_or_new_base: "old_or_new p n w (dir_put p i es) es' = old_or_new p n w es es'"
  by (auto simp: old_or_new_def)

lemma old_or_new_refl [simp]: "old_or_new p n w es es"
  by (simp add: old_or_new_def)

lemma last_map_put:
  "w \<noteq> [] \<Longrightarrow> last (map (\<lambda>v. dir_put p (fresh_file v) es) w) = dir_put p (fresh_file (last w)) es"
  by (simp add: last_map)

lemma publish_body_states:
  assumes "publish_body k es pending name head data = (t, r)" and "es' \<in> set t"
    and "pending \<noteq> name"
  shows "old_or_new pending name (head @ data) es es'"
proof -
  obtain w1 ok1 where w1: "transfer_out (k_replies k (Sys_write pending 0)) [] head = (w1, ok1)"
    by force
  obtain w2 ok2 where w2: "transfer_out (k_replies k (Sys_write pending 1)) head data = (w2, ok2)"
    by force
  have ne: "w1 \<noteq> []" "w2 \<noteq> []"
    using transfer_out_nonempty [of _ "[]" head] transfer_out_nonempty [of _ head data] w1 w2
    by (metis fst_conv)+
  have lst: "ok2 \<Longrightarrow> last w2 = head @ data"
    using transfer_out_last [of _ head data] w2 by (metis fst_conv snd_conv)
  let ?put = "\<lambda>v. dir_put pending (fresh_file v) es"
  have staged: "old_or_new pending name (head @ data) es (?put v)" for v by simp
  have renamed: "old_or_new pending name (head @ data) es (dir_rename pending name (?put (head @ data)))"
    using assms(3) by (simp add: old_or_new_def map_of_dir_rename)
  from assms(1,2) w1 w2 ne lst show ?thesis
    by (auto simp: publish_body_def Let_def last_map staged renamed split: if_splits)
qed

lemma publish_states:
  assumes "publish k es c name head data = (t, c', r)" and "es' \<in> set t"
  shows "old_or_new (name @ ''.pending'') name (head @ data) es es'"
proof (cases "k_fails k (Sys_create (name @ ''.pending'')) \<or> map_of es (name @ ''.pending'') \<noteq> None")
  case True
  with assms show ?thesis by (auto simp: publish_def Let_def)
next
  case False
  let ?es1 = "dir_put (name @ ''.pending'') (fresh_file []) es"
  obtain t1 r1 where body: "publish_body k ?es1 (name @ ''.pending'') name head data = (t1, r1)"
    by force
  with False assms(1) have "t = es # t1" by (auto simp: publish_def Let_def split: if_splits)
  with assms(2) consider "es' = es" | "es' \<in> set t1" by auto
  then show ?thesis
  proof cases
    case 2
    from publish_body_states [OF body this] show ?thesis by (simp add: old_or_new_base)
  qed simp
qed

text \<open>Success appends the complete file; failure is recorded in \<open>c_healthy\<close>.\<close>

lemma publish_body_append:
  assumes "publish_body k (es @ [(pending, i)]) pending name head data = (t, Inr ())"
    and "map_of es pending = None" and "map_of es name = None" and "pending \<noteq> name"
  shows "t \<noteq> [] \<and> last t = es @ [(name, fresh_file (head @ data))]"
proof -
  obtain w1 ok1 where w1: "transfer_out (k_replies k (Sys_write pending 0)) [] head = (w1, ok1)"
    by force
  obtain w2 ok2 where w2: "transfer_out (k_replies k (Sys_write pending 1)) head data = (w2, ok2)"
    by force
  have ne: "w2 \<noteq> []" using transfer_out_nonempty [of _ head data] w2 by (metis fst_conv)
  have lst: "ok2 \<Longrightarrow> last w2 = head @ data"
    using transfer_out_last [of _ head data] w2 by (metis fst_conv snd_conv)
  have put: "dir_put pending j (es @ [(pending, i)]) = es @ [(pending, j)]" for j
    using assms(2) by (induction es) (auto split: if_splits)
  have "dir_rename pending name (es @ [(pending, j)]) = es @ [(name, j)]" for j
    using assms(2-4) by (simp add: dir_rename_def dir_remove_append dir_remove_absent map_add_def)
      (simp add: dir_remove_def dir_put_new)
  then show ?thesis
    using assms(1) w1 w2 ne lst
    by (auto simp: publish_body_def Let_def last_map put split: if_splits)
qed

lemma publish_ok:
  assumes "publish k es c name head data = (t, c', Inr ())"
    and "map_of es name = None"
  shows "c' = c \<and> t \<noteq> [] \<and> last t = es @ [(name, fresh_file (head @ data))]"
proof -
  have p: "map_of es (name @ ''.pending'') = None" and "\<not> k_fails k (Sys_create (name @ ''.pending''))"
    using assms(1) by (auto simp: publish_def Let_def split: if_splits)
  obtain t1 r1 where body: "publish_body k (es @ [(name @ ''.pending'', fresh_file [])])
      (name @ ''.pending'') name head data = (t1, r1)" by force
  with p assms(1) have r: "r1 = Inr ()" "c' = c" "t = es # t1"
    by (auto simp: publish_def Let_def dir_put_new split: if_splits)
  have "t1 \<noteq> [] \<and> last t1 = es @ [(name, fresh_file (head @ data))]"
    by (rule publish_body_append) (use body r p assms(2) in auto)
  with r show ?thesis by simp
qed

lemma publish_calm:
  assumes "quiet k" and "map_of es (name @ ''.pending'') = None"
  shows "\<exists>t. publish k es c name head data = (t, c, Inr ())"
proof -
  have "snd (publish_body k es' p name head data) = Inr ()" for es' p
    using assms(1) quiet_out [OF assms(1)]
    by (auto simp: publish_body_def Let_def case_prod_beta)
  then show ?thesis
    using assms by (auto simp: publish_def Let_def case_prod_beta)
qed

lemma publish_failed:
  "publish k es c name head data = (t, c', Inl e) \<Longrightarrow> c' = c\<lparr>c_healthy := False\<rparr>"
  by (auto simp: publish_def Let_def split: if_splits prod.splits)

section \<open>Saving\<close>

lemma block_name_inj [simp]: "block_name k = block_name k' \<longleftrightarrow> k = k'"
  by (simp add: block_name_def)

lemma ends_with_block_name [simp]: "ends_with (block_name key) ''.block''"
  by (simp add: block_name_def)

lemma pending_not_block [simp]: "\<not> ends_with (n @ ''.pending'') ''.block''"
  by (simp add: ends_with_def)

lemma pending_ne_block [simp]:
  "n @ ''.pending'' \<noteq> block_name key" "block_name key \<noteq> n @ ''.pending''"
  by (metis ends_with_block_name pending_not_block)+

text \<open>The two ways a \<open>save\<close> can succeed.\<close>

lemma save_cases:
  assumes "ckpt_save k es c key offset data = (t, c', Inr ())"
  shows "storable c key data \<and> \<not> c_read_only c \<and> c_healthy c \<and>
    (ckpt_read k es c key offset (length data) = Inr (Some data) \<and> t = [es] \<and> c' = c
     \<or> (ckpt_read k es c key offset (length data) = Inr None \<and> map_of es (block_name key) = None
        \<and> (\<exists>d. block_digest (c_identity c) key offset data = Inr d
            \<and> c_blocks c < l_blocks (c_limits c)
            \<and> header_size + 4 * length data \<le> sub64 (l_total_bytes (c_limits c)) (c_bytes c)
            \<and> t \<noteq> []
            \<and> last t = es @ [(block_name key, fresh_file (block_content (c_identity c) offset data d))]
            \<and> c' = c\<lparr>c_blocks := c_blocks c + 1,
                      c_bytes := c_bytes c + (header_size + 4 * length data)\<rparr>)))"
proof -
  from assms have st: "storable c key data" and ro: "\<not> c_read_only c"
    by (auto simp: ckpt_save_def check_key_def storable_def finite_data_def split: if_splits sum.splits)
  have h: "c_healthy c"
    using assms by (auto simp: ckpt_save_def ckpt_read_def split: if_splits sum.splits)
  consider (same) "ckpt_read k es c key offset (length data) = Inr (Some data)" "t = [es]" "c' = c"
    | (new) "ckpt_read k es c key offset (length data) = Inr None"
        "save_new k es c key offset data = (t, c', Inr ())"
    using assms by (auto simp: ckpt_save_def split: if_splits sum.splits option.splits)
  then show ?thesis
  proof cases
    case same
    with st ro h show ?thesis by simp
  next
    case new
    have absent: "map_of es (block_name key) = None"
      using new(1) by (auto simp: ckpt_read_def read_payload_def open_read_def block_name_def Let_def
          split: if_splits sum.splits opened.splits option.splits)
    from new(2) obtain d c1 where d: "block_digest (c_identity c) key offset data = Inr d"
      and lim: "c_blocks c < l_blocks (c_limits c)"
        "header_size + 4 * length data \<le> sub64 (l_total_bytes (c_limits c)) (c_bytes c)"
      and pub: "publish k es c (block_name key) (make_header (c_identity c) offset (length data) d)
          (floats_bytes data) = (t, c1, Inr ())"
      and c': "c' = c1\<lparr>c_blocks := c_blocks c1 + 1,
          c_bytes := c_bytes c1 + (header_size + 4 * length data)\<rparr>"
      by (auto simp: save_new_def block_name_def Let_def split: if_splits sum.splits prod.splits)
    from publish_ok [OF pub absent] d lim c' new(1) absent st ro h show ?thesis
      by (auto simp: block_content_def)
  qed
qed

lemma save_committed:
  assumes save: "ckpt_save k es c key offset data = (t, c', Inr ())"
    and lim: "valid_limits (c_identity c) (c_limits c)"
  shows "t \<noteq> [] \<and> c_healthy c' \<and> c_identity c' = c_identity c \<and> c_limits c' = c_limits c
    \<and> storable c' key data \<and> (quiet k \<longrightarrow> ckpt_read k (last t) c' key offset (length data) = Inr (Some data))"
proof -
  note sc = save_cases [OF save]
  from sc consider (same) "ckpt_read k es c key offset (length data) = Inr (Some data)" "t = [es]" "c' = c"
    | (new) d where "block_digest (c_identity c) key offset data = Inr d" "t \<noteq> []"
        "map_of es (block_name key) = None"
        "last t = es @ [(block_name key, fresh_file (block_content (c_identity c) offset data d))]"
        "c' = c\<lparr>c_blocks := c_blocks c + 1, c_bytes := c_bytes c + (header_size + 4 * length data)\<rparr>"
    by blast
  then show ?thesis
  proof cases
    case same
    with sc show ?thesis by auto
  next
    case (new d)
    have com: "committed (last t) c' key offset data"
      unfolding committed_def using new by (simp add: map_add_def)
    have st: "storable c' key data" using sc new(5) by (simp add: storable_def)
    have "quiet k \<longrightarrow> ckpt_read k (last t) c' key offset (length data) = Inr (Some data)"
      using read_committed [OF _ _ _ st com] sc new(5) lim by auto
    with st sc new show ?thesis by simp
  qed
qed

text \<open>No save, however it ends, changes an entry other than the block it adds and its staging file.\<close>

lemma save_states:
  assumes "ckpt_save k es c key offset data = (t, c', r)" and "es' \<in> set t"
  shows "es' = es \<or> (\<exists>d. old_or_new (block_name key @ ''.pending'') (block_name key)
    (block_content (c_identity c) offset data d) es es'
    \<and> block_digest (c_identity c) key offset data = Inr d
    \<and> map_of es (block_name key) = None \<and> storable c key data
    \<and> c_blocks c < l_blocks (c_limits c)
    \<and> header_size + 4 * length data \<le> sub64 (l_total_bytes (c_limits c)) (c_bytes c))"
proof (cases "ckpt_read k es c key offset (length data) = Inr None \<and> storable c key data \<and> \<not> c_read_only c")
  case False
  with assms show ?thesis
    by (auto simp: ckpt_save_def check_key_def storable_def finite_data_def
        split: if_splits sum.splits option.splits)
next
  case True
  then have absent: "map_of es (block_name key) = None"
    by (auto simp: ckpt_read_def read_payload_def open_read_def block_name_def Let_def
        split: if_splits sum.splits opened.splits option.splits)
  from True assms(1) have new: "save_new k es c key offset data = (t, c', r)"
    by (auto simp: ckpt_save_def check_key_def storable_def finite_data_def split: if_splits)
  show ?thesis
  proof (cases "\<exists>d. block_digest (c_identity c) key offset data = Inr d
      \<and> c_blocks c < l_blocks (c_limits c)
      \<and> header_size + 4 * length data \<le> sub64 (l_total_bytes (c_limits c)) (c_bytes c)")
    case False
    with new assms(2) show ?thesis
      by (auto simp: save_new_def Let_def split: if_splits sum.splits)
  next
    case True
    then obtain d where d: "block_digest (c_identity c) key offset data = Inr d"
      and lim: "c_blocks c < l_blocks (c_limits c)"
        "header_size + 4 * length data \<le> sub64 (l_total_bytes (c_limits c)) (c_bytes c)" by blast
    then obtain c1 r1 where pub: "publish k es c (block_name key)
        (make_header (c_identity c) offset (length data) d) (floats_bytes data) = (t, c1, r1)"
      using new by (auto simp: save_new_def block_name_def Let_def split: if_splits sum.splits prod.splits)
    from publish_states [OF pub assms(2)] d lim absent
      \<open>ckpt_read k es c key offset (length data) = Inr None \<and> storable c key data \<and> \<not> c_read_only c\<close>
    show ?thesis by (auto simp: block_content_def)
  qed
qed

lemma save_frame [frame]:
  assumes "ckpt_save k es c key offset data = (t, c', r)" and "es' \<in> set t"
    and "n \<noteq> block_name key" and "n \<noteq> block_name key @ ''.pending''"
  shows "map_of es' n = map_of es n"
  using save_states [OF assms(1,2)] assms(3,4) by (auto simp: old_or_new_def)

lemma save_immutable:
  assumes "ckpt_save k es c key offset data = (t, c', r)" and "es' \<in> set t"
    and "map_of es (block_name key') = Some i"
  shows "map_of es' (block_name key') = Some i"
proof -
  have ne: "block_name key' \<noteq> block_name key @ ''.pending''"
    by (metis pending_ne_block)
  show ?thesis
  proof (cases "key' = key")
    case True
    with save_states [OF assms(1,2)] assms(3) show ?thesis by auto
  next
    case False
    with save_frame [OF assms(1,2) _ ne] assms(3) show ?thesis by simp
  qed
qed

section \<open>The directory invariant\<close>

text \<open>
  What the scan accepts: dot entries, the lock, the identity, and blocks within the size limit.
  While the object is healthy its counters agree with the directory and respect the limits.
\<close>

definition reserved :: "string \<Rightarrow> bool" where
  "reserved n \<longleftrightarrow> n \<in> {''.'', ''..'', ''.lock'', ''identity''}"

definition block_entry_ok :: "limits \<Rightarrow> string \<Rightarrow> inode \<Rightarrow> bool" where
  "block_entry_ok l n i \<longleftrightarrow> ends_with n ''.block'' \<and> valid_key (strip_end 6 n) \<and> plain_file i
     \<and> header_size + 4 \<le> length (content i) \<and> length (content i) \<le> header_size + l_block_bytes l"

definition blocks_of :: "entries \<Rightarrow> entries" where
  "blocks_of es = filter (\<lambda>(n, _). ends_with n ''.block'') es"

definition total_size :: "entries \<Rightarrow> nat" where
  "total_size es = (\<Sum>(n, i) \<leftarrow> es. length (content i))"

definition dir_ok :: "string \<Rightarrow> limits \<Rightarrow> entries \<Rightarrow> bool" where
  "dir_ok identity l es \<longleftrightarrow> distinct (map fst es)
     \<and> (\<forall>(n, i) \<in> set es. reserved n \<or> block_entry_ok l n i)
     \<and> (\<exists>i. map_of es ''identity'' = Some i \<and> plain_file i \<and> content i = manifest identity)
     \<and> (\<exists>i. map_of es ''.lock'' = Some i \<and> plain_file i)
     \<and> length (blocks_of es) \<le> l_blocks l \<and> total_size (blocks_of es) \<le> l_total_bytes l"

definition ckpt_inv :: "ckpt \<Rightarrow> entries \<Rightarrow> bool" where
  "ckpt_inv c es \<longleftrightarrow> valid_limits (c_identity c) (c_limits c)
     \<and> (c_healthy c \<longrightarrow> dir_ok (c_identity c) (c_limits c) es
          \<and> c_blocks c = length (blocks_of es) \<and> c_bytes c = total_size (blocks_of es))"

lemma blocks_of_append [simp]: "blocks_of (es @ fs) = blocks_of es @ blocks_of fs"
  by (simp add: blocks_of_def)

lemma total_size_append [simp]: "total_size (es @ fs) = total_size es + total_size fs"
  by (simp add: total_size_def)

lemma total_size_simps [simp]:
  "total_size [] = 0" "total_size ((n, i) # es) = length (content i) + total_size es"
  by (simp_all add: total_size_def)

lemma reserved_not_block [simp]: "reserved n \<Longrightarrow> \<not> ends_with n ''.block''"
  by (auto simp: reserved_def ends_with_def)

lemma reserved_not_pending [simp]: "\<not> reserved (n @ ''.pending'')"
proof
  assume "reserved (n @ ''.pending'')"
  then have "length (n @ ''.pending'') \<le> 8 \<and> last (n @ ''.pending'') \<noteq> CHR ''g''"
    by (auto simp: reserved_def)
  then show False by simp
qed

lemma block_name_not_reserved [simp]: "\<not> reserved (block_name key)"
  using reserved_not_block by fastforce

lemma block_name_ne [simp]:
  "block_name key \<noteq> ''identity''" "block_name key \<noteq> ''.lock''"
  "''identity'' \<noteq> block_name key" "''.lock'' \<noteq> block_name key"
  using block_name_not_reserved [of key] by (auto simp: reserved_def simp del: block_name_not_reserved)

lemma blocks_of_new_block [simp]: "blocks_of [(block_name key, i)] = [(block_name key, i)]"
  by (simp add: blocks_of_def)

lemma strip_block_name [simp]: "strip_end 6 (block_name key) = key"
  by (simp add: block_name_def strip_end_def)

lemma dir_ok_no_pending:
  assumes "dir_ok identity l es"
  shows "map_of es (block_name key @ ''.pending'') = None"
proof (rule ccontr)
  assume "map_of es (block_name key @ ''.pending'') \<noteq> None"
  then obtain i where "(block_name key @ ''.pending'', i) \<in> set es" by (auto dest: map_of_SomeD)
  with assms have "reserved (block_name key @ ''.pending'')
      \<or> block_entry_ok l (block_name key @ ''.pending'') i"
    by (auto simp: dir_ok_def)
  then show False by (auto simp: block_entry_ok_def)
qed

lemma length_block_content:
  assumes "valid_limits (c_identity c) (c_limits c)" and "storable c key data"
    and "block_digest (c_identity c) key offset data = Inr d"
  shows "length (block_content (c_identity c) offset data d) = header_size + 4 * length data"
  using digest_valid [OF limits_facts(1) [OF assms(1)] _ _ assms(3)] storable_small [OF assms(1,2)]
    limits_facts(1) [OF assms(1)] assms(2)
  by (simp add: block_content_def storable_def)

text \<open>The directory after a complete block has been added.\<close>

lemma dir_ok_add_block:
  assumes inv: "ckpt_inv c es" and h: "c_healthy c" and st: "storable c key data"
    and d: "block_digest (c_identity c) key offset data = Inr d"
    and absent: "map_of es (block_name key) = None"
    and room: "c_blocks c < l_blocks (c_limits c)"
      "header_size + 4 * length data \<le> sub64 (l_total_bytes (c_limits c)) (c_bytes c)"
  shows "dir_ok (c_identity c) (c_limits c)
    (es @ [(block_name key, fresh_file (block_content (c_identity c) offset data d))])"
proof -
  let ?i = "fresh_file (block_content (c_identity c) offset data d)"
  from inv h have lim: "valid_limits (c_identity c) (c_limits c)"
    and ok: "dir_ok (c_identity c) (c_limits c) es"
    and cnt: "c_blocks c = length (blocks_of es)" "c_bytes c = total_size (blocks_of es)"
    by (simp_all add: ckpt_inv_def)
  have size: "length (content ?i) = header_size + 4 * length data"
    using length_block_content [OF lim st d] by simp
  have "c_bytes c \<le> l_total_bytes (c_limits c)" using ok cnt by (simp add: dir_ok_def)
  then have "header_size + 4 * length data \<le> l_total_bytes (c_limits c) - c_bytes c"
    using room(2) limits_facts(3) [OF lim] by simp
  moreover have "block_entry_ok (c_limits c) (block_name key) ?i"
    using st size by (simp add: block_entry_ok_def storable_def Suc_le_eq) linarith
  moreover have "block_name key \<notin> fst ` set es"
    using absent by (simp add: map_of_eq_None_iff)
  ultimately show ?thesis
    using ok room(1) cnt size \<open>c_bytes c \<le> _\<close>
    by (auto simp: dir_ok_def map_add_def split: option.splits)
qed

theorem save_inv:
  assumes inv: "ckpt_inv c es" and save: "ckpt_save k es c key offset data = (t, c', r)"
  shows "ckpt_inv c' (last t)"
proof (cases r)
  case (Inr u)
  with save have s: "ckpt_save k es c key offset data = (t, c', Inr ())" by simp
  from inv have lim: "valid_limits (c_identity c) (c_limits c)" by (simp add: ckpt_inv_def)
  from save_cases [OF s] consider "t = [es]" "c' = c"
    | d where "c_healthy c" "storable c key data" "block_digest (c_identity c) key offset data = Inr d"
        "map_of es (block_name key) = None" "c_blocks c < l_blocks (c_limits c)"
        "header_size + 4 * length data \<le> sub64 (l_total_bytes (c_limits c)) (c_bytes c)"
        "last t = es @ [(block_name key, fresh_file (block_content (c_identity c) offset data d))]"
        "c' = c\<lparr>c_blocks := c_blocks c + 1, c_bytes := c_bytes c + (header_size + 4 * length data)\<rparr>"
    by blast
  then show ?thesis
  proof cases
    case 1
    with inv show ?thesis by simp
  next
    case (2 d)
    with dir_ok_add_block [OF inv 2(1-6)] inv length_block_content [OF lim 2(2,3)]
    show ?thesis by (simp add: ckpt_inv_def)
  qed
next
  case (Inl e)
  have "c' = c \<and> t = [es] \<or> c' = c\<lparr>c_healthy := False\<rparr>"
    using save Inl by (auto simp: ckpt_save_def save_new_def Let_def dest: publish_failed
        split: if_splits sum.splits option.splits prod.splits)
  with inv show ?thesis by (auto simp: ckpt_inv_def)
qed

section \<open>Scanning a directory\<close>

text \<open>
  The scan of a resumed or inspected directory: which entries it accepts, what it counts, what it
  removes.  \<open>stale\<close> is an unfinished publication of a block.
\<close>

definition stale :: "string \<Rightarrow> bool" where
  "stale n \<longleftrightarrow> ends_with n ''.block.pending'' \<and> valid_key (strip_end 14 n)"

definition scannable :: "limits \<Rightarrow> string \<times> inode \<Rightarrow> bool" where
  "scannable l e \<longleftrightarrow> reserved (fst e) \<and> (fst e = ''identity'' \<longrightarrow> plain_file (snd e))
     \<or> stale (fst e) \<and> plain_file (snd e) \<or> block_entry_ok l (fst e) (snd e)"

definition live :: "entries \<Rightarrow> entries" where
  "live es = filter (\<lambda>(n, _). \<not> stale n) es"

lemma stale_shape:
  assumes "stale n"
  shows "n = block_name (strip_end 14 n) @ ''.pending''"
proof -
  have "length ''.block.pending'' = 14" by simp
  then have "strip_end 14 n @ ''.block.pending'' = n"
    using assms by (metis ends_with_strip stale_def)
  then show ?thesis by (simp add: block_name_def)
qed

lemma stale_not_block [simp]: "ends_with n ''.block'' \<Longrightarrow> \<not> stale n"
  by (metis pending_not_block stale_shape)

lemma stale_not_reserved [simp]: "stale n \<Longrightarrow> \<not> reserved n"
  by (metis reserved_not_pending stale_shape)

lemma stale_not_named [simp]:
  "\<not> stale ''.''" "\<not> stale ''..''" "\<not> stale ''.lock''" "\<not> stale ''identity''"
  by (auto simp: reserved_def dest: stale_not_reserved)

lemma stale_staging: "valid_key key \<Longrightarrow> stale (block_name key @ ''.pending'')"
  by (simp add: stale_def block_name_def ends_with_def strip_end_def)

lemma scan_entry_sound:
  assumes "scan_entry k m False l n i st = (st', Inr ())" and "m \<noteq> Create"
  shows "scannable l (n, i)
    \<and> sc_blocks st' = sc_blocks st + length (blocks_of [(n, i)])
    \<and> sc_bytes st' = sc_bytes st + total_size (blocks_of [(n, i)])
    \<and> sc_entries st' = (if stale n \<and> m \<noteq> ReadOnly then dir_remove n (sc_entries st) else sc_entries st)
    \<and> (ends_with n ''.block'' \<longrightarrow> sc_blocks st' \<le> l_blocks l
        \<and> length (content i) \<le> sub64 (l_total_bytes l) (sc_bytes st))"
  using assms
  by (auto simp: scan_entry_def Let_def scannable_def block_entry_ok_def blocks_of_def
      stale_def [symmetric] reserved_def split: if_splits)

lemma scan_dir_sound:
  assumes "scan_dir k m False l es st = (st', Inr ())" and "m \<noteq> Create"
    and "sc_blocks st \<le> l_blocks l" and "sc_bytes st \<le> l_total_bytes l" and "l_total_bytes l < 2 ^ 64"
  shows "list_all (scannable l) es
    \<and> sc_blocks st' = sc_blocks st + length (blocks_of es)
    \<and> sc_bytes st' = sc_bytes st + total_size (blocks_of es)
    \<and> sc_blocks st' \<le> l_blocks l \<and> sc_bytes st' \<le> l_total_bytes l
    \<and> sc_entries st' = (if m = ReadOnly then sc_entries st
         else filter (\<lambda>(n, _). \<not> (stale n \<and> n \<in> fst ` set es)) (sc_entries st))"
  using assms(1,3,4)
proof (induction es arbitrary: st)
  case Nil
  then show ?case by (auto simp: blocks_of_def split: if_splits)
next
  case (Cons e es)
  obtain n i where e: "e = (n, i)" by force
  from Cons.prems(1) obtain st1 where one: "scan_entry k m False l n i st = (st1, Inr ())"
    and rest: "scan_dir k m False l es st1 = (st', Inr ())"
    by (auto simp: e split: prod.splits sum.splits)
  note s1 = scan_entry_sound [OF one assms(2)]
  have le: "sc_blocks st1 \<le> l_blocks l" "sc_bytes st1 \<le> l_total_bytes l"
    using s1 Cons.prems(2,3) assms(5) by (auto simp: blocks_of_def split: if_splits)
  note ih = Cons.IH [OF rest le]
  have "blocks_of (e # es) = blocks_of [(n, i)] @ blocks_of es"
    by (simp add: e blocks_of_def)
  with s1 ih show ?case
    by (auto simp: e dir_remove_def intro!: filter_cong)
qed

text \<open>Conversely, a directory with acceptable entries and room scans without an error.\<close>

lemma scan_entry_complete:
  assumes "quiet k" and "scannable l (n, i)" and "m \<noteq> Create"
    and "sc_scanned st < 8194"
    and "ends_with n ''.block'' \<Longrightarrow> sc_blocks st < l_blocks l
      \<and> length (content i) \<le> sub64 (l_total_bytes l) (sc_bytes st)"
  shows "\<exists>st'. scan_entry k m False l n i st = (st', Inr ()) \<and> sc_scanned st' \<le> sc_scanned st + 1"
  using assms
  by (auto simp: scan_entry_def Let_def scannable_def block_entry_ok_def reserved_def stale_def)

lemma scan_dir_complete:
  assumes k: "quiet k" and m: "m \<noteq> Create" and tot: "l_total_bytes l < 2 ^ 64"
  shows "list_all (scannable l) es \<Longrightarrow> sc_scanned st + length es \<le> 8194
    \<Longrightarrow> sc_blocks st + length (blocks_of es) \<le> l_blocks l
    \<Longrightarrow> sc_bytes st + total_size (blocks_of es) \<le> l_total_bytes l
    \<Longrightarrow> \<exists>st'. scan_dir k m False l es st = (st', Inr ())"
proof (induction es arbitrary: st)
  case Nil
  with k show ?case by simp
next
  case (Cons e es)
  obtain n i where e: "e = (n, i)" by force
  have split: "blocks_of (e # es) = blocks_of [(n, i)] @ blocks_of es"
    by (simp add: e blocks_of_def)
  have "\<exists>st'. scan_entry k m False l n i st = (st', Inr ()) \<and> sc_scanned st' \<le> sc_scanned st + 1"
    by (rule scan_entry_complete [OF k _ m])
       (use Cons.prems tot in \<open>auto simp: e blocks_of_def\<close>)
  then obtain st1 where st1: "scan_entry k m False l n i st = (st1, Inr ())"
    "sc_scanned st1 \<le> sc_scanned st + 1" by blast
  with scan_entry_sound [OF st1(1) m] Cons.prems Cons.IH [of st1] split show ?case
    by (simp add: e)
qed

section \<open>Opening\<close>

lemma scan_init_sound:
  assumes "scan_dir k m True l es st = (st', Inr ())"
  shows "(\<forall>(n, i) \<in> set es. n \<in> {''.'', ''..'', ''.lock''}
      \<or> m \<noteq> Create \<and> n \<in> {''identity'', ''identity.pending''})
    \<and> sc_blocks st' = sc_blocks st \<and> sc_bytes st' = sc_bytes st \<and> sc_entries st' = sc_entries st"
  using assms
proof (induction es arbitrary: st)
  case Nil
  then show ?case by (auto split: if_splits)
next
  case (Cons e es)
  obtain n i where e: "e = (n, i)" by force
  from Cons.prems obtain st1 where one: "scan_entry k m True l n i st = (st1, Inr ())"
    and rest: "scan_dir k m True l es st1 = (st', Inr ())"
    by (auto simp: e split: prod.splits sum.splits)
  from one have "n \<in> {''.'', ''..'', ''.lock''} \<or> m \<noteq> Create \<and> n \<in> {''identity'', ''identity.pending''}"
    and "sc_blocks st1 = sc_blocks st \<and> sc_bytes st1 = sc_bytes st \<and> sc_entries st1 = sc_entries st"
    by (auto simp: scan_entry_def Let_def split: if_splits)
  with Cons.IH [OF rest] show ?case by (auto simp: e)
qed

lemma check_identity_sound:
  assumes "check_identity k es m identity = Inr b"
  shows "if b then m = Create \<or> m = Resume \<and> map_of es ''identity'' = None
    else m \<noteq> Create \<and> (\<exists>i. map_of es ''identity'' = Some i \<and> plain_file i \<and> content i = manifest identity)"
proof (cases "m = Create")
  case True
  with assms show ?thesis by (simp add: check_identity_def)
next
  case False
  note unf = assms [unfolded check_identity_def if_not_P [OF False]]
  show ?thesis
  proof (cases "open_read k es ''identity''")
    case Absent
    with unf False have "b \<and> m = Resume" by (cases m) auto
    moreover have "map_of es ''identity'' = None"
      using Absent by (auto simp: open_read_def split: if_splits option.splits)
    ultimately show ?thesis by simp
  next
    case Unreadable
    with unf show ?thesis by simp
  next
    case (Opened i)
    then have m: "map_of es ''identity'' = Some i"
      by (auto simp: open_read_def split: if_splits option.splits)
    from unf Opened have p: "plain_file i" and l: "length (content i) = length (manifest identity)"
      and t: "transfer_in (k_replies k (Sys_read ''identity'' 0)) (length (manifest identity)) (content i)
          = Some (manifest identity)" and b: "\<not> b"
      by (auto split: if_splits option.splits)
    from transfer_in_sound [OF t] l have "content i = manifest identity" by simp
    with m p b False show ?thesis by simp
  qed
qed

lemma map_of_live: "distinct (map fst es) \<Longrightarrow> \<not> stale n \<Longrightarrow> map_of (live es) n = map_of es n"
  by (induction es) (auto simp: live_def)

lemma blocks_of_live [simp]: "blocks_of (live es) = blocks_of es"
  by (induction es) (auto simp: blocks_of_def live_def)

lemma live_eq_filter [simp]:
  "filter (\<lambda>(n, _). stale n \<longrightarrow> n \<notin> fst ` set es) es = live es"
  unfolding live_def by (rule filter_cong) force+

lemma dir_ok_live:
  assumes "distinct (map fst es)" and "list_all (scannable l) es"
    and "map_of es ''identity'' = Some i" "plain_file i" "content i = manifest identity"
    and "map_of es ''.lock'' = Some j" "plain_file j"
    and "length (blocks_of es) \<le> l_blocks l" "total_size (blocks_of es) \<le> l_total_bytes l"
  shows "dir_ok identity l (live es)"
proof -
  have "distinct (map fst (live es))"
    using assms(1) by (simp add: live_def distinct_map_filter)
  moreover have "\<forall>(n, i) \<in> set (live es). reserved n \<or> block_entry_ok l n i"
    using assms(2) by (auto simp: live_def list_all_iff scannable_def)
  ultimately show ?thesis
    using assms by (simp add: dir_ok_def map_of_live)
qed

lemma dir_ok_fresh:
  assumes "distinct (map fst es)" and "map_of es ''.lock'' = Some j" "plain_file j"
    and only: "\<forall>(n, i) \<in> set es. n \<in> {''.'', ''..'', ''.lock''}"
  shows "dir_ok identity l (es @ [(''identity'', fresh_file (manifest identity))])
    \<and> blocks_of (es @ [(''identity'', fresh_file (manifest identity))]) = []"
proof -
  have "blocks_of es = []"
    using only by (auto simp: blocks_of_def filter_empty_conv ends_with_def)
  moreover have "''identity'' \<notin> fst ` set es" using only by auto
  then have "map_of es ''identity'' = None" by (simp add: map_of_eq_None_iff)
  moreover have "blocks_of [(''identity'', fresh_file (manifest identity))] = []"
    by (simp add: blocks_of_def ends_with_def)
  ultimately show ?thesis
    using assms \<open>''identity'' \<notin> _\<close> by (auto simp: dir_ok_def map_add_def reserved_def split: option.splits)
qed

definition fresh_scan :: "entries \<Rightarrow> scan" where
  "fresh_scan es = \<lparr>sc_scanned = 0, sc_blocks = 0, sc_bytes = 0, sc_entries = es\<rparr>"

definition opened_as :: "string \<Rightarrow> limits \<Rightarrow> mode \<Rightarrow> entries \<Rightarrow> entries \<Rightarrow> ckpt \<Rightarrow> bool" where
  "opened_as identity l m es es' c \<longleftrightarrow> c_healthy c \<and> c_identity c = identity \<and> c_limits c = l
     \<and> c_read_only c = (m = ReadOnly) \<and> c_hits c = 0
     \<and> dir_ok identity l es' \<and> c_blocks c = length (blocks_of es') \<and> c_bytes c = total_size (blocks_of es')
     \<and> (\<forall>key. map_of es' (block_name key) = map_of es (block_name key))"

lemma open_existing:
  assumes chk: "check_identity k es m identity = Inr False"
    and op: "open_locked k es identity m l = (t, Inr c)" and m: "m \<noteq> ReadOnly"
    and lim: "valid_limits identity l" and dist: "distinct (map fst es)"
    and lock: "map_of es ''.lock'' = Some j" "plain_file j"
  shows "last t = live es \<and> opened_as identity l m es (last t) c"
proof -
  from check_identity_sound [OF chk] obtain i where mc: "m \<noteq> Create"
    and idf: "map_of es ''identity'' = Some i" "plain_file i" "content i = manifest identity" by auto
  from op chk obtain st where sc: "scan_dir k m False l es (fresh_scan es) = (st, Inr ())"
    and c: "c = \<lparr>c_identity = identity, c_limits = l, c_bytes = sc_bytes st, c_hits = 0,
        c_blocks = sc_blocks st, c_healthy = True, c_read_only = False\<rparr>"
    and t: "last t = sc_entries st"
    using m by (auto simp: open_locked_def init_identity_def fresh_scan_def
        split: prod.splits sum.splits if_splits)
  have "l_total_bytes l < 2 ^ 64" using limits_facts(3) [OF lim] by simp
  from scan_dir_sound [OF sc mc _ _ this] m
  have s: "list_all (scannable l) es" "sc_blocks st = length (blocks_of es)"
    "sc_bytes st = total_size (blocks_of es)" "sc_blocks st \<le> l_blocks l"
    "sc_bytes st \<le> l_total_bytes l" "sc_entries st = live es"
    by (simp_all add: fresh_scan_def)
  have "dir_ok identity l (live es)"
    by (rule dir_ok_live [OF dist s(1) idf lock]) (use s in simp_all)
  then show ?thesis
    using s t c m map_of_live [OF dist] by (auto simp: opened_as_def)
qed

lemma open_fresh:
  assumes chk: "check_identity k es m identity = Inr True"
    and op: "open_locked k es identity m l = (t, Inr c)"
    and lim: "valid_limits identity l" and dist: "distinct (map fst es)"
    and lock: "map_of es ''.lock'' = Some j" "plain_file j"
  shows "opened_as identity l m es (last t) c"
proof -
  from check_identity_sound [OF chk] have m: "m = Create \<or> m = Resume \<and> map_of es ''identity'' = None"
    by simp
  let ?es = "if m = Resume then dir_remove ''identity.pending'' es else es"
  let ?c = "\<lambda>st. \<lparr>c_identity = identity, c_limits = l, c_bytes = sc_bytes st, c_hits = 0,
      c_blocks = sc_blocks st, c_healthy = True, c_read_only = (m = ReadOnly)\<rparr>"
  from op chk obtain st t1 c1 where sc: "scan_dir k m True l es (fresh_scan es) = (st, Inr ())"
    and ini: "init_identity k m True (sc_entries st) (?c st) = (t1, c1, Inr ())"
    and t: "t = es # t1" "c = c1"
    by (auto simp: open_locked_def fresh_scan_def split: prod.splits sum.splits if_splits)
  from scan_init_sound [OF sc]
  have only: "\<forall>(n, i) \<in> set es. n \<in> {''.'', ''..'', ''.lock''}
      \<or> m \<noteq> Create \<and> n \<in> {''identity'', ''identity.pending''}"
    and s: "sc_blocks st = 0" "sc_bytes st = 0" "sc_entries st = es"
    by (simp_all add: fresh_scan_def)
  have no_id: "''identity'' \<notin> fst ` set es"
    using m only by (auto simp: map_of_eq_None_iff)
  from ini s obtain t2 where pub: "publish k ?es (?c st) ''identity'' (manifest identity) [] = (t2, c1, Inr ())"
    and t1: "t1 = es # t2"
    by (auto simp: init_identity_def Let_def split: prod.splits if_splits)
  have none: "map_of ?es ''identity'' = None"
    using no_id by (auto simp: map_of_eq_None_iff dir_remove_def)
  note ok = publish_ok [OF pub none]
  have only': "\<forall>(n, i) \<in> set ?es. n \<in> {''.'', ''..'', ''.lock''}"
    using only no_id m by (auto simp: dir_remove_def rev_image_eqI)
  have "distinct (map fst ?es)" and "map_of ?es ''.lock'' = Some j"
    using dist lock by (simp_all del: map_of_eq_Some_iff)
  from dir_ok_fresh [OF this lock(2) only', of identity l]
  have dok: "dir_ok identity l (last t)" "blocks_of (last t) = []"
    using ok t t1 by simp_all
  have "map_of es (block_name key) = None" for key
    using only by (auto simp: map_of_eq_None_iff block_name_def ends_with_def dest: arg_cong [of _ _ last])
  moreover have "map_of (last t) (block_name key) = None" for key
    using dok(2) by (force simp: map_of_eq_None_iff blocks_of_def filter_empty_conv)
  ultimately show ?thesis
    using ok t t1 s dok m by (auto simp: opened_as_def)
qed

lemma open_inv:
  assumes op: "open_checkpoint k so identity m l = (so', Inr c)" and m: "m \<noteq> ReadOnly"
    and dist: "\<And>s. so = Some s \<Longrightarrow> distinct (map fst (st_entries s))"
  shows "\<exists>s'. so' = Some s' \<and> st_exclusive s'
    \<and> opened_as identity l m (case so of None \<Rightarrow> [] | Some s \<Rightarrow> st_entries s) (st_entries s') c
    \<and> ckpt_inv c (st_entries s')"
proof -
  define s where "s = (case so of None \<Rightarrow> empty_store | Some s \<Rightarrow> s)"
  from op obtain es t where lim: "valid_limits identity l"
    and lk: "open_lock k (st_entries s) m = (es, True)"
    and ol: "open_locked k es identity m l = (t, Inr c)"
    and so': "so' = Some (take_lock (s\<lparr>st_entries := last t\<rparr>) m)"
    by (auto simp: open_checkpoint_def Let_def s_def split: if_splits option.splits prod.splits sum.splits)
  have d: "distinct (map fst (st_entries s))"
    using dist by (auto simp: s_def empty_store_def split: option.splits)
  from lk d have des: "distinct (map fst es)"
    and "\<exists>j. map_of es ''.lock'' = Some j \<and> plain_file j"
    and same: "\<And>key. map_of es (block_name key) = map_of (st_entries s) (block_name key)"
    by (auto simp: open_lock_def simp del: map_of_eq_None_iff split: if_splits option.splits)
  then obtain j where lock: "map_of es ''.lock'' = Some j" "plain_file j" by blast
  from ol obtain b where chk: "check_identity k es m identity = Inr b"
    by (auto simp: open_locked_def split: sum.splits)
  have "opened_as identity l m es (last t) c"
  proof (cases b)
    case True
    with open_fresh [OF _ ol lim des lock] chk show ?thesis by simp
  next
    case False
    with chk have "check_identity k es m identity = Inr False" by simp
    from open_existing [OF this ol m lim des lock] show ?thesis by blast
  qed
  then show ?thesis
    using so' m same lim
    by (auto simp: opened_as_def take_lock_def ckpt_inv_def s_def empty_store_def split: option.splits)
qed

section \<open>Crash recovery\<close>

text \<open>
  A directory a healthy owner may leave behind: its own invariant's directory, possibly with one
  staging file or one complete block added.  It can be reopened with \<^verbatim>\<open>Resume\<close>.
\<close>

lemma dir_ok_scannable:
  assumes "dir_ok identity l es"
  shows "list_all (scannable l) es"
  unfolding list_all_iff
proof
  fix e assume e: "e \<in> set es"
  obtain n i where ni: "e = (n, i)" by force
  from assms have dist: "distinct (map fst es)"
    and all: "\<forall>(n, i) \<in> set es. reserved n \<or> block_entry_ok l n i"
    and idf: "\<exists>i. map_of es ''identity'' = Some i \<and> plain_file i"
    unfolding dir_ok_def by blast+
  have "map_of es n = Some i" using dist e ni by (simp add: map_of_is_SomeI)
  then have "n = ''identity'' \<Longrightarrow> plain_file i"
    using idf by (metis option.inject)
  moreover have "reserved n \<or> block_entry_ok l n i" using all e ni by blast
  ultimately show "scannable l e" by (auto simp: scannable_def ni)
qed

lemma length_dir_ok:
  assumes "dir_ok identity l es"
  shows "length es \<le> length (blocks_of es) + 4"
proof -
  let ?r = "filter (\<lambda>e. reserved (fst e)) es"
  have "length es = length (filter (\<lambda>e. ends_with (fst e) ''.block'') es)
      + length (filter (\<lambda>e. \<not> ends_with (fst e) ''.block'') es)"
    by (rule sum_length_filter_compl [symmetric])
  also have "filter (\<lambda>e. \<not> ends_with (fst e) ''.block'') es = ?r"
    by (rule filter_cong) (use assms in \<open>auto simp: dir_ok_def block_entry_ok_def\<close>)
  also have "length ?r \<le> 4"
  proof -
    have "distinct (map fst ?r)" using assms by (simp add: dir_ok_def distinct_map_filter)
    then have "length ?r = card (set (map fst ?r))" using distinct_card by fastforce
    also have "\<dots> \<le> card (set [''.'', ''..'', ''.lock'', ''identity''])"
      by (rule card_mono) (auto simp: reserved_def)
    also have "\<dots> \<le> length [''.'', ''..'', ''.lock'', ''identity'']" by (rule card_length)
    finally show ?thesis by simp
  qed
  finally show ?thesis by (simp add: blocks_of_def case_prod_unfold)
qed

lemma open_resume_ok:
  assumes k: "quiet k" and lim: "valid_limits identity l"
    and sc: "list_all (scannable l) es" and n: "length es \<le> 8194"
    and room: "length (blocks_of es) \<le> l_blocks l" "total_size (blocks_of es) \<le> l_total_bytes l"
    and idf: "map_of es ''identity'' = Some i" "plain_file i" "content i = manifest identity"
  shows "\<exists>t c. open_locked k es identity Resume l = (t, Inr c)"
proof -
  have "kind i \<noteq> Symlink" using idf(2) by (simp add: plain_file_def)
  then have chk: "check_identity k es Resume identity = Inr False"
    using k idf by (simp add: check_identity_def open_read_def)
  have tot: "l_total_bytes l < 2 ^ 64" using limits_facts(3) [OF lim] by simp
  have "\<exists>st. scan_dir k Resume False l es (fresh_scan es) = (st, Inr ())"
    by (rule scan_dir_complete [OF k _ tot sc]) (use n room in \<open>simp_all add: fresh_scan_def\<close>)
  then show ?thesis
    using chk k by (auto simp: open_locked_def init_identity_def fresh_scan_def)
qed

definition crashed :: "entries \<Rightarrow> store" where
  "crashed es = \<lparr>st_entries = es, st_exclusive = False, st_sharers = 0\<rparr>"

lemma recover:
  assumes k: "quiet k" and lim: "valid_limits identity l" and dist: "distinct (map fst es)"
    and sc: "list_all (scannable l) es" and n: "length es \<le> 8194"
    and room: "length (blocks_of es) \<le> l_blocks l" "total_size (blocks_of es) \<le> l_total_bytes l"
    and idf: "map_of es ''identity'' = Some i" "plain_file i" "content i = manifest identity"
    and lock: "map_of es ''.lock'' = Some j" "plain_file j"
  shows "\<exists>s' c. open_checkpoint k (Some (crashed es)) identity Resume l = (Some s', Inr c)
    \<and> ckpt_inv c (st_entries s') \<and> c_healthy c \<and> c_identity c = identity \<and> c_limits c = l
    \<and> (\<forall>key. map_of (st_entries s') (block_name key) = map_of es (block_name key))"
proof -
  obtain t c where "open_locked k es identity Resume l = (t, Inr c)"
    using open_resume_ok [OF k lim sc n room idf] by blast
  then have op: "open_checkpoint k (Some (crashed es)) identity Resume l
      = (Some (take_lock (crashed (last t)) Resume), Inr c)"
    using k lim lock by (simp add: open_checkpoint_def open_lock_def lock_free_def crashed_def)
  from open_inv [OF op] dist show ?thesis
    using op by (auto simp: crashed_def opened_as_def)
qed

text \<open>The shape of the directory at every point of a publication into a directory without the names.\<close>

definition publication_state :: "string \<Rightarrow> bytes \<Rightarrow> entries \<Rightarrow> entries \<Rightarrow> bool" where
  "publication_state name whole es es' \<longleftrightarrow> es' = es
     \<or> (\<exists>v. es' = es @ [(name @ ''.pending'', fresh_file v)])
     \<or> es' = es @ [(name, fresh_file whole)]"

lemma publish_body_shape:
  assumes "publish_body k (es @ [(pending, i)]) pending name head data = (t, r)" and "es' \<in> set t"
    and "map_of es pending = None" and "map_of es name = None" and "pending \<noteq> name"
  shows "es' = es \<or> (\<exists>v. es' = es @ [(pending, fresh_file v)]) \<or> es' = es @ [(name, fresh_file (head @ data))]"
proof -
  obtain w1 ok1 where w1: "transfer_out (k_replies k (Sys_write pending 0)) [] head = (w1, ok1)"
    by force
  obtain w2 ok2 where w2: "transfer_out (k_replies k (Sys_write pending 1)) head data = (w2, ok2)"
    by force
  have ne: "w1 \<noteq> []" "w2 \<noteq> []"
    using transfer_out_nonempty [of _ "[]" head] transfer_out_nonempty [of _ head data] w1 w2
    by (metis fst_conv)+
  have lst: "ok2 \<Longrightarrow> last w2 = head @ data"
    using transfer_out_last [of _ head data] w2 by (metis fst_conv snd_conv)
  have put: "dir_put pending j (es @ [(pending, i)]) = es @ [(pending, j)]" for j
    using assms(3) by (induction es) (auto split: if_splits)
  have drop: "dir_remove pending (es @ [(pending, j)]) = es" for j
    using assms(3) by (simp add: dir_remove_append dir_remove_absent) (simp add: dir_remove_def)
  have ren: "dir_rename pending name (es @ [(pending, j)]) = es @ [(name, j)]" for j
    using assms(3-5) by (simp add: dir_rename_def drop map_add_def dir_put_new)
  from assms(1,2) w1 w2 ne lst show ?thesis
    by (auto simp: publish_body_def discard_def Let_def last_map put drop ren split: if_splits)
qed

lemma publish_shape:
  assumes "publish k es c name head data = (t, c', r)" and "es' \<in> set t"
    and "map_of es (name @ ''.pending'') = None" and "map_of es name = None"
  shows "publication_state name (head @ data) es es'"
proof (cases "k_fails k (Sys_create (name @ ''.pending''))")
  case True
  with assms show ?thesis by (auto simp: publish_def Let_def publication_state_def)
next
  case False
  obtain t1 r1 where body: "publish_body k (es @ [(name @ ''.pending'', fresh_file [])])
      (name @ ''.pending'') name head data = (t1, r1)" by force
  with False assms(1,3) have "t = es # t1"
    by (auto simp: publish_def Let_def dir_put_new split: if_splits)
  with assms(2) consider "es' = es" | "es' \<in> set t1" by auto
  then show ?thesis
  proof cases
    case 2
    from publish_body_shape [OF body this assms(3,4)] show ?thesis by (simp add: publication_state_def)
  qed (simp add: publication_state_def)
qed

lemma save_shape:
  assumes "ckpt_save k es c key offset data = (t, c', r)" and "es' \<in> set t" and "ckpt_inv c es"
  shows "es' = es \<or> (\<exists>d. publication_state (block_name key) (block_content (c_identity c) offset data d) es es'
    \<and> block_digest (c_identity c) key offset data = Inr d
    \<and> map_of es (block_name key) = None \<and> storable c key data \<and> c_healthy c
    \<and> c_blocks c < l_blocks (c_limits c)
    \<and> header_size + 4 * length data \<le> sub64 (l_total_bytes (c_limits c)) (c_bytes c))"
proof (cases "es' = es")
  case False
  with save_states [OF assms(1,2)] obtain d where
    d: "block_digest (c_identity c) key offset data = Inr d" and absent: "map_of es (block_name key) = None"
    and st: "storable c key data" and room: "c_blocks c < l_blocks (c_limits c)"
      "header_size + 4 * length data \<le> sub64 (l_total_bytes (c_limits c)) (c_bytes c)" by blast
  from False assms(1,2) have new: "save_new k es c key offset data = (t, c', r)" and h: "c_healthy c"
    by (auto simp: ckpt_save_def ckpt_read_def split: if_splits sum.splits option.splits)
  from assms(3) h have np: "map_of es (block_name key @ ''.pending'') = None"
    by (auto simp: ckpt_inv_def dir_ok_no_pending)
  from new d room obtain c1 r1 where pub: "publish k es c (block_name key)
      (make_header (c_identity c) offset (length data) d) (floats_bytes data) = (t, c1, r1)"
    by (auto simp: save_new_def block_name_def Let_def split: if_splits sum.splits prod.splits)
  from publish_shape [OF pub assms(2) np absent] d absent st room h show ?thesis
    by (auto simp: block_content_def)
qed simp

lemma recover_states:
  assumes inv: "ckpt_inv c es" and h: "c_healthy c" and k: "quiet k"
    and save: "ckpt_save k' es c key offset data = (t, c', r)" and e: "e \<in> set t"
  shows "\<exists>s' c2. open_checkpoint k (Some (crashed e)) (c_identity c) Resume (c_limits c) = (Some s', Inr c2)
    \<and> ckpt_inv c2 (st_entries s') \<and> c_healthy c2 \<and> c_identity c2 = c_identity c \<and> c_limits c2 = c_limits c
    \<and> (\<forall>key'. map_of (st_entries s') (block_name key') = map_of e (block_name key'))"
proof -
  from inv h have lim: "valid_limits (c_identity c) (c_limits c)"
    and ok: "dir_ok (c_identity c) (c_limits c) es" by (simp_all add: ckpt_inv_def)
  have np: "map_of es (block_name key @ ''.pending'') = None" by (rule dir_ok_no_pending [OF ok])
  have fits: "length es \<le> 8194 \<and> length es < 8194" if "dir_ok (c_identity c) (c_limits c) es" for es
    using length_dir_ok [OF that] that limits_facts(4) [OF lim] by (simp add: dir_ok_def)
  have use_ok: ?thesis if d: "dir_ok (c_identity c) (c_limits c) e"
  proof -
    from d obtain i j where "map_of e ''identity'' = Some i" "plain_file i"
      "content i = manifest (c_identity c)" "map_of e ''.lock'' = Some j" "plain_file j"
      unfolding dir_ok_def by blast
    then show ?thesis
      using recover [OF k lim _ dir_ok_scannable [OF d]] fits [OF d] d by (auto simp: dir_ok_def)
  qed
  from save_shape [OF save e inv] consider "e = es"
    | v where "e = es @ [(block_name key @ ''.pending'', fresh_file v)]" "storable c key data"
    | d where "e = es @ [(block_name key, fresh_file (block_content (c_identity c) offset data d))]"
        "block_digest (c_identity c) key offset data = Inr d" "map_of es (block_name key) = None"
        "storable c key data" "c_blocks c < l_blocks (c_limits c)"
        "header_size + 4 * length data \<le> sub64 (l_total_bytes (c_limits c)) (c_bytes c)"
    by (auto simp: publication_state_def)
  then show ?thesis
  proof cases
    case 1
    with ok use_ok show ?thesis by simp
  next
    case (3 d)
    with dir_ok_add_block [OF inv h 3(4,2,3,5,6)] use_ok show ?thesis by simp
  next
    case (2 v)
    let ?p = "(block_name key @ ''.pending'', fresh_file v)"
    have blk: "blocks_of e = blocks_of es" by (simp add: 2(1)) (simp add: blocks_of_def)
    have "scannable (c_limits c) ?p"
      using 2(2) by (simp add: scannable_def storable_def stale_staging)
    then have sc: "list_all (scannable (c_limits c)) e"
      using dir_ok_scannable [OF ok] by (simp add: 2(1))
    from ok obtain i j where f: "map_of es ''identity'' = Some i" "plain_file i"
      "content i = manifest (c_identity c)" "map_of es ''.lock'' = Some j" "plain_file j"
      unfolding dir_ok_def by blast
    have ne: "block_name key @ ''.pending'' \<noteq> ''identity''" "block_name key @ ''.pending'' \<noteq> ''.lock''"
      using reserved_not_pending [of "block_name key"] by (auto simp: reserved_def simp del: reserved_not_pending)
    have dist: "distinct (map fst e)"
      using ok np by (auto simp: 2(1) dir_ok_def map_of_eq_None_iff)
    have "map_of e ''identity'' = Some i" "map_of e ''.lock'' = Some j"
      using f ne by (simp_all add: 2(1) map_add_def del: map_of_eq_Some_iff)
    moreover have "length e \<le> 8194" using fits [OF ok] by (simp add: 2(1))
    ultimately show ?thesis
      using recover [OF k lim dist sc] f blk ok by (auto simp: dir_ok_def)
  qed
qed

end
