(* ===== verification/CheckpointContract.thy ===== *)
theory CheckpointContract
  imports CheckpointStore
begin

text \<open>
  The contract of \<^verbatim>\<open>BlockCheckpoint\<close> as an interface, \<open>immutable_store\<close>, what a client that
  computes block by block gets from it, and the interpretation by the model of the class.  The
  theory ends with the properties of the checkpoint.
\<close>

section \<open>The interface and its client\<close>

text \<open>
  The loop of every checkpointed stage: use the stored block, else compute it and store it
  (\<^verbatim>\<open>load\<close> / \<^verbatim>\<open>save\<close> in \<^verbatim>\<open>bounded_pipeline.cpp\<close> and \<^verbatim>\<open>roformer.cu\<close>).
\<close>

fun resume_loop ::
  "('s \<Rightarrow> 'k \<Rightarrow> 'v option) \<Rightarrow> ('s \<Rightarrow> 'k \<Rightarrow> 'v \<Rightarrow> 's option) \<Rightarrow> ('k \<Rightarrow> 'v) \<Rightarrow> 'k list \<Rightarrow> 's \<Rightarrow> ('s \<times> 'v list) option"
where
  "resume_loop load save f [] s = Some (s, [])"
| "resume_loop load save f (k # ks) s =
     (case load s k of
        Some v \<Rightarrow> map_option (\<lambda>(s', vs). (s', v # vs)) (resume_loop load save f ks s)
      | None \<Rightarrow> (case save s k (f k) of None \<Rightarrow> None
          | Some s1 \<Rightarrow> map_option (\<lambda>(s', vs). (s', f k # vs)) (resume_loop load save f ks s1)))"

locale immutable_store =
  fixes load :: "'s \<Rightarrow> 'k \<Rightarrow> 'v option"
    and save :: "'s \<Rightarrow> 'k \<Rightarrow> 'v \<Rightarrow> 's option"
    and inv :: "'s \<Rightarrow> bool"
  assumes save_inv: "inv s \<Longrightarrow> save s k v = Some s' \<Longrightarrow> inv s'"
    and save_load: "inv s \<Longrightarrow> save s k v = Some s' \<Longrightarrow> load s' k = Some v"
    and save_other: "inv s \<Longrightarrow> save s k v = Some s' \<Longrightarrow> k' \<noteq> k \<Longrightarrow> load s' k' = load s k'"
    and save_once: "inv s \<Longrightarrow> load s k = Some w \<Longrightarrow> save s k v = Some s' \<Longrightarrow> v = w"
begin

text \<open>Stored values survive every further save, under any key.\<close>

lemma save_keeps:
  assumes "inv s" and "save s k v = Some s'" and "load s k' = Some w"
  shows "load s' k' = Some w"
proof (cases "k' = k")
  case True
  with assms save_once [of s k w v s'] save_load [of s k v s'] show ?thesis by simp
next
  case False
  with assms save_other show ?thesis by simp
qed

text \<open>
  Whatever part of the blocks an earlier run has stored, a resumed run returns what an
  uninterrupted one computes, and leaves every block stored.
\<close>

lemma resume_correct:
  assumes "inv s" and "\<forall>k. load s k \<in> {None, Some (f k)}"
    and "resume_loop load save f ks s = Some (s', vs)"
  shows "inv s' \<and> vs = map f ks \<and> (\<forall>k \<in> set ks. load s' k = Some (f k))
    \<and> (\<forall>k v. load s k = Some v \<longrightarrow> load s' k = Some v) \<and> (\<forall>k. load s' k \<in> {None, Some (f k)})"
  using assms
proof (induction ks arbitrary: s s' vs)
  case Nil
  then show ?case by simp
next
  case (Cons k ks)
  show ?case
  proof (cases "load s k")
    case (Some v)
    then have v: "v = f k" using Cons.prems(2) by (metis insertE option.distinct(1) option.inject singletonD)
    from Cons.prems(3) Some obtain ws where rest: "resume_loop load save f ks s = Some (s', ws)"
      and vs: "vs = v # ws" by auto
    note ih = Cons.IH [OF Cons.prems(1,2) rest]
    then have "load s' k = Some (f k)" using Some v by blast
    with ih v vs show ?thesis by simp
  next
    case None
    with Cons.prems(3) obtain s1 ws where s1: "save s k (f k) = Some s1"
      and rest: "resume_loop load save f ks s1 = Some (s', ws)" and vs: "vs = f k # ws"
      by (auto split: option.splits)
    have inv1: "inv s1" by (rule save_inv [OF Cons.prems(1) s1])
    have fk: "load s1 k = Some (f k)" by (rule save_load [OF Cons.prems(1) s1])
    have "load s1 k' \<in> {None, Some (f k')}" for k'
      using fk save_other [OF Cons.prems(1) s1, of k'] Cons.prems(2) by (cases "k' = k") simp_all
    then have cons1: "\<forall>k. load s1 k \<in> {None, Some (f k)}" by blast
    note ih = Cons.IH [OF inv1 cons1 rest]
    have "load s' k = Some (f k)" using ih fk by blast
    moreover have "load s' k' = Some w" if "load s k' = Some w" for k' w
      using ih save_keeps [OF Cons.prems(1) s1 that] by blast
    ultimately show ?thesis using ih vs by simp
  qed
qed

text \<open>A second run over the same blocks stores nothing.\<close>

lemma resume_again:
  assumes "inv s" and "\<forall>k \<in> set ks. load s k = Some (f k)"
  shows "resume_loop load save f ks s = Some (s, map f ks)"
  using assms by (induction ks) auto

end

section \<open>The checkpoint is an immutable store\<close>

text \<open>The block stored under a key, with its own offset and count, and a save, on a calm kernel.\<close>

definition stored_block :: "ckpt \<times> entries \<Rightarrow> string \<Rightarrow> (u64 \<times> u32 list) option" where
  "stored_block s key =
     (case map_of (snd s) (block_name key) of None \<Rightarrow> None
      | Some i \<Rightarrow>
        let h = take header_size (content i); offset = get64 h 72; count = unat (get64 h 80)
        in case ckpt_read calm_kernel (snd s) (fst s) key offset count of
             Inr (Some d) \<Rightarrow> Some (offset, d)
           | _ \<Rightarrow> None)"

definition put_block :: "ckpt \<times> entries \<Rightarrow> string \<Rightarrow> u64 \<times> u32 list \<Rightarrow> (ckpt \<times> entries) option" where
  "put_block s key v =
     (case ckpt_save calm_kernel (snd s) (fst s) key (fst v) (snd v) of
        (t, c', Inr _) \<Rightarrow> Some (c', last t)
      | _ \<Rightarrow> None)"

lemma read_header:
  assumes "ckpt_read k es c key offset count = Inr (Some data)"
  shows "\<exists>i. map_of es (block_name key) = Some i \<and> get64 (take header_size (content i)) 72 = offset
    \<and> get64 (take header_size (content i)) 80 = of_nat count"
proof -
  from assms obtain i h where m: "map_of es (block_name key) = Some i"
    and h: "transfer_in (k_replies k (Sys_read (key @ ''.block'') 0)) header_size (content i) = Some h"
    and f: "get64 h 72 = offset" "get64 h 80 = of_nat count"
    by (auto simp: ckpt_read_def open_read_def block_name_def Let_def
        split: if_splits sum.splits option.splits opened.splits)
  have "h = take header_size (content i)" using transfer_in_sound [OF h] by simp
  with m f show ?thesis by auto
qed

lemma read_cong:
  assumes "map_of es' (block_name key) = map_of es (block_name key)"
    and "c_healthy c' = c_healthy c" and "c_identity c' = c_identity c" and "c_limits c' = c_limits c"
  shows "ckpt_read k es' c' key offset count = ckpt_read k es c key offset count"
proof -
  have "open_read k es' (key @ ''.block'') = open_read k es (key @ ''.block'')"
    using assms(1) by (simp add: open_read_def block_name_def)
  then show ?thesis by (simp only: ckpt_read_def read_payload_def Let_def assms(2-4))
qed

lemma stored_block_of_read:
  assumes "ckpt_read calm_kernel es c key offset (length d) = Inr (Some d)" and "length d < 2 ^ 64"
  shows "stored_block (c, es) key = Some (offset, d)"
proof -
  from read_header [OF assms(1)] obtain i where m: "map_of es (block_name key) = Some i"
    and f: "get64 (take header_size (content i)) 72 = offset"
      "unat (get64 (take header_size (content i)) 80) = length d"
    using assms(2) by (auto simp: unat_of_nat)
  show ?thesis by (simp only: stored_block_def snd_conv fst_conv m option.case Let_def f assms(1) sum.case)
qed

lemma stored_block_read:
  "stored_block (c, es) key = Some (offset, d) \<Longrightarrow>
     ckpt_read calm_kernel es c key offset (length d) = Inr (Some d)"
  using read_sound [of calm_kernel es c key]
  by (fastforce simp: stored_block_def Let_def split: option.splits sum.splits)

lemma put_block_cases:
  assumes "put_block (c, es) key (offset, d) = Some (c', es')"
  obtains t where "ckpt_save calm_kernel es c key offset d = (t, c', Inr ())" and "es' = last t"
  using assms by (auto simp: put_block_def split: prod.splits sum.splits)

interpretation ck: immutable_store stored_block put_block "\<lambda>s. ckpt_inv (fst s) (snd s)"
proof (unfold_locales, goal_cases)
  case (1 s k v s')
  then show ?case
    by (cases s, cases v, cases s') (auto elim!: put_block_cases intro: CheckpointStore.save_inv)
next
  case (2 s k v s')
  obtain c es off d c' es' where eq: "s = (c, es)" "v = (off, d)" "s' = (c', es')"
    by (cases s, cases v, cases s') auto
  from 2 obtain t where save: "ckpt_save calm_kernel es c k off d = (t, c', Inr ())" "es' = last t"
    unfolding eq by (auto elim: put_block_cases)
  from 2 have lim: "valid_limits (c_identity c) (c_limits c)" by (simp add: eq ckpt_inv_def)
  from save_committed [OF save(1) lim] have r: "ckpt_read calm_kernel es' c' k off (length d) = Inr (Some d)"
    and "storable c' k d" "valid_limits (c_identity c') (c_limits c')"
    using save(2) lim by auto
  then show ?case
    using stored_block_of_read [OF r] storable_small by (auto simp: eq)
next
  case (3 s k v s' k')
  obtain c es off d c' es' where eq: "s = (c, es)" "v = (off, d)" "s' = (c', es')"
    by (cases s, cases v, cases s') auto
  from 3 obtain t where save: "ckpt_save calm_kernel es c k off d = (t, c', Inr ())" "es' = last t"
    unfolding eq by (auto elim: put_block_cases)
  from 3 have lim: "valid_limits (c_identity c) (c_limits c)" by (simp add: eq ckpt_inv_def)
  have ne: "block_name k' \<noteq> block_name k" "block_name k' \<noteq> block_name k @ ''.pending''"
    using 3 by (simp, metis pending_ne_block)
  have c': "c_healthy c' = c_healthy c" "c_identity c' = c_identity c" "c_limits c' = c_limits c"
    using save_committed [OF save(1) lim] save_cases [OF save(1)] by auto
  have m: "map_of es' (block_name k') = map_of es (block_name k')"
    using save_frame [OF save(1) _ ne] save_committed [OF save(1) lim] save(2) by simp
  show ?case
    by (simp only: eq stored_block_def Let_def m fst_conv snd_conv read_cong [OF m c'])
next
  case (4 s k w v s')
  obtain c es off d c' es' off' d' where eq: "s = (c, es)" "v = (off, d)" "s' = (c', es')" "w = (off', d')"
    by (cases s, cases v, cases s', cases w) auto
  from 4 obtain t where save: "ckpt_save calm_kernel es c k off d = (t, c', Inr ())"
    unfolding eq by (auto elim: put_block_cases)
  from 4 have lim: "valid_limits (c_identity c) (c_limits c)" by (simp add: eq ckpt_inv_def)
  from 4 have old: "ckpt_read calm_kernel es c k off' (length d') = Inr (Some d')"
    unfolding eq by (auto dest: stored_block_read)
  then have "map_of es (block_name k) \<noteq> None" using read_header by fastforce
  with save_cases [OF save] have new: "ckpt_read calm_kernel es c k off (length d) = Inr (Some d)"
    and "storable c k d" by auto
  with stored_block_of_read [OF new] storable_small [OF lim] 4(2) show ?case by (auto simp: eq)
qed

section \<open>Properties\<close>

definition demo_identity :: string where
  "demo_identity = replicate 64 (CHR ''a'')"

definition demo_open :: "store option \<times> ckpt result" where
  "demo_open = open_checkpoint calm_kernel None demo_identity Create default_limits"

definition demo_ckpt :: ckpt where
  "demo_ckpt = \<lparr>c_identity = demo_identity, c_limits = default_limits, c_bytes = 0, c_hits = 0,
     c_blocks = 0, c_healthy = True, c_read_only = False\<rparr>"

definition demo_dir :: entries where
  "demo_dir = [(''.lock'', fresh_file []), (''identity'', fresh_file (manifest demo_identity))]"

lemma demo_valid: "valid_limits demo_identity default_limits"
  by (simp add: valid_limits_def valid_digest_def demo_identity_def default_limits_def header_size_def)

lemma demo_inv: "ckpt_inv demo_ckpt demo_dir"
  by (simp add: ckpt_inv_def demo_ckpt_def demo_valid demo_dir_def dir_ok_def reserved_def
      blocks_of_def ends_with_def)

lemma demo_storable: "storable demo_ckpt ''k'' [0]"
  by (simp add: storable_def demo_ckpt_def default_limits_def valid_key_def is_finite_def)

text \<open>A save on a healthy object with room, in a directory without the block, succeeds.\<close>

lemma save_succeeds:
  assumes k: "quiet k" and inv: "ckpt_inv c es" and h: "c_healthy c" and w: "\<not> c_read_only c"
    and st: "storable c key data" and absent: "map_of es (block_name key) = None"
    and room: "c_blocks c < l_blocks (c_limits c)"
      "header_size + 4 * length data \<le> l_total_bytes (c_limits c) - c_bytes c"
  shows "\<exists>t c'. ckpt_save k es c key offset data = (t, c', Inr ())"
proof -
  from inv h have lim: "valid_limits (c_identity c) (c_limits c)"
    and ok: "dir_ok (c_identity c) (c_limits c) es" and "c_bytes c \<le> l_total_bytes (c_limits c)"
    by (auto simp: ckpt_inv_def dir_ok_def)
  then have room': "header_size + 4 * length data \<le> sub64 (l_total_bytes (c_limits c)) (c_bytes c)"
    using room(2) limits_facts(3) [OF lim] by simp
  have s: "valid_key key" "0 < length data" "length data \<le> l_block_bytes (c_limits c) div 4"
    using st by (auto simp: storable_def)
  have r: "ckpt_read k es c key offset (length data) = Inr None"
    using read_absent [OF k h s absent] .
  have "length key \<le> 64" "length data \<le> 2 ^ 30"
    using s storable_small [OF lim st] by (simp_all add: valid_key_def)
  from block_digest_ok [OF limits_facts(1) [OF lim] this] obtain d
    where d: "block_digest (c_identity c) key offset data = Inr d" .
  obtain t where "publish k es c (block_name key)
      (make_header (c_identity c) offset (length data) d) (floats_bytes data) = (t, c, Inr ())"
    using publish_calm [OF k dir_ok_no_pending [OF ok]] by blast
  then have "save_new k es c key offset data = (t, c\<lparr>c_blocks := c_blocks c + 1,
      c_bytes := c_bytes c + (header_size + 4 * length data)\<rparr>, Inr ())"
    using room(1) room' d by (simp add: save_new_def block_name_def)
  then show ?thesis
    using w s st r by (auto simp: ckpt_save_def check_key_def finite_data_def storable_def)
qed

lemma demo_save: "\<exists>t c'. ckpt_save calm_kernel demo_dir demo_ckpt ''k'' 7 [0] = (t, c', Inr ())"
  by (rule save_succeeds [OF quiet_calm demo_inv _ _ demo_storable])
     (simp_all add: demo_ckpt_def demo_dir_def default_limits_def header_size_def block_name_def)

text \<open>C2: A block that \<^verbatim>\<open>save\<close> reports as stored is returned by \<^verbatim>\<open>load\<close> under the same key, offset
  and count, bit for bit, and counts as one restored block.\<close>

theorem save_then_load:
  assumes "quiet k" and "ckpt_inv c es"
    and "ckpt_save k es c key offset data = (t, c', Inr ())"
  shows "ckpt_load k (last t) c' key offset (length data)
    = (c'\<lparr>c_hits := c_hits c' + 1\<rparr>, Inr (Some data))"
proof -
  from assms(2) have lim: "valid_limits (c_identity c) (c_limits c)" by (simp add: ckpt_inv_def)
  from save_committed [OF assms(3) lim] assms(1) show ?thesis by (simp add: ckpt_load_def)
qed

theorem save_then_load_witness:
  "\<exists>t c'. ckpt_save calm_kernel demo_dir demo_ckpt ''k'' 7 [0] = (t, c', Inr ())
     \<and> snd (ckpt_load calm_kernel (last t) c' ''k'' 7 1) = Inr (Some [0])"
  using demo_save save_then_load [OF quiet_calm demo_inv, of "''k''" 7 "[0]"] by fastforce

text \<open>C1: Whatever the kernel does during a \<^verbatim>\<open>save\<close> and wherever the process dies, the directory can
  be reopened with \<^verbatim>\<open>Resume\<close>, the reopened object satisfies the invariant, every other block is as
  before, and the saved block is either as before or complete.\<close>

theorem save_crash_recovery:
  assumes "ckpt_inv c es" and "c_healthy c" and "quiet k"
    and "ckpt_save k' es c key offset data = (t, c', r)" and "e \<in> set t"
  shows "\<exists>s' c2. open_checkpoint k (Some (crashed e)) (c_identity c) Resume (c_limits c) = (Some s', Inr c2)
    \<and> ckpt_inv c2 (st_entries s')
    \<and> (\<forall>key'. key' \<noteq> key \<longrightarrow> map_of (st_entries s') (block_name key') = map_of es (block_name key'))
    \<and> (map_of (st_entries s') (block_name key) = map_of es (block_name key)
       \<or> ckpt_read k (st_entries s') c2 key offset (length data) = Inr (Some data))"
proof -
  from recover_states [OF assms] obtain s' c2 where
    op: "open_checkpoint k (Some (crashed e)) (c_identity c) Resume (c_limits c) = (Some s', Inr c2)"
    and inv: "ckpt_inv c2 (st_entries s')" "c_healthy c2"
    and c2: "c_identity c2 = c_identity c" "c_limits c2 = c_limits c"
    and same: "\<And>key'. map_of (st_entries s') (block_name key') = map_of e (block_name key')" by blast
  have "map_of e (block_name key') = map_of es (block_name key')" if "key' \<noteq> key" for key'
    using save_frame [OF assms(4,5)] that by (metis block_name_inj pending_ne_block)
  moreover have "map_of e (block_name key) = map_of es (block_name key)
      \<or> ckpt_read k (st_entries s') c2 key offset (length data) = Inr (Some data)"
  proof (rule disjCI)
    assume ne: "ckpt_read k (st_entries s') c2 key offset (length data) \<noteq> Inr (Some data)"
    from save_shape [OF assms(4,5,1)] consider "e = es"
      | v where "e = es @ [(block_name key @ ''.pending'', fresh_file v)]"
      | d where "e = es @ [(block_name key, fresh_file (block_content (c_identity c) offset data d))]"
          "block_digest (c_identity c) key offset data = Inr d" "map_of es (block_name key) = None"
          "storable c key data"
      by (auto simp: publication_state_def)
    then show "map_of e (block_name key) = map_of es (block_name key)"
    proof cases
      case (2 v)
      then show ?thesis by (auto simp: map_add_def split: option.split)
    next
      case (3 d)
      have "committed (st_entries s') c2 key offset data"
        unfolding committed_def same c2 using 3 by (simp add: map_add_def)
      moreover have "storable c2 key data" using 3(4) c2 by (simp add: storable_def)
      moreover have "valid_limits (c_identity c2) (c_limits c2)" using inv(1) by (simp add: ckpt_inv_def)
      ultimately have "ckpt_read k (st_entries s') c2 key offset (length data) = Inr (Some data)"
        using read_committed [OF assms(3) inv(2)] by blast
      with ne show ?thesis by simp
    qed simp
  qed
  ultimately show ?thesis using op inv same by auto
qed

theorem save_crash_recovery_witness:
  "\<exists>t c' s' c2. ckpt_save calm_kernel demo_dir demo_ckpt ''k'' 7 [0] = (t, c', Inr ())
     \<and> open_checkpoint calm_kernel (Some (crashed (last t))) demo_identity Resume default_limits
         = (Some s', Inr c2) \<and> ckpt_inv c2 (st_entries s')"
proof -
  obtain t c' where s: "ckpt_save calm_kernel demo_dir demo_ckpt ''k'' 7 [0] = (t, c', Inr ())"
    using demo_save by blast
  have "t \<noteq> []" using save_committed [OF s] demo_valid by (simp add: demo_ckpt_def)
  then have e: "last t \<in> set t" by simp
  have h: "c_healthy demo_ckpt" by (simp add: demo_ckpt_def)
  have id: "c_identity demo_ckpt = demo_identity" "c_limits demo_ckpt = default_limits"
    by (simp_all add: demo_ckpt_def)
  show ?thesis using save_crash_recovery [OF demo_inv h quiet_calm s e] s unfolding id by blast
qed

text \<open>C3: Every \<^verbatim>\<open>save\<close>, under any behaviour of the kernel, keeps the invariant: while the object is
  healthy its counters equal the number and the bytes of the block files, both within the limits.\<close>

theorem save_keeps_invariant:
  assumes "ckpt_inv c es" and "ckpt_save k es c key offset data = (t, c', r)"
  shows "ckpt_inv c' (last t)"
  by (rule CheckpointStore.save_inv [OF assms])

theorem save_keeps_invariant_witness:
  "\<exists>t c'. ckpt_save calm_kernel demo_dir demo_ckpt ''k'' 7 [0] = (t, c', Inr ()) \<and> ckpt_inv c' (last t)"
  using demo_save save_keeps_invariant [OF demo_inv, of calm_kernel "''k''" 7 "[0]"] by blast

text \<open>C4: A successful open for writing yields a healthy, empty-counted or recounted object whose
  invariant holds, with every block of the directory kept and the exclusive lock held.\<close>

theorem open_establishes_invariant:
  assumes "open_checkpoint k so identity m l = (so', Inr c)" and "m \<noteq> ReadOnly"
    and "\<And>s. so = Some s \<Longrightarrow> distinct (map fst (st_entries s))"
  shows "\<exists>s'. so' = Some s' \<and> st_exclusive s' \<and> c_healthy c \<and> c_identity c = identity \<and> c_limits c = l
    \<and> ckpt_inv c (st_entries s')
    \<and> (\<forall>s key. so = Some s \<longrightarrow> map_of (st_entries s') (block_name key) = map_of (st_entries s) (block_name key))"
  using open_inv [OF assms] by (auto simp: opened_as_def)

lemma demo_open_ok: "\<exists>s c. demo_open = (Some s, Inr c)"
  by (simp add: demo_open_def open_checkpoint_def demo_valid open_lock_def calm_kernel_def
      empty_store_def lock_free_def open_locked_def check_identity_def scan_entry_def
      init_identity_def publish_def publish_body_def manifest_def manifest_prefix_def
      newline_def fresh_file_def plain_file_def Let_def)

theorem open_establishes_invariant_witness:
  "\<exists>s c. open_checkpoint calm_kernel None demo_identity Create default_limits = (Some s, Inr c)
     \<and> ckpt_inv c (st_entries s)"
  using demo_open_ok open_establishes_invariant [of calm_kernel None demo_identity Create default_limits]
  by (fastforce simp: demo_open_def)

text \<open>A committed block is immutable: in every directory state of every later \<^verbatim>\<open>save\<close>, successful
  or not, under any kernel, its file is unchanged.\<close>

lemma committed_immutable:
  assumes "ckpt_save k es c key offset data = (t, c', r)" and "e \<in> set t"
    and "map_of es (block_name key') = Some i"
  shows "map_of e (block_name key') = Some i"
  by (rule save_immutable [OF assms])

theorem committed_immutable_witness:
  "map_of (last (fst (ckpt_save calm_kernel [(block_name ''a'', fresh_file [])] demo_ckpt ''a'' 0 [0])))
     (block_name ''a'') = Some (fresh_file [])"
proof -
  obtain t c' r where s: "ckpt_save calm_kernel [(block_name ''a'', fresh_file [])] demo_ckpt ''a'' 0 [0]
      = (t, c', r)" by (metis prod_cases3)
  have "t \<noteq> []"
    using s by (auto simp: ckpt_save_def save_new_def publish_def Let_def
        split: if_splits sum.splits option.splits prod.splits)
  then show ?thesis using committed_immutable [OF s, of "last t" "''a''"] s by simp
qed

text \<open>One owner: while a writer holds the directory no open succeeds, and while readers hold it
  only further readers do.\<close>

lemma single_owner:
  assumes "open_checkpoint k (Some s) identity m l = (so', Inr c)"
  shows "\<not> st_exclusive s \<and> (m = ReadOnly \<or> st_sharers s = 0)
    \<and> (case so' of Some s' \<Rightarrow> st_exclusive s' = (m \<noteq> ReadOnly)
         \<and> st_sharers s' = (if m = ReadOnly then st_sharers s + 1 else 0)
       | None \<Rightarrow> False)"
  using assms
  by (auto simp: open_checkpoint_def lock_free_def take_lock_def Let_def
      split: if_splits prod.splits sum.splits)

theorem single_owner_witness:
  "\<exists>c. snd (open_checkpoint calm_kernel (Some empty_store) demo_identity Create default_limits) = Inr c"
proof -
  obtain s c where "demo_open = (Some s, Inr c)" using demo_open_ok by blast
  then have "open_checkpoint calm_kernel (Some empty_store) demo_identity Create default_limits
      = (Some s, Inr c)"
    by (simp add: demo_open_def open_checkpoint_def demo_valid calm_kernel_def)
  with single_owner [OF this] show ?thesis by simp
qed

text \<open>C6: Data returned by a read has passed every check, whatever the kernel answered: the file is a
  plain file of the exact size, its header names this identity, the floats are its payload, all
  finite, and the stored checksum is the digest of identity, key, offset and payload.\<close>

theorem read_is_verified:
  assumes "ckpt_read k es c key offset count = Inr (Some data)"
  shows "\<exists>i. map_of es (block_name key) = Some i \<and> plain_file i
    \<and> length (content i) = header_size + 4 * count \<and> field (content i) 8 64 = c_identity c
    \<and> data = floats_of_bytes count (drop header_size (content i)) \<and> list_all is_finite data
    \<and> block_digest (c_identity c) key offset data = Inr (field (content i) 88 64)"
  using read_sound [OF assms] by blast

theorem read_is_verified_witness:
  "\<exists>t c'. ckpt_save calm_kernel demo_dir demo_ckpt ''k'' 7 [0] = (t, c', Inr ())
     \<and> (\<exists>i. map_of (last t) (block_name ''k'') = Some i \<and> plain_file i)"
proof -
  obtain t c' where s: "ckpt_save calm_kernel demo_dir demo_ckpt ''k'' 7 [0] = (t, c', Inr ())"
    using demo_save by blast
  have "ckpt_read calm_kernel (last t) c' ''k'' 7 (length [0 :: u32]) = Inr (Some [0])"
    using save_committed [OF s] demo_inv by (auto simp: ckpt_inv_def)
  with read_is_verified [OF this] s show ?thesis by blast
qed



end
