(* ===== verification/Json.thy ===== *)
theory Json
  imports Prelude
begin

text \<open>
  The JSON reader of \<^verbatim>\<open>src/io/safetensors.cpp\<close>: white space, strings with escapes and UTF-8
  output, 64-bit integers, and skipping of values of any shape up to a nesting depth.

  The pair of pointers \<^verbatim>\<open>p, end\<close> is the list of bytes still to be read; a reader returns the rest,
  or \<^const>\<open>None\<close> where the code returns \<^verbatim>\<open>false\<close> (no caller looks at \<^verbatim>\<open>p\<close> then).  Skipping a value
  recurses through its parts; the model gives it fuel, and \<open>skip_fuel\<close> shows that the fuel its
  callers pass never runs out.
\<close>

section \<open>Lexical elements\<close>

definition is_ws :: "char \<Rightarrow> bool" where
  "is_ws c \<longleftrightarrow> c = CHR '' '' \<or> c = CHR 0x0A \<or> c = CHR 0x09 \<or> c = CHR 0x0D"

definition skip_ws :: "string \<Rightarrow> string" where
  "skip_ws s = dropWhile is_ws s"

definition hex_value :: "char \<Rightarrow> nat option" where
  "hex_value c =
     (let n = of_char c :: nat
      in if 48 \<le> n \<and> n \<le> 57 then Some (n - 48)
         else if 97 \<le> n \<and> n \<le> 102 then Some (n - 97 + 10)
         else if 65 \<le> n \<and> n \<le> 70 then Some (n - 65 + 10)
         else None)"

fun hex_digits :: "nat \<Rightarrow> nat \<Rightarrow> string \<Rightarrow> (nat \<times> string) option" where
  "hex_digits 0 v s = Some (v, s)"
| "hex_digits (Suc i) v [] = None"
| "hex_digits (Suc i) v (c # s) =
     (case hex_value c of None \<Rightarrow> None | Some d \<Rightarrow> hex_digits i (push_bit 4 v OR d) s)"

definition parse_hex4 :: "string \<Rightarrow> (nat \<times> string) option" where
  "parse_hex4 s = (if length s < 4 then None else hex_digits 4 0 s)"

definition utf8 :: "nat \<Rightarrow> string option" where
  "utf8 cp =
     (if cp \<le> 0x7f then Some [char_of cp]
      else if cp \<le> 0x7ff
      then Some [char_of (0xc0 OR drop_bit 6 cp), char_of (0x80 OR (cp AND 0x3f))]
      else if cp \<le> 0xffff
      then (if 0xd800 \<le> cp \<and> cp \<le> 0xdfff then None
            else Some [char_of (0xe0 OR drop_bit 12 cp), char_of (0x80 OR (drop_bit 6 cp AND 0x3f)),
                       char_of (0x80 OR (cp AND 0x3f))])
      else if cp \<le> 0x10ffff
      then Some [char_of (0xf0 OR drop_bit 18 cp), char_of (0x80 OR (drop_bit 12 cp AND 0x3f)),
                 char_of (0x80 OR (drop_bit 6 cp AND 0x3f)), char_of (0x80 OR (cp AND 0x3f))]
      else None)"

text \<open>The code point of an escape that starts with the letter u, surrogate pairs included.\<close>

definition parse_unicode :: "string \<Rightarrow> (nat \<times> string) option" where
  "parse_unicode s =
     (case parse_hex4 s of None \<Rightarrow> None
      | Some (cp, s1) \<Rightarrow>
        if 0xd800 \<le> cp \<and> cp \<le> 0xdbff
        then (if length s1 < 2 \<or> s1 ! 0 \<noteq> CHR 0x5C \<or> s1 ! 1 \<noteq> CHR ''u'' then None
              else case parse_hex4 (drop 2 s1) of None \<Rightarrow> None
                | Some (low, s2) \<Rightarrow>
                  if low < 0xdc00 \<or> low > 0xdfff then None
                  else Some (0x10000 + push_bit 10 (cp - 0xd800) + (low - 0xdc00), s2))
        else if 0xdc00 \<le> cp \<and> cp \<le> 0xdfff then None
        else Some (cp, s1))"

definition parse_escape :: "string \<Rightarrow> (string \<times> string) option" where
  "parse_escape s =
     (case s of [] \<Rightarrow> None
      | c # r \<Rightarrow>
        if c = CHR 0x22 \<or> c = CHR 0x5C \<or> c = CHR ''/'' then Some ([c], r)
        else if c = CHR ''b'' then Some ([CHR 0x08], r)
        else if c = CHR ''f'' then Some ([CHR 0x0C], r)
        else if c = CHR ''n'' then Some ([CHR 0x0A], r)
        else if c = CHR ''r'' then Some ([CHR 0x0D], r)
        else if c = CHR ''t'' then Some ([CHR 0x09], r)
        else if c = CHR ''u''
        then (case parse_unicode r of None \<Rightarrow> None
              | Some (cp, r') \<Rightarrow> (case utf8 cp of None \<Rightarrow> None | Some u \<Rightarrow> Some (u, r')))
        else None)"

lemma hex_digits_length: "hex_digits n v s = Some (w, r) \<Longrightarrow> length s = n + length r"
  by (induction n v s rule: hex_digits.induct) (auto split: option.splits)

lemma parse_hex4_length: "parse_hex4 s = Some (v, r) \<Longrightarrow> length s = 4 + length r"
  by (auto simp: parse_hex4_def dest: hex_digits_length split: if_splits)

lemma parse_unicode_length: "parse_unicode s = Some (v, r) \<Longrightarrow> length r < length s"
  by (auto simp: parse_unicode_def dest!: parse_hex4_length split: option.splits if_splits)

lemma parse_escape_length: "parse_escape s = Some (u, r) \<Longrightarrow> length r < length s"
  by (auto simp: parse_escape_def dest!: parse_unicode_length
      split: list.splits option.splits if_splits)

text \<open>The string body after the opening quote; \<open>acc\<close> is \<^verbatim>\<open>out\<close>.\<close>

function string_body :: "string \<Rightarrow> string \<Rightarrow> (string \<times> string) option" where
  "string_body acc [] = None"
| "string_body acc (c # s) =
     (if c = CHR 0x22 then Some (acc, s)
      else if (of_char c :: nat) < 0x20 then None
      else if c \<noteq> CHR 0x5C then string_body (acc @ [c]) s
      else case parse_escape s of None \<Rightarrow> None | Some (u, r) \<Rightarrow> string_body (acc @ u) r)"
  by pat_completeness auto
termination
  by (relation "measure (\<lambda>(acc, s). length s)") (auto dest: parse_escape_length)

definition parse_string :: "string \<Rightarrow> (string \<times> string) option" where
  "parse_string s = (case s of [] \<Rightarrow> None | c # r \<Rightarrow> if c = CHR 0x22 then string_body [] r else None)"

fun digits_loop :: "nat \<Rightarrow> string \<Rightarrow> (nat \<times> string) option" where
  "digits_loop v [] = Some (v, [])"
| "digits_loop v (c # s) =
     (if \<not> is_digit c then Some (v, c # s)
      else if v > (2 ^ 64 - 1 - digit_val c) div 10 then None
      else digits_loop (v * 10 + digit_val c) s)"

definition parse_uint64 :: "string \<Rightarrow> (nat \<times> string) option" where
  "parse_uint64 s0 =
     (let s = skip_ws s0
      in case s of [] \<Rightarrow> None
         | c # r \<Rightarrow>
           if \<not> is_digit c then None
           else if c = CHR ''0'' \<and> r \<noteq> [] \<and> is_digit (hd r) then None
           else digits_loop 0 s)"

section \<open>Skipping values\<close>

definition drop_digits :: "string \<Rightarrow> string option" where
  "drop_digits s = (case s of [] \<Rightarrow> None
     | c # r \<Rightarrow> if is_digit c then Some (dropWhile is_digit s) else None)"

definition skip_fraction :: "string \<Rightarrow> string option" where
  "skip_fraction s = (case s of [] \<Rightarrow> Some s
     | c # r \<Rightarrow> if c = CHR ''.'' then drop_digits r else Some s)"

definition skip_exponent :: "string \<Rightarrow> string option" where
  "skip_exponent s = (case s of [] \<Rightarrow> Some s
     | c # r \<Rightarrow>
       if c = CHR ''e'' \<or> c = CHR ''E''
       then drop_digits (case r of [] \<Rightarrow> r | d # q \<Rightarrow> if d = CHR ''+'' \<or> d = CHR ''-'' then q else r)
       else Some s)"

definition skip_number :: "string \<Rightarrow> string option" where
  "skip_number s0 =
     (let s = (case s0 of [] \<Rightarrow> s0 | c # r \<Rightarrow> if c = CHR ''-'' then r else s0)
      in case s of [] \<Rightarrow> None
         | c # r \<Rightarrow>
           (case (if c = CHR ''0'' then Some r
                  else if is_digit c then Some (dropWhile is_digit s) else None) of
              None \<Rightarrow> None
            | Some s1 \<Rightarrow>
              (case skip_fraction s1 of None \<Rightarrow> None | Some s2 \<Rightarrow> skip_exponent s2)))"

definition skip_literal :: "string \<Rightarrow> string option" where
  "skip_literal s =
     (if starts_with s ''true'' then Some (drop 4 s)
      else if starts_with s ''false'' then Some (drop 5 s)
      else if starts_with s ''null'' then Some (drop 4 s)
      else None)"

definition max_json_depth :: nat where "max_json_depth = 64"

text \<open>
  \<open>skip_elements\<close> and \<open>skip_members\<close> are the \<^verbatim>\<open>while\<close> loops of \<^verbatim>\<open>skip_array\<close> and \<^verbatim>\<open>skip_object\<close>,
  entered after the opening bracket; \<open>keys\<close> is the set of keys seen.
\<close>

fun skip_value :: "nat \<Rightarrow> nat \<Rightarrow> string \<Rightarrow> string option"
and skip_elements :: "nat \<Rightarrow> nat \<Rightarrow> string \<Rightarrow> string option"
and skip_members :: "nat \<Rightarrow> nat \<Rightarrow> string list \<Rightarrow> string \<Rightarrow> string option"
where
  "skip_value 0 depth s = None"
| "skip_value (Suc n) depth s0 =
     (if depth > max_json_depth then None
      else let s = skip_ws s0 in
      case s of [] \<Rightarrow> None
      | c # r \<Rightarrow>
        if c = CHR ''{''
        then (case skip_ws r of [] \<Rightarrow> None
              | d # q \<Rightarrow> if d = CHR ''}'' then Some q else skip_members n depth [] (d # q))
        else if c = CHR ''[''
        then (case skip_ws r of [] \<Rightarrow> None
              | d # q \<Rightarrow> if d = CHR '']'' then Some q else skip_elements n depth (d # q))
        else if c = CHR 0x22 then map_option snd (parse_string s)
        else if c = CHR ''-'' \<or> is_digit c then skip_number s
        else skip_literal s)"
| "skip_elements 0 depth s = None"
| "skip_elements (Suc n) depth s =
     (if s = [] then None
      else case skip_value n (depth + 1) s of None \<Rightarrow> None
      | Some s1 \<Rightarrow>
        (case skip_ws s1 of [] \<Rightarrow> None
         | c # r \<Rightarrow> if c = CHR '']'' then Some r
             else if c \<noteq> CHR '','' then None
             else skip_elements n depth (skip_ws r)))"
| "skip_members 0 depth keys s = None"
| "skip_members (Suc n) depth keys s =
     (if s = [] then None
      else case parse_string s of None \<Rightarrow> None
      | Some (key, s1) \<Rightarrow>
        if key \<in> set keys then None
        else case skip_ws s1 of [] \<Rightarrow> None
        | c # s2 \<Rightarrow>
          if c \<noteq> CHR '':'' then None
          else case skip_value n (depth + 1) s2 of None \<Rightarrow> None
          | Some s3 \<Rightarrow>
            (case skip_ws s3 of [] \<Rightarrow> None
             | d # r \<Rightarrow> if d = CHR ''}'' then Some r
                 else if d \<noteq> CHR '','' then None
                 else skip_members n depth (key # keys) (skip_ws r)))"

definition skip_fuel :: "string \<Rightarrow> nat" where
  "skip_fuel s = 2 * length s + 1"

text \<open>\<^verbatim>\<open>skip_object\<close> called on its own (for the metadata): the depth check, the brace, the members.\<close>

definition skip_object :: "string \<Rightarrow> nat \<Rightarrow> string option" where
  "skip_object s depth =
     (if depth > max_json_depth then None
      else case s of [] \<Rightarrow> None
      | c # r \<Rightarrow>
        if c \<noteq> CHR ''{'' then None
        else case skip_ws r of [] \<Rightarrow> None
        | d # q \<Rightarrow> if d = CHR ''}'' then Some q
            else skip_members (skip_fuel (d # q)) depth [] (d # q))"

section \<open>Readers consume their input\<close>

lemma skip_ws_length: "length (skip_ws s) \<le> length s"
  by (simp add: skip_ws_def length_dropWhile_le)

lemma skip_ws_Cons: "skip_ws s = c # r \<Longrightarrow> length r < length s"
  using skip_ws_length [of s] by simp

lemma string_body_length: "string_body acc s = Some (u, r) \<Longrightarrow> length r < length s"
proof (induction acc s rule: string_body.induct)
  case (2 acc c s)
  show ?case
  proof (cases "c = CHR 0x5C")
    case False
    with "2.prems" "2.IH"(1) show ?thesis by (auto split: if_splits)
  next
    case True
    with "2.prems" obtain u' r' where e: "parse_escape s = Some (u', r')"
      and b: "string_body (acc @ u') r' = Some (u, r)" by (auto split: option.splits)
    from "2.IH"(2) [OF _ _ _ e refl b] True parse_escape_length [OF e] show ?thesis by simp
  qed
qed simp

lemma parse_string_length: "parse_string s = Some (u, r) \<Longrightarrow> length r < length s"
  by (auto simp: parse_string_def dest!: string_body_length split: list.splits if_splits)

lemma digits_loop_length: "digits_loop v s = Some (w, r) \<Longrightarrow> length r \<le> length s"
  by (induction v s rule: digits_loop.induct) (auto split: if_splits)

lemma parse_uint64_length: "parse_uint64 s = Some (v, r) \<Longrightarrow> length r < length s"
proof -
  assume p: "parse_uint64 s = Some (v, r)"
  then obtain c q where s: "skip_ws s = c # q" and d: "is_digit c" "digits_loop 0 (c # q) = Some (v, r)"
    by (auto simp: parse_uint64_def Let_def split: list.splits if_splits)
  then have "digits_loop (digit_val c) q = Some (v, r)" by (auto split: if_splits)
  from digits_loop_length [OF this] skip_ws_Cons [OF s] show ?thesis by simp
qed

lemma drop_digits_length: "drop_digits s = Some r \<Longrightarrow> length r < length s"
  by (auto simp: drop_digits_def le_imp_less_Suc length_dropWhile_le split: list.splits if_splits)

lemma skip_fraction_length: "skip_fraction s = Some r \<Longrightarrow> length r \<le> length s"
  by (auto simp: skip_fraction_def dest!: drop_digits_length split: list.splits if_splits)

lemma skip_exponent_length: "skip_exponent s = Some r \<Longrightarrow> length r \<le> length s"
  by (auto simp: skip_exponent_def dest!: drop_digits_length split: list.splits if_splits)

lemma skip_number_length: "skip_number s = Some r \<Longrightarrow> length r < length s"
proof -
  assume a: "skip_number s = Some r"
  define t where "t = (case s of [] \<Rightarrow> s | c # r \<Rightarrow> if c = CHR ''-'' then r else s)"
  have le: "length t \<le> length s" by (simp add: t_def split: list.split)
  from a obtain c q s1 s2 where t: "t = c # q" and f: "skip_fraction s1 = Some s2"
    and e: "skip_exponent s2 = Some r" and s1: "s1 = q \<or> is_digit c \<and> s1 = dropWhile is_digit t"
    unfolding skip_number_def t_def [symmetric] Let_def
    by (auto split: list.splits if_splits option.splits)
  from s1 have "length s1 < length t"
    by (auto simp: t le_imp_less_Suc length_dropWhile_le)
  with skip_fraction_length [OF f] skip_exponent_length [OF e] le show ?thesis by simp
qed

lemma skip_literal_length: "skip_literal s = Some r \<Longrightarrow> length r < length s"
  by (auto simp: skip_literal_def starts_with_def split: if_splits)
     (metis drop_eq_Nil list.size(3) not_le take_eq_Nil zero_neq_numeral list.distinct(1) diff_less length_drop length_greater_0_conv zero_less_numeral)+

lemmas reader_lengths =
  parse_string_length parse_uint64_length skip_number_length skip_literal_length skip_ws_Cons

lemma skip_lengths:
  "skip_value n d s = Some r \<Longrightarrow> length r < length s"
  "skip_elements n d s = Some r \<Longrightarrow> length r < length s"
  "skip_members n d ks s = Some r \<Longrightarrow> length r < length s"
proof (induction n d s and n d s and n d ks s arbitrary: r and r and r
    rule: skip_value_skip_elements_skip_members.induct)
  case (2 n d s)
  from "2.prems" obtain c q where s: "skip_ws s = c # q"
    by (auto simp: Let_def split: list.splits if_splits)
  have q: "length q < length s" by (rule skip_ws_Cons [OF s])
  show ?case
  proof (cases "c = CHR ''{'' \<or> c = CHR ''[''")
    case True
    with "2.prems" s obtain d' q' where w: "skip_ws q = d' # q'"
      by (auto simp: Let_def split: list.splits if_splits)
    with skip_ws_Cons [OF w] q "2.prems" "2.IH" True s show ?thesis
      by (force simp: Let_def split: if_splits)
  next
    case False
    with "2.prems" s have "length r < length (c # q)"
      by (auto simp: Let_def split: if_splits
          dest: parse_string_length skip_number_length skip_literal_length)
    with q show ?thesis by simp
  qed
next
  case (4 n d s)
  then obtain s1 c q where v: "skip_value n (d + 1) s = Some s1" and w: "skip_ws s1 = c # q"
    by (auto split: list.splits if_splits option.splits)
  with 4 have "length s1 < length s" by (auto split: if_splits)
  moreover have "length r \<le> length q"
    using 4 v w skip_ws_length [of q] by (force split: if_splits)
  ultimately show ?case using skip_ws_Cons [OF w] by simp
next
  case (6 n d ks s)
  then obtain k s1 c s2 s3 e q where p: "parse_string s = Some (k, s1)" and w1: "skip_ws s1 = c # s2"
    and v: "skip_value n (d + 1) s2 = Some s3" and w: "skip_ws s3 = e # q"
    by (auto split: list.splits if_splits option.splits)
  with 6 have "length s3 < length s2" by (auto split: if_splits)
  moreover have "length r \<le> length q"
    using 6 p w1 v w skip_ws_length [of q] by (force split: if_splits)
  ultimately show ?case
    using skip_ws_Cons [OF w] skip_ws_Cons [OF w1] parse_string_length [OF p] by simp
qed simp_all

section \<open>The fuel is enough\<close>

lemma skip_fuel_Suc:
  "2 * length s + 1 \<le> n \<Longrightarrow> skip_value (Suc n) d s = skip_value n d s"
  "2 * length s + 2 \<le> n \<Longrightarrow> skip_elements (Suc n) d s = skip_elements n d s"
  "2 * length s + 1 \<le> n \<Longrightarrow> skip_members (Suc n) d ks s = skip_members n d ks s"
proof (induction n d s and n d s and n d ks s rule: skip_value_skip_elements_skip_members.induct)
  case (2 n d s)
  show ?case
  proof (cases "skip_ws s")
    case (Cons c q)
    note q = skip_ws_Cons [OF Cons]
    show ?thesis
    proof (cases "skip_ws q")
      case Nil
      with Cons show ?thesis by (simp add: Let_def)
    next
      case (Cons e u)
      note c2 = \<open>skip_ws s = c # q\<close> and u = skip_ws_Cons [OF Cons]
      from u q "2.prems" "2.IH"(1) [OF _ refl c2 _ Cons] "2.IH"(2) [OF _ refl c2 _ _ Cons] c2 Cons
      show ?thesis by (auto simp del: length_Cons simp: Let_def)
    qed
  qed (simp add: Let_def)
next
  case (4 n d s)
  show ?case
  proof (cases "s = []")
    case False
    then have v: "skip_value (Suc n) (Suc d) s = skip_value n (Suc d) s"
      using 4 by (simp del: skip_value.simps)
    show ?thesis
    proof (cases "skip_value n (Suc d) s")
      case (Some s1)
      note l = skip_lengths(1) [OF Some]
      show ?thesis
      proof (cases "skip_ws s1")
        case (Cons c q)
        with 4 False Some v l skip_ws_Cons [OF Cons] skip_ws_length [of q]
        show ?thesis by (simp del: skip_value.simps)
      qed (simp add: v Some del: skip_value.simps)
    qed (simp add: v del: skip_value.simps)
  qed simp
next
  case (6 n d ks s)
  show ?case
  proof (cases "parse_string s")
    case (Some ksr)
    then obtain k s1 where p: "parse_string s = Some (k, s1)" by (cases ksr) auto
    note l1 = parse_string_length [OF p]
    show ?thesis
    proof (cases "skip_ws s1")
      case (Cons c s2)
      note w1 = this and l2 = skip_ws_Cons [OF Cons]
      show ?thesis
      proof (cases "s = [] \<or> k \<in> set ks \<or> c \<noteq> CHR '':''")
        case False
        then have v: "skip_value (Suc n) (Suc d) s2 = skip_value n (Suc d) s2"
          using 6 p w1 l1 l2 by (simp del: skip_value.simps)
        show ?thesis
        proof (cases "skip_value n (Suc d) s2")
          case (Some s3)
          note l3 = skip_lengths(1) [OF Some] and v' = this
          show ?thesis
          proof (cases "skip_ws s3")
            case (Cons e q)
            with 6 False p w1 v v' l1 l2 l3 skip_ws_Cons [OF Cons] skip_ws_length [of q]
            show ?thesis by (simp del: skip_value.simps)
          qed (simp add: p w1 v v' del: skip_value.simps)
        qed (simp add: p w1 v del: skip_value.simps)
      qed (auto simp: p w1)
    qed (simp add: p)
  qed simp
qed simp_all

lemma fuel_stable:
  fixes f :: "nat \<Rightarrow> 'a"
  assumes "\<And>n. m \<le> n \<Longrightarrow> f (Suc n) = f n" and "m \<le> n"
  shows "f n = f m"
  using assms(2) by (induction rule: dec_induct) (simp_all add: assms(1))

declare skip_value.simps [simp del] skip_elements.simps [simp del] skip_members.simps [simp del]

lemma skip_value_fuel: "skip_fuel s \<le> n \<Longrightarrow> skip_value n d s = skip_value (skip_fuel s) d s"
  by (rule fuel_stable [where f = "\<lambda>n. skip_value n d s"]) (simp_all add: skip_fuel_def skip_fuel_Suc(1))

lemma skip_members_fuel:
  "skip_fuel s \<le> n \<Longrightarrow> skip_members n d ks s = skip_members (skip_fuel s) d ks s"
  by (rule fuel_stable [where f = "\<lambda>n. skip_members n d ks s"]) (simp_all add: skip_fuel_def skip_fuel_Suc(3))

lemma skip_object_length: "skip_object s d = Some r \<Longrightarrow> length r < length s"
  by (auto simp: skip_object_def split: if_splits list.splits
      dest!: skip_lengths(3) skip_ws_Cons)

section \<open>Integers\<close>

lemma digits_loop_overflow:
  "2 ^ 64 \<le> dec_value_from v ds \<Longrightarrow> v < 2 ^ 64 \<Longrightarrow> \<forall>c \<in> set ds. is_digit c \<Longrightarrow>
     digits_loop v (ds @ r) = None"
proof (induction ds arbitrary: v)
  case (Cons c ds)
  then show ?case
    using digits_guard [of "digit_val c" v] by (auto simp: mult.commute)
qed simp

lemma digits_loop_value:
  "dec_value_from v ds < 2 ^ 64 \<Longrightarrow> \<forall>c \<in> set ds. is_digit c \<Longrightarrow>
     r = [] \<or> \<not> is_digit (hd r) \<Longrightarrow> digits_loop v (ds @ r) = Some (dec_value_from v ds, r)"
proof (induction ds arbitrary: v)
  case Nil
  then show ?case by (cases r) auto
next
  case (Cons c ds)
  have "10 * v + digit_val c < 2 ^ 64"
    using dec_value_from_ge [of "10 * v + digit_val c" ds] Cons.prems(1) by simp
  with Cons digits_guard [of "digit_val c" v] show ?case by (simp add: mult.commute)
qed

lemma digits_loop_bound: "digits_loop v s = Some (w, r) \<Longrightarrow> v < 2 ^ 64 \<Longrightarrow> w < 2 ^ 64"
proof (induction v s rule: digits_loop.induct)
  case (2 v c s)
  then show ?case using digits_guard [of "digit_val c" v] by (auto split: if_splits)
qed simp

lemma parse_uint64_bound: "parse_uint64 s = Some (v, r) \<Longrightarrow> v < 2 ^ 64"
  by (auto simp: parse_uint64_def Let_def simp del: digits_loop.simps dest: digits_loop_bound
      split: list.splits if_splits)

text \<open>No leading zero in \<^const>\<open>dec\<close>, except for zero itself.\<close>

lemma dec_hd: "0 < n \<Longrightarrow> hd (dec n) \<noteq> CHR ''0''"
proof (induction n rule: dec.induct)
  case (1 n)
  show ?case
  proof (cases "n < 10")
    case True
    with "1.prems" have "n \<in> {1, 2, 3, 4, 5, 6, 7, 8, 9}" by auto
    then show ?thesis by (subst dec.simps) (auto simp: char_of_def)
  next
    case False
    with "1.IH" show ?thesis by (subst dec.simps) simp
  qed
qed

end
