(* ===== verification/Safetensors.thy ===== *)
theory Safetensors
  imports Json FileSystem "HOL-Library.Product_Lexorder"
begin

text \<open>
  The tensor container of \<^verbatim>\<open>src/io/safetensors.cpp\<close>: the header parser, the loader object with
  its two ways to load a file, and the accessors.

  Sizes (\<^verbatim>\<open>std::size_t\<close>) are natural numbers below \<^term>\<open>2 ^ 64 :: nat\<close>; \<open>checked_add\<close> and
  \<open>checked_mul\<close> write the range tests out, and every other sum or difference of the code stays in
  range by the tests before it.  The hash map from names to tensors is an association list.
\<close>

section \<open>Sizes\<close>

definition max_header_size :: nat where "max_header_size = 100000000"
definition max_tensor_rank :: nat where "max_tensor_rank = 32"
definition size_max :: nat where "size_max = 2 ^ 64 - 1"
definition int64_max :: nat where "int64_max = 2 ^ 63 - 1"

definition checked_add :: "nat \<Rightarrow> nat \<Rightarrow> nat option" where
  "checked_add a b = (if b > size_max - a then None else Some (a + b))"

definition checked_mul :: "nat \<Rightarrow> nat \<Rightarrow> nat option" where
  "checked_mul a b = (if a \<noteq> 0 \<and> b > size_max div a then None else Some (a * b))"

definition read_u64_le :: "bytes \<Rightarrow> nat" where
  "read_u64_le d = fold (\<lambda>i v. v OR push_bit (i * 8) (of_char (d ! i))) [0..<8] 0"

section \<open>Tensors\<close>

record tensor =
  t_name :: string
  t_dtype :: string
  t_shape :: "nat list"
  t_strides :: "nat list"
  t_offset :: nat
  t_nbytes :: nat

function shape_loop :: "nat list \<Rightarrow> string \<Rightarrow> (nat list \<times> string) option" where
  "shape_loop shape s =
     (if s = [] then None
      else if length shape \<ge> max_tensor_rank then None
      else case parse_uint64 s of None \<Rightarrow> None
      | Some (dim, s1) \<Rightarrow>
        if dim > int64_max then None
        else case skip_ws s1 of [] \<Rightarrow> None
        | c # r \<Rightarrow>
          if c = CHR '']'' then Some (shape @ [dim], r)
          else if c \<noteq> CHR '','' then None
          else shape_loop (shape @ [dim]) (skip_ws r))"
  by pat_completeness auto
termination
  by (relation "measure (\<lambda>(shape, s). length s)")
     (auto dest!: parse_uint64_length skip_ws_Cons simp: le_less_trans [OF skip_ws_length])

declare shape_loop.simps [simp del]

definition parse_shape :: "string \<Rightarrow> (nat list \<times> string) option" where
  "parse_shape s = (case s of [] \<Rightarrow> None
     | c # r \<Rightarrow>
       if c \<noteq> CHR ''['' then None
       else case skip_ws r of [] \<Rightarrow> None
       | d # q \<Rightarrow> if d = CHR '']'' then Some ([], q) else shape_loop [] (d # q))"

text \<open>Skip white space and expect one character.\<close>

definition expect :: "char \<Rightarrow> string \<Rightarrow> string option" where
  "expect x s = (case skip_ws s of [] \<Rightarrow> None | c # r \<Rightarrow> if c = x then Some r else None)"

definition parse_offsets :: "string \<Rightarrow> ((nat \<times> nat) \<times> string) option" where
  "parse_offsets s = (case s of [] \<Rightarrow> None
     | c # r \<Rightarrow>
       if c \<noteq> CHR ''['' then None
       else case parse_uint64 r of None \<Rightarrow> None
       | Some (start, s1) \<Rightarrow>
         (case expect CHR '','' s1 of None \<Rightarrow> None
          | Some s2 \<Rightarrow>
            (case parse_uint64 s2 of None \<Rightarrow> None
             | Some (finish, s3) \<Rightarrow>
               (case expect CHR '']'' s3 of None \<Rightarrow> None
                | Some s4 \<Rightarrow> Some ((start, finish), s4)))))"

text \<open>What the members of a tensor object have set so far; \<^const>\<open>None\<close> is a \<^verbatim>\<open>has_...\<close> flag still false.\<close>

record fields =
  f_dtype :: "string option"
  f_shape :: "nat list option"
  f_offsets :: "(nat \<times> nat) option"

definition no_fields :: fields where
  "no_fields = \<lparr>f_dtype = None, f_shape = None, f_offsets = None\<rparr>"

definition tensor_field :: "string \<Rightarrow> fields \<Rightarrow> string \<Rightarrow> (fields \<times> string) option" where
  "tensor_field key f s =
     (if key = ''dtype'' then map_option (\<lambda>(v, r). (f\<lparr>f_dtype := Some v\<rparr>, r)) (parse_string s)
      else if key = ''shape'' then map_option (\<lambda>(v, r). (f\<lparr>f_shape := Some v\<rparr>, r)) (parse_shape s)
      else if key = ''data_offsets''
      then map_option (\<lambda>(v, r). (f\<lparr>f_offsets := Some v\<rparr>, r)) (parse_offsets s)
      else map_option (\<lambda>r. (f, r)) (skip_value (skip_fuel s) 1 s))"

text \<open>A key and its colon.\<close>

definition member_key :: "string \<Rightarrow> (string \<times> string) option" where
  "member_key s =
     (case parse_string s of None \<Rightarrow> None
      | Some (key, s1) \<Rightarrow>
        (case expect CHR '':'' s1 of None \<Rightarrow> None | Some s2 \<Rightarrow> Some (key, skip_ws s2)))"

text \<open>What follows a member: the closing brace (\<^const>\<open>True\<close>) or a comma and white space.\<close>

definition member_end :: "string \<Rightarrow> (bool \<times> string) option" where
  "member_end s =
     (case skip_ws s of [] \<Rightarrow> None
      | c # r \<Rightarrow>
        if c = CHR ''}'' then Some (True, r)
        else if c \<noteq> CHR '','' then None
        else Some (False, skip_ws r))"

lemma expect_length: "expect x s = Some r \<Longrightarrow> length r < length s"
  by (auto simp: expect_def dest!: skip_ws_Cons split: list.splits if_splits)

lemma shape_loop_length: "shape_loop sh s = Some (v, r) \<Longrightarrow> length r < length s"
proof (induction sh s rule: shape_loop.induct)
  case (1 sh s)
  from "1.prems" obtain dim s1 c q where p: "parse_uint64 s = Some (dim, s1)"
    and w: "skip_ws s1 = c # q"
    by (subst (asm) shape_loop.simps) (auto split: if_splits option.splits list.splits)
  then have l: "length q < length s" using parse_uint64_length [OF p] skip_ws_Cons [OF w] by simp
  show ?case
  proof (cases "c = CHR '']''")
    case True
    with "1.prems" p w l show ?thesis by (subst (asm) shape_loop.simps) (auto split: if_splits)
  next
    case False
    with "1.prems" "1.IH" [of "(dim, s1)", OF _ _ p refl _ w] p w have "length r < length (skip_ws q)"
      by (subst (asm) shape_loop.simps) (auto split: if_splits)
    with l skip_ws_length [of q] show ?thesis by simp
  qed
qed

lemma parse_shape_length: "parse_shape s = Some (v, r) \<Longrightarrow> length r < length s"
  by (auto simp: parse_shape_def dest!: skip_ws_Cons shape_loop_length split: list.splits if_splits)

lemma parse_offsets_length: "parse_offsets s = Some (v, r) \<Longrightarrow> length r < length s"
  by (auto simp: parse_offsets_def dest!: parse_uint64_length expect_length
      split: list.splits if_splits option.splits)

lemma tensor_field_length: "tensor_field key f s = Some (f', r) \<Longrightarrow> length r < length s"
  by (auto simp: tensor_field_def split: if_splits
      dest: parse_string_length parse_shape_length parse_offsets_length skip_lengths(1))

lemma member_key_length: "member_key s = Some (k, r) \<Longrightarrow> length r < length s"
  by (auto simp: member_key_def dest!: parse_string_length expect_length split: option.splits)
     (meson le_less_trans less_trans skip_ws_length)

lemma member_end_length: "member_end s = Some (b, r) \<Longrightarrow> length r < length s"
  by (auto simp: member_end_def dest!: skip_ws_Cons split: list.splits if_splits)
     (meson le_less_trans skip_ws_length)

text \<open>The \<^verbatim>\<open>while\<close> loop over the members of a tensor object; it also ends at the end of the input.\<close>

function tensor_members :: "string list \<Rightarrow> fields \<Rightarrow> string \<Rightarrow> (fields \<times> string) option" where
  "tensor_members keys f s =
     (if s = [] then Some (f, [])
      else case member_key s of None \<Rightarrow> None
      | Some (key, s1) \<Rightarrow>
        if key \<in> set keys then None
        else case tensor_field key f s1 of None \<Rightarrow> None
        | Some (f', s2) \<Rightarrow>
          (case member_end s2 of None \<Rightarrow> None
           | Some (closed, r) \<Rightarrow>
             if closed then Some (f', r) else tensor_members (key # keys) f' r))"
  by pat_completeness auto
termination
  by (relation "measure (\<lambda>(keys, f, s). length s)")
     (auto dest!: member_key_length tensor_field_length member_end_length)

declare tensor_members.simps [simp del]

text \<open>
  The stride loop, from the last dimension to the first: the shape reversed, the stride and the
  number of elements so far, and the strides found (of the dimensions behind).
\<close>

fun stride_loop :: "nat list \<Rightarrow> nat \<Rightarrow> nat \<Rightarrow> nat list \<Rightarrow> (nat \<times> nat list) option" where
  "stride_loop [] stride elements strides = Some (elements, strides)"
| "stride_loop (dim # rdims) stride elements strides =
     (if stride > int64_max then None
      else case checked_mul stride dim of None \<Rightarrow> None
      | Some stride' \<Rightarrow>
        (case checked_mul elements dim of None \<Rightarrow> None
         | Some elements' \<Rightarrow> stride_loop rdims stride' elements' (stride # strides)))"

definition finish_tensor ::
  "string \<Rightarrow> nat \<Rightarrow> nat \<Rightarrow> fields \<Rightarrow> (tensor \<times> (nat \<times> nat)) option" where
  "finish_tensor name data_start section f =
     (case (f_dtype f, f_shape f, f_offsets f) of
        (Some dtype, Some shape, Some (start, finish)) \<Rightarrow>
          if dtype \<noteq> ''F32'' then None
          else if start > finish \<or> finish > section then None
          else if start > size_max \<or> finish > size_max then None
          else (case stride_loop (rev shape) 4 1 [] of None \<Rightarrow> None
            | Some (elements, strides) \<Rightarrow>
              (case checked_mul elements 4 of None \<Rightarrow> None
               | Some expected \<Rightarrow>
                 if finish - start \<noteq> expected then None
                 else (case checked_add data_start start of None \<Rightarrow> None
                   | Some offset \<Rightarrow>
                     Some (\<lparr>t_name = name, t_dtype = dtype, t_shape = shape, t_strides = strides,
                            t_offset = offset, t_nbytes = expected\<rparr>, (start, finish)))))
      | _ \<Rightarrow> None)"

definition parse_tensor ::
  "string \<Rightarrow> nat \<Rightarrow> nat \<Rightarrow> string \<Rightarrow> ((tensor \<times> (nat \<times> nat)) \<times> string) option" where
  "parse_tensor name data_start section s = (case s of [] \<Rightarrow> None
     | c # r \<Rightarrow>
       if c \<noteq> CHR ''{'' then None
       else if skip_ws r \<noteq> [] \<and> hd (skip_ws r) = CHR ''}'' then None
       else case tensor_members [] no_fields (skip_ws r) of None \<Rightarrow> None
       | Some (f, q) \<Rightarrow>
         map_option (\<lambda>tr. (tr, q)) (finish_tensor name data_start section f))"

lemma tensor_members_length: "tensor_members ks f s = Some (f', r) \<Longrightarrow> length r \<le> length s"
proof (induction ks f s rule: tensor_members.induct)
  case (1 ks f s)
  show ?case
  proof (cases "s = []")
    case True
    with "1.prems" show ?thesis by (simp add: tensor_members.simps)
  next
    case False
    with "1.prems" obtain k s1 f1 s2 b q where m: "member_key s = Some (k, s1)" "k \<notin> set ks"
      and t: "tensor_field k f s1 = Some (f1, s2)" and e: "member_end s2 = Some (b, q)"
      and r: "if b then r = q else tensor_members (k # ks) f1 q = Some (f', r)"
      by (subst (asm) tensor_members.simps) (auto split: if_splits option.splits)
    have "length r \<le> length q" using r "1.IH" [OF False m(1) refl m(2) t refl e refl]
      by (auto split: if_splits)
    with member_key_length [OF m(1)] tensor_field_length [OF t] member_end_length [OF e]
    show ?thesis by simp
  qed
qed

lemma parse_tensor_length: "parse_tensor n a b s = Some (t, r) \<Longrightarrow> length r < length s"
proof -
  assume "parse_tensor n a b s = Some (t, r)"
  then obtain c q f where s: "s = c # q" and m: "tensor_members [] no_fields (skip_ws q) = Some (f, r)"
    by (auto simp: parse_tensor_def split: list.splits if_splits option.splits)
  from tensor_members_length [OF m] skip_ws_length [of q] show ?thesis by (simp add: s)
qed

section \<open>The header\<close>

record header =
  h_tensors :: "(string \<times> tensor) list"
  h_ranges :: "(nat \<times> nat) list"
  h_metadata :: bool

definition empty_header :: header where
  "empty_header = \<lparr>h_tensors = [], h_ranges = [], h_metadata = False\<rparr>"

definition metadata_key :: string where
  "metadata_key = ''__metadata__''"

definition header_member :: "nat \<Rightarrow> nat \<Rightarrow> string \<Rightarrow> header \<Rightarrow> string \<Rightarrow> (header \<times> string) option" where
  "header_member data_start section name h s =
     (if name = metadata_key
      then (if h_metadata h then None
            else map_option (\<lambda>r. (h\<lparr>h_metadata := True\<rparr>, r)) (skip_object s 1))
      else (case parse_tensor name data_start section s of None \<Rightarrow> None
        | Some ((t, rg), r) \<Rightarrow>
          if name \<in> fst ` set (h_tensors h) then None
          else Some (h\<lparr>h_tensors := h_tensors h @ [(name, t)], h_ranges := h_ranges h @ [rg]\<rparr>, r)))"

lemma header_member_length: "header_member a b n h s = Some (h', r) \<Longrightarrow> length r < length s"
  by (auto simp: header_member_def dest: skip_object_length parse_tensor_length
      split: if_splits option.splits)

text \<open>The \<^verbatim>\<open>while\<close> loop over the members of the header; it also ends at the end of the input.\<close>

function header_members :: "nat \<Rightarrow> nat \<Rightarrow> header \<Rightarrow> string \<Rightarrow> (header \<times> string) option" where
  "header_members data_start section h s =
     (if s = [] then Some (h, [])
      else case member_key s of None \<Rightarrow> None
      | Some (name, s1) \<Rightarrow>
        (case header_member data_start section name h s1 of None \<Rightarrow> None
         | Some (h', s2) \<Rightarrow>
           (case member_end s2 of None \<Rightarrow> None
            | Some (closed, r) \<Rightarrow>
              if closed then Some (h', r) else header_members data_start section h' r)))"
  by pat_completeness auto
termination
  by (relation "measure (\<lambda>(a, b, h, s). length s)")
     (auto dest!: member_key_length header_member_length member_end_length)

declare header_members.simps [simp del]

definition header_object :: "nat \<Rightarrow> nat \<Rightarrow> string \<Rightarrow> (header \<times> string) option" where
  "header_object data_start section s =
     (case skip_ws s of [] \<Rightarrow> None
      | c # r \<Rightarrow>
        if c \<noteq> CHR ''{'' then None
        else if skip_ws r \<noteq> [] \<and> hd (skip_ws r) = CHR ''}''
        then Some (empty_header, tl (skip_ws r))
        else header_members data_start section empty_header (skip_ws r))"

text \<open>The payload ranges, sorted, must tile the data section from its start to its end.\<close>

fun cover :: "nat \<Rightarrow> (nat \<times> nat) list \<Rightarrow> nat option" where
  "cover covered [] = Some covered"
| "cover covered ((a, b) # ranges) = (if a \<noteq> covered \<or> b < a then None else cover b ranges)"

definition header_bounds :: "bytes \<Rightarrow> nat option" where
  "header_bounds file =
     (if length file < 8 then None
      else let n = read_u64_le file in
        if n = 0 \<or> n > max_header_size \<or> n > length file - 8 \<or> n > size_max then None else Some n)"

definition parse_header :: "bytes \<Rightarrow> (string \<times> tensor) list option" where
  "parse_header file =
     (case header_bounds file of None \<Rightarrow> None
      | Some n \<Rightarrow>
        let data_start = 8 + n; section = length file - data_start in
        (case header_object data_start section (field file 8 n) of None \<Rightarrow> None
         | Some (h, rest) \<Rightarrow>
           if skip_ws rest \<noteq> [] then None
           else if cover 0 (sort (h_ranges h)) = Some section then Some (h_tensors h) else None))"

section \<open>The loader\<close>

record file_status =
  st_regular :: bool
  st_dev :: nat
  st_ino :: nat
  st_mode :: nat
  st_size :: int
  st_mtime :: "int \<times> int"
  st_ctime :: "int \<times> int"

record source_identity =
  si_device :: nat
  si_inode :: nat
  si_mode :: nat
  si_size :: nat
  si_modified :: "int \<times> int"
  si_changed :: "int \<times> int"

definition no_identity :: source_identity where
  "no_identity = \<lparr>si_device = 0, si_inode = 0, si_mode = 0, si_size = 0,
     si_modified = (0, 0), si_changed = (0, 0)\<rparr>"

definition checked_regular_file_size :: "file_status \<Rightarrow> nat option" where
  "checked_regular_file_size st =
     (if \<not> st_regular st \<or> st_size st < 8 \<or> nat (st_size st) > size_max then None
      else Some (nat (st_size st)))"

definition same_file_status :: "file_status \<Rightarrow> file_status \<Rightarrow> bool" where
  "same_file_status before after \<longleftrightarrow>
     st_regular after \<and> st_dev before = st_dev after \<and> st_ino before = st_ino after \<and>
     st_mode before = st_mode after \<and> st_size before = st_size after \<and>
     st_mtime before = st_mtime after \<and> st_ctime before = st_ctime after"

definition source_identity_from :: "file_status \<Rightarrow> source_identity" where
  "source_identity_from st = \<lparr>si_device = st_dev st, si_inode = st_ino st, si_mode = st_mode st,
     si_size = nat (st_size st), si_modified = st_mtime st, si_changed = st_ctime st\<rparr>"

text \<open>
  The mapping (\<^verbatim>\<open>data_\<close> with its \<^verbatim>\<open>data_size_\<close> bytes, \<^const>\<open>None\<close> for the null pointer), the size
  field, the tensors and the identity with its valid flag.
\<close>

record loader =
  ld_data :: "bytes option"
  ld_size :: nat
  ld_tensors :: "(string \<times> tensor) list"
  ld_identity :: source_identity
  ld_identity_valid :: bool

definition empty_loader :: loader where
  "empty_loader = \<lparr>ld_data = None, ld_size = 0, ld_tensors = [], ld_identity = no_identity,
     ld_identity_valid = False\<rparr>"

definition reset :: "loader \<Rightarrow> loader" where
  "reset l = l\<lparr>ld_data := None, ld_size := 0, ld_tensors := [], ld_identity := no_identity,
     ld_identity_valid := False\<rparr>"

text \<open>
  What the kernel answers to the calls of a load.  \<^verbatim>\<open>open\<close> and \<^verbatim>\<open>fstat\<close> are retried while they are
  interrupted, so the answer is their last one; \<^verbatim>\<open>mmap\<close> gives the bytes the file has under the
  mapping; each \<^verbatim>\<open>pread\<close> gives bytes, an interruption or an error.  \<open>e_throws\<close> is an allocation
  failure (\<^verbatim>\<open>std::bad_alloc\<close>, \<^verbatim>\<open>std::length_error\<close>), possible in any step before the commit.
\<close>

datatype pread_reply = Got bytes | Pread_interrupted | Pread_error

record load_env =
  e_opens :: bool
  e_before :: "file_status option"
  e_maps :: bool
  e_mapped :: bytes
  e_reads :: "pread_reply list"
  e_after :: "file_status option"
  e_protects :: bool
  e_throws :: bool

definition load :: "load_env \<Rightarrow> loader \<Rightarrow> loader \<times> bool" where
  "load e l0 =
     (let l = reset l0 in
      if e_throws e then (reset l, False)
      else if \<not> e_opens e then (l, False)
      else case e_before e of None \<Rightarrow> (l, False)
      | Some st \<Rightarrow>
        (case checked_regular_file_size st of None \<Rightarrow> (l, False)
         | Some sz \<Rightarrow>
           if \<not> e_maps e then (l, False)
           else let view = take sz (e_mapped e) in
             (case parse_header view of None \<Rightarrow> (l, False)
              | Some parsed \<Rightarrow>
                (l\<lparr>ld_tensors := parsed, ld_size := sz, ld_data := Some view\<rparr>, True))))"

definition snapshot_read_chunk :: nat where "snapshot_read_chunk = 1048576"

text \<open>The copy loop of the snapshot: \<open>copied\<close> is what was copied so far.\<close>

fun copy_loop :: "nat \<Rightarrow> bytes \<Rightarrow> pread_reply list \<Rightarrow> bytes option" where
  "copy_loop sz copied rs =
     (if length copied \<ge> sz then Some copied
      else case rs of [] \<Rightarrow> None
      | Pread_interrupted # rs' \<Rightarrow> copy_loop sz copied rs'
      | Pread_error # rs' \<Rightarrow> None
      | Got b # rs' \<Rightarrow>
        let requested = min snapshot_read_chunk (sz - length copied); got = take requested b in
        if got = [] then None else copy_loop sz (copied @ got) rs')"

declare copy_loop.simps [simp del]

definition load_snapshot :: "load_env \<Rightarrow> nat \<Rightarrow> loader \<Rightarrow> loader \<times> bool" where
  "load_snapshot e max_bytes l0 =
     (let l = reset l0 in
      if e_throws e then (reset l, False)
      else if \<not> e_opens e then (l, False)
      else case e_before e of None \<Rightarrow> (l, False)
      | Some before \<Rightarrow>
        (case checked_regular_file_size before of None \<Rightarrow> (l, False)
         | Some sz \<Rightarrow>
           if sz > max_bytes then (l, False)
           else if \<not> e_maps e then (l, False)
           else case copy_loop sz [] (e_reads e) of None \<Rightarrow> (l, False)
           | Some view \<Rightarrow>
             (case e_after e of None \<Rightarrow> (l, False)
              | Some after \<Rightarrow>
                if \<not> same_file_status before after \<or> \<not> e_protects e then (l, False)
                else case parse_header view of None \<Rightarrow> (l, False)
                | Some parsed \<Rightarrow>
                  (l\<lparr>ld_tensors := parsed, ld_identity := source_identity_from after,
                     ld_identity_valid := True, ld_size := sz, ld_data := Some view\<rparr>, True))))"

definition get_tensor :: "loader \<Rightarrow> string \<Rightarrow> tensor option" where
  "get_tensor l name = map_of (ld_tensors l) name"

definition tensor_names :: "loader \<Rightarrow> string list" where
  "tensor_names l = map fst (ld_tensors l)"

text \<open>The pointer \<^verbatim>\<open>data(name)\<close> is an offset into the mapping.\<close>

definition data_ptr :: "loader \<Rightarrow> string \<Rightarrow> nat option" where
  "data_ptr l name =
     (case get_tensor l name of None \<Rightarrow> None
      | Some t \<Rightarrow>
        if ld_data l = None \<or> t_offset t > ld_size l \<or> t_nbytes t > ld_size l - t_offset t then None
        else Some (t_offset t))"

definition is_valid :: "loader \<Rightarrow> bool" where
  "is_valid l \<longleftrightarrow> ld_data l \<noteq> None"

definition source_identity :: "loader \<Rightarrow> source_identity option" where
  "source_identity l = (if ld_identity_valid l then Some (ld_identity l) else None)"

text \<open>
  The move constructor and the move assignment: what is left in the moved-from map is unspecified,
  hence the parameter \<open>remains\<close>.  The results are the target and the source.
\<close>

definition move_from :: "(string \<times> tensor) list \<Rightarrow> loader \<Rightarrow> loader \<times> loader" where
  "move_from remains other =
     (\<lparr>ld_data = ld_data other, ld_size = ld_size other, ld_tensors = ld_tensors other,
       ld_identity = ld_identity other, ld_identity_valid = ld_identity_valid other\<rparr>,
      other\<lparr>ld_data := None, ld_size := 0, ld_tensors := remains, ld_identity_valid := False\<rparr>)"

definition move_assign :: "(string \<times> tensor) list \<Rightarrow> bool \<Rightarrow> loader \<Rightarrow> loader \<Rightarrow> loader \<times> loader" where
  "move_assign remains same this other =
     (if same then (this, this)
      else let t = reset this in
        (t\<lparr>ld_data := ld_data other, ld_size := ld_size other, ld_tensors := ld_tensors other,
           ld_identity := ld_identity other, ld_identity_valid := ld_identity_valid other\<rparr>,
         other\<lparr>ld_data := None, ld_size := 0, ld_tensors := remains, ld_identity_valid := False\<rparr>))"

end
