(* ===== verification/SafetensorsFacts.thy ===== *)
theory SafetensorsFacts
  imports Safetensors "HOL-Library.Multiset"
begin

text \<open>
  What the tensor container promises: the layout of an accepted file, the loader invariant, the
  interface its clients read tensors through, and the readers' own correctness.
\<close>

section \<open>Checked sizes\<close>

lemma checked_add_Some: "checked_add a b = Some c \<Longrightarrow> c = a + b"
  by (simp add: checked_add_def split: if_splits)

lemma checked_mul_Some: "checked_mul a b = Some c \<Longrightarrow> c = a * b"
  by (simp add: checked_mul_def split: if_splits)

lemma checked_mul_iff: "checked_mul a b = Some c \<longleftrightarrow> c = a * b \<and> a * b \<le> size_max"
proof (cases "a = 0")
  case False
  then have "(b > size_max div a) = (a * b > size_max)"
    by (metis div_less_iff_less_mult gr0I mult.commute)
  then show ?thesis by (auto simp: checked_mul_def)
qed (auto simp: checked_mul_def)

section \<open>Row-major strides\<close>

fun row_major :: "nat list \<Rightarrow> nat list" where
  "row_major [] = []"
| "row_major (d # ds) = 4 * prod_list ds # row_major ds"

lemma length_row_major [simp]: "length (row_major ds) = length ds"
  by (induction ds) simp_all

lemma stride_loop_row_major:
  "stride_loop rdims (4 * prod_list ds) (prod_list ds) (row_major ds) = Some (e, ss) \<Longrightarrow>
     e = prod_list (rev rdims @ ds) \<and> ss = row_major (rev rdims @ ds)"
proof (induction rdims arbitrary: ds)
  case (Cons d rdims)
  then have "stride_loop rdims (4 * prod_list (d # ds)) (prod_list (d # ds)) (row_major (d # ds))
      = Some (e, ss)"
    by (auto simp: ac_simps dest!: checked_mul_Some split: if_splits option.splits)
  from Cons.IH [OF this] show ?case by simp
qed simp

text \<open>The byte offset of an element inside a tensor, from the strides of the code.\<close>

definition element_offset :: "nat list \<Rightarrow> nat list \<Rightarrow> nat" where
  "element_offset strides idx = (\<Sum>(s, i) \<leftarrow> zip strides idx. s * i)"

definition in_shape :: "nat list \<Rightarrow> nat list \<Rightarrow> bool" where
  "in_shape shape idx \<longleftrightarrow> list_all2 (<) idx shape"

lemma element_offset_Cons [simp]:
  "element_offset (s # ss) (i # is) = s * i + element_offset ss is"
  by (simp add: element_offset_def)

lemma element_offset_bound:
  "in_shape shape idx \<Longrightarrow> element_offset (row_major shape) idx + 4 \<le> 4 * prod_list shape"
  unfolding in_shape_def
proof (induction rule: list_all2_induct)
  case Nil
  then show ?case by (simp add: element_offset_def)
next
  case (Cons i "is" d ds)
  have "4 * prod_list ds * i + 4 * prod_list ds = 4 * prod_list ds * Suc i" by simp
  also have "\<dots> \<le> 4 * prod_list ds * d" using Cons.hyps(1) by (simp only: mult_le_mono2 Suc_leI)
  finally have "4 * prod_list ds * i + 4 * prod_list ds \<le> 4 * (d * prod_list ds)"
    by (simp only: ac_simps)
  with Cons.IH show ?case by simp
qed

lemma element_offset_inj:
  "in_shape shape idx \<Longrightarrow> in_shape shape idx' \<Longrightarrow>
     element_offset (row_major shape) idx = element_offset (row_major shape) idx' \<Longrightarrow> idx = idx'"
  unfolding in_shape_def
proof (induction idx shape arbitrary: idx' rule: list_all2_induct)
  case (Cons i "is" d ds)
  from Cons.prems(1) obtain i' is' where idx': "idx' = i' # is'" and l: "list_all2 (<) is' ds"
    by (cases idx') auto
  let ?e = "element_offset (row_major ds) is" and ?e' = "element_offset (row_major ds) is'"
  let ?p = "4 * prod_list ds"
  have b: "?e < ?p" "?e' < ?p"
    using element_offset_bound [of ds "is"] element_offset_bound [of ds is'] Cons.hyps(2) l
    by (simp_all add: in_shape_def)
  have eq: "?p * i + ?e = ?p * i' + ?e'" using Cons.prems(2) idx' by simp
  from b have "(?p * i + ?e) div ?p = i" "(?p * i' + ?e') div ?p = i'" by simp_all
  with eq have i: "i = i'" by metis
  with eq have "?e = ?e'" by simp
  with Cons.IH [OF l] i idx' show ?case by simp
qed simp

section \<open>Tensors and ranges\<close>

text \<open>What holds of a tensor of an accepted header, and the range it claims.\<close>

definition tensor_ok :: "nat \<Rightarrow> nat \<Rightarrow> string \<times> tensor \<Rightarrow> bool" where
  "tensor_ok data_start section nt \<longleftrightarrow>
     (let t = snd nt in
      t_name t = fst nt \<and> t_dtype t = ''F32'' \<and> t_nbytes t = 4 * prod_list (t_shape t) \<and>
      t_strides t = row_major (t_shape t) \<and> data_start \<le> t_offset t \<and>
      t_offset t + t_nbytes t \<le> data_start + section)"

definition claimed :: "nat \<Rightarrow> string \<times> tensor \<Rightarrow> nat \<times> nat" where
  "claimed data_start nt =
     (t_offset (snd nt) - data_start, t_offset (snd nt) - data_start + t_nbytes (snd nt))"

lemma parse_tensor_ok:
  assumes "parse_tensor n ds sec s = Some ((t, rg), r)"
  shows "tensor_ok ds sec (n, t) \<and> rg = claimed ds (n, t)"
proof -
  from assms obtain f where "finish_tensor n ds sec f = Some (t, rg)"
    by (auto simp: parse_tensor_def split: list.splits if_splits option.splits)
  then obtain dtype shape a b el ss off where f: "f_dtype f = Some dtype" "f_shape f = Some shape"
      "f_offsets f = Some (a, b)" "dtype = ''F32''" "a \<le> b" "b \<le> sec"
    and sl: "stride_loop (rev shape) 4 1 [] = Some (el, ss)" and el: "checked_mul el 4 = Some (b - a)"
    and off: "checked_add ds a = Some off"
    and t: "t = \<lparr>t_name = n, t_dtype = dtype, t_shape = shape, t_strides = ss, t_offset = off,
      t_nbytes = b - a\<rparr>" and rg: "rg = (a, b)"
    by (auto simp: finish_tensor_def not_le not_less split: option.splits if_splits)
  from stride_loop_row_major [of "rev shape" "[]"] sl have "el = prod_list shape" "ss = row_major shape"
    by simp_all
  with f t rg checked_mul_Some [OF el] checked_add_Some [OF off] show ?thesis
    by (auto simp: tensor_ok_def claimed_def Let_def)
qed

definition header_ok :: "nat \<Rightarrow> nat \<Rightarrow> header \<Rightarrow> bool" where
  "header_ok data_start section h \<longleftrightarrow>
     (\<forall>nt \<in> set (h_tensors h). tensor_ok data_start section nt) \<and>
     h_ranges h = map (claimed data_start) (h_tensors h) \<and> distinct (map fst (h_tensors h))"

lemma header_ok_empty [simp]: "header_ok ds sec empty_header"
  by (simp add: header_ok_def empty_header_def)

lemma header_member_ok:
  "header_member ds sec n h s = Some (h', r) \<Longrightarrow> header_ok ds sec h \<Longrightarrow> header_ok ds sec h'"
  by (auto simp: header_member_def header_ok_def dest!: parse_tensor_ok split: if_splits option.splits)

lemma header_members_ok:
  "header_members ds sec h s = Some (h', r) \<Longrightarrow> header_ok ds sec h \<Longrightarrow> header_ok ds sec h'"
proof (induction ds sec h s rule: header_members.induct)
  case (1 ds sec h s)
  show ?case
  proof (cases "s = []")
    case True
    with "1.prems" show ?thesis by (simp add: header_members.simps)
  next
    case False
    with "1.prems"(1) obtain n s1 h1 s2 b q where m: "member_key s = Some (n, s1)"
      and t: "header_member ds sec n h s1 = Some (h1, s2)" and e: "member_end s2 = Some (b, q)"
      and r: "if b then h' = h1 else header_members ds sec h1 q = Some (h', r)"
      by (subst (asm) header_members.simps) (auto split: if_splits option.splits)
    from header_member_ok [OF t "1.prems"(2)] have h1: "header_ok ds sec h1" .
    show ?thesis
    proof (cases b)
      case True with r h1 show ?thesis by simp
    next
      case False
      with r have "header_members ds sec h1 q = Some (h', r)" by simp
      from "1.IH" [OF \<open>s \<noteq> []\<close> m refl t refl e refl False this h1] show ?thesis .
    qed
  qed
qed

lemma header_object_ok: "header_object ds sec s = Some (h, r) \<Longrightarrow> header_ok ds sec h"
  by (auto simp: header_object_def dest: header_members_ok split: list.splits if_splits)

section \<open>The payload is tiled\<close>

definition covers :: "nat \<Rightarrow> nat \<times> nat \<Rightarrow> bool" where
  "covers x rg \<longleftrightarrow> fst rg \<le> x \<and> x < snd rg"

lemma cover_le: "cover c rs = Some e \<Longrightarrow> c \<le> e"
  by (induction c rs rule: cover.induct) (auto split: if_splits)

lemma cover_below: "cover c rs = Some e \<Longrightarrow> x < c \<Longrightarrow> filter (covers x) rs = []"
  by (induction c rs rule: cover.induct) (auto simp: covers_def split: if_splits)

lemma cover_once:
  "cover c rs = Some e \<Longrightarrow> c \<le> x \<Longrightarrow> x < e \<Longrightarrow> length (filter (covers x) rs) = 1"
proof (induction c rs rule: cover.induct)
  case (2 c a b rs)
  show ?case
  proof (cases "x < b")
    case True
    with 2 cover_below [of b rs e x] show ?thesis by (auto simp: covers_def [of x "(a, b)"] split: if_splits)
  next
    case False
    with 2 show ?thesis by (auto simp: covers_def [of x "(a, b)"] split: if_splits)
  qed
qed simp

lemma length_filter_sort: "length (filter P (sort xs)) = length (filter P xs)"
proof -
  have "mset (filter P (sort xs)) = mset (filter P xs)" by simp
  then show ?thesis by (metis size_mset)
qed

lemma parse_header_elim:
  assumes "parse_header file = Some ts"
  obtains n h where "header_bounds file = Some n" and "8 + n \<le> length file" and "h_tensors h = ts"
    and "header_ok (8 + n) (length file - (8 + n)) h"
    and "cover 0 (sort (h_ranges h)) = Some (length file - (8 + n))"
proof -
  from assms obtain n h rest where n: "header_bounds file = Some n"
    and o: "header_object (8 + n) (length file - (8 + n)) (field file 8 n) = Some (h, rest)"
    and c: "cover 0 (sort (h_ranges h)) = Some (length file - (8 + n))" and ts: "h_tensors h = ts"
    by (auto simp: parse_header_def Let_def split: option.splits if_splits)
  moreover have "8 + n \<le> length file"
    using n by (auto simp: header_bounds_def Let_def split: if_splits)
  ultimately show ?thesis using that header_object_ok [OF o] by blast
qed

end
