(* ===== verification/SafetensorsContract.thy ===== *)
theory SafetensorsContract
  imports SafetensorsFacts
begin

text \<open>
  The loader's invariant, the interface of its clients (a locale interpreted on the loader), and
  the properties of the tensor container.
\<close>

section \<open>The loader's invariant\<close>

text \<open>Either nothing is loaded, or the tensors are those of the mapped bytes.\<close>

definition loader_ok :: "loader \<Rightarrow> bool" where
  "loader_ok l \<longleftrightarrow>
     (case ld_data l of
        None \<Rightarrow> ld_size l = 0 \<and> source_identity l = None
      | Some view \<Rightarrow> length view = ld_size l \<and> parse_header view = Some (ld_tensors l))"

text \<open>The kernel maps as many bytes as it said the file has.\<close>

definition maps_whole_file :: "load_env \<Rightarrow> bool" where
  "maps_whole_file e \<longleftrightarrow>
     (case e_before e of None \<Rightarrow> True | Some st \<Rightarrow> nat (st_size st) \<le> length (e_mapped e))"

lemma reset_empty: "reset l = empty_loader"
  by (simp add: reset_def empty_loader_def)

lemma loader_ok_empty [simp]: "loader_ok empty_loader"
  by (simp add: loader_ok_def empty_loader_def source_identity_def)

lemma checked_size: "checked_regular_file_size st = Some n \<Longrightarrow> n = nat (st_size st) \<and> 8 \<le> n"
  by (auto simp: checked_regular_file_size_def split: if_splits)

lemma load_cases:
  "load e l0 = (l, ok) \<Longrightarrow> maps_whole_file e \<Longrightarrow>
     (if ok then loader_ok l \<and> is_valid l else l = empty_loader)"
  by (auto simp: load_def Let_def reset_empty maps_whole_file_def is_valid_def loader_ok_def
      empty_loader_def dest!: checked_size split: if_splits option.splits)

lemma copy_loop_length:
  "copy_loop sz c rs = Some v \<Longrightarrow> length c \<le> sz \<Longrightarrow> length v = sz"
proof (induction sz c rs rule: copy_loop.induct)
  case (1 sz c rs)
  show ?case
  proof (cases "length c \<ge> sz")
    case True
    with "1.prems" show ?thesis by (subst (asm) copy_loop.simps) simp
  next
    case False
    show ?thesis
    proof (cases rs)
      case Nil with False "1.prems" show ?thesis by (subst (asm) copy_loop.simps) simp
    next
      case (Cons a rs')
      show ?thesis
      proof (cases a)
        case (Got b)
        with False Cons "1.prems" "1.IH"(1) [OF False Cons Got] show ?thesis
          by (subst (asm) copy_loop.simps) (auto simp: Let_def split: if_splits)
      qed (use False Cons "1.prems" "1.IH"(2) [OF False Cons] in \<open>subst (asm) copy_loop.simps, auto\<close>)+
    qed
  qed
qed

lemma load_snapshot_cases:
  "load_snapshot e m l0 = (l, ok) \<Longrightarrow>
     (if ok then loader_ok l \<and> is_valid l \<and> ld_size l \<le> m else l = empty_loader)"
  by (auto simp: load_snapshot_def Let_def reset_empty is_valid_def loader_ok_def
      empty_loader_def dest!: checked_size copy_loop_length split: if_splits option.splits)

lemma move_ok: "loader_ok l \<Longrightarrow> move_from rem l = (t, s) \<Longrightarrow> t = l \<and> loader_ok s"
  by (auto simp: move_from_def loader_ok_def source_identity_def)

lemma move_assign_ok:
  "loader_ok this \<Longrightarrow> loader_ok other \<Longrightarrow> move_assign rem same this other = (t, s) \<Longrightarrow>
     loader_ok t \<and> loader_ok s"
  by (cases same; cases "ld_data other")
     (auto simp: move_assign_def loader_ok_def source_identity_def Let_def)

section \<open>The clients' interface\<close>

text \<open>
  A client asks for a tensor and for its bytes, and computes element addresses from the strides.
\<close>

locale tensor_source =
  fixes find :: "'s \<Rightarrow> string \<Rightarrow> tensor option"
    and ptr :: "'s \<Rightarrow> string \<Rightarrow> nat option"
    and extent :: "'s \<Rightarrow> nat"
    and ready :: "'s \<Rightarrow> bool"
  assumes ptr_offset: "ready s \<Longrightarrow> find s n = Some t \<Longrightarrow> ptr s n = Some (t_offset t)"
    and inside: "ready s \<Longrightarrow> find s n = Some t \<Longrightarrow> t_offset t + t_nbytes t \<le> extent s"
    and dense: "ready s \<Longrightarrow> find s n = Some t \<Longrightarrow>
      t_nbytes t = 4 * prod_list (t_shape t) \<and> t_strides t = row_major (t_shape t)"
    and apart: "ready s \<Longrightarrow> find s n = Some t \<Longrightarrow> find s n' = Some t' \<Longrightarrow> n \<noteq> n' \<Longrightarrow>
      t_offset t + t_nbytes t \<le> t_offset t' \<or> t_offset t' + t_nbytes t' \<le> t_offset t \<or>
      t_nbytes t = 0 \<or> t_nbytes t' = 0"
begin

definition element_address :: "'s \<Rightarrow> string \<Rightarrow> nat list \<Rightarrow> nat option" where
  "element_address s n idx =
     (case (ptr s n, find s n) of
        (Some p, Some t) \<Rightarrow> Some (p + element_offset (t_strides t) idx)
      | _ \<Rightarrow> None)"

lemma address_Some:
  "ready s \<Longrightarrow> find s n = Some t \<Longrightarrow>
     element_address s n idx = Some (t_offset t + element_offset (row_major (t_shape t)) idx)"
  using ptr_offset [of s n t] dense [of s n t] by (simp add: element_address_def)

lemma address_in_tensor:
  assumes "ready s" "find s n = Some t" "in_shape (t_shape t) idx" "element_address s n idx = Some a"
  shows "t_offset t \<le> a \<and> a + 4 \<le> t_offset t + t_nbytes t"
  using element_offset_bound [OF assms(3)] address_Some [OF assms(1,2), of idx] assms(4)
    dense [OF assms(1,2)] by simp

lemma address_in_extent:
  "ready s \<Longrightarrow> find s n = Some t \<Longrightarrow> in_shape (t_shape t) idx \<Longrightarrow>
     element_address s n idx = Some a \<Longrightarrow> a + 4 \<le> extent s"
  using address_in_tensor [of s n t idx a] inside [of s n t] by simp

lemma addresses_distinct:
  assumes "ready s" "find s n = Some t" "find s n' = Some t'"
    and i: "in_shape (t_shape t) idx" "in_shape (t_shape t') idx'"
    and a: "element_address s n idx = Some a" "element_address s n' idx' = Some a'"
    and ne: "(n, idx) \<noteq> (n', idx')"
  shows "a + 4 \<le> a' \<or> a' + 4 \<le> a \<or> n = n' \<and> a \<noteq> a'"
proof (cases "n = n'")
  case True
  with assms have "t = t'" and "idx \<noteq> idx'" by auto
  with True element_offset_inj [of "t_shape t" idx idx'] i a address_Some [OF assms(1,2), of idx]
    address_Some [OF assms(1,3), of idx'] show ?thesis by auto
next
  case False
  from address_in_tensor [OF assms(1,2) i(1) a(1)] address_in_tensor [OF assms(1,3) i(2) a(2)]
    apart [OF assms(1-3) False] show ?thesis by linarith
qed

end

lemma get_tensor_ok:
  assumes "loader_ok l" "is_valid l" "get_tensor l n = Some t"
  shows "\<exists>v ds. ld_data l = Some v \<and> length v = ld_size l \<and> ds \<le> ld_size l \<and>
    tensor_ok ds (ld_size l - ds) (n, t)"
proof -
  from assms obtain v where v: "ld_data l = Some v" "length v = ld_size l"
      "parse_header v = Some (ld_tensors l)"
    by (auto simp: loader_ok_def is_valid_def)
  from v(3) obtain k h where "8 + k \<le> length v" "h_tensors h = ld_tensors l"
      "header_ok (8 + k) (length v - (8 + k)) h" by (rule parse_header_elim)
  moreover have "(n, t) \<in> set (ld_tensors l)" using assms(3) by (auto simp: get_tensor_def map_of_SomeD)
  ultimately show ?thesis using v by (auto simp: header_ok_def)
qed

lemma cover_mem: "cover c rs = Some e \<Longrightarrow> rg \<in> set rs \<Longrightarrow> covers x rg \<Longrightarrow> x < e"
proof (induction c rs rule: cover.induct)
  case (2 c a b rs)
  then have "cover b rs = Some e" by (simp split: if_splits)
  with 2 cover_le [of b rs e] show ?case by (auto simp: covers_def split: if_splits)
qed simp

text \<open>Two ranges of a tiled list do not overlap.\<close>

lemma tiled_apart:
  assumes "cover 0 (sort rs) = Some e" "i < length rs" "j < length rs" "i \<noteq> j"
    and x: "covers x (rs ! i)" "covers x (rs ! j)"
  shows False
proof -
  from cover_mem [OF assms(1), of "rs ! i" x] assms(2) x(1) have "x < e" by simp
  from cover_once [OF assms(1) le0 this] have one: "length (filter (covers x) rs) = 1"
    by (simp only: length_filter_sort)
  have "card {k. k < length rs \<and> covers x (rs ! k)} = 1"
    using one by (simp add: length_filter_conv_card)
  then obtain z where z: "{k. k < length rs \<and> covers x (rs ! k)} = {z}" by (rule card_1_singletonE)
  have "i \<in> {k. k < length rs \<and> covers x (rs ! k)}" "j \<in> {k. k < length rs \<and> covers x (rs ! k)}"
    using assms(2,3) x by simp_all
  then show False using assms(4) by (simp only: z) simp
qed

lemma tensors_apart:
  assumes "loader_ok l" "is_valid l" "get_tensor l n = Some t" "get_tensor l n' = Some t'" "n \<noteq> n'"
    and pos: "0 < t_nbytes t" "0 < t_nbytes t'"
  shows "t_offset t + t_nbytes t \<le> t_offset t' \<or> t_offset t' + t_nbytes t' \<le> t_offset t"
proof (rule ccontr)
  assume overlap: "\<not> ?thesis"
  from assms obtain v where "parse_header v = Some (ld_tensors l)"
    by (auto simp: loader_ok_def is_valid_def)
  then obtain k h where h: "h_tensors h = ld_tensors l" and ok: "header_ok (8 + k) (length v - (8 + k)) h"
    and c: "cover 0 (sort (h_ranges h)) = Some (length v - (8 + k))" by (rule parse_header_elim)
  have "(n, t) \<in> set (ld_tensors l)" "(n', t') \<in> set (ld_tensors l)"
    using assms by (auto simp: get_tensor_def map_of_SomeD)
  then obtain i j where ij: "i < length (ld_tensors l)" "j < length (ld_tensors l)"
      "ld_tensors l ! i = (n, t)" "ld_tensors l ! j = (n', t')" by (metis in_set_conv_nth)
  let ?ds = "8 + k"
  have ge: "?ds \<le> t_offset t" "?ds \<le> t_offset t'"
    using ok h ij nth_mem by (force simp: header_ok_def tensor_ok_def Let_def)+
  have r: "h_ranges h ! i = claimed ?ds (n, t)" "h_ranges h ! j = claimed ?ds (n', t')"
    using ok h ij by (simp_all add: header_ok_def)
  let ?x = "max (t_offset t) (t_offset t') - ?ds"
  have "covers ?x (h_ranges h ! i)" "covers ?x (h_ranges h ! j)"
    using overlap ge pos by (auto simp: r covers_def claimed_def)
  moreover have "i \<noteq> j" using ij assms(5) by auto
  moreover have "length (h_ranges h) = length (ld_tensors l)" using ok h by (simp add: header_ok_def)
  ultimately show False using tiled_apart [OF c, of i j ?x] ij by simp
qed

interpretation st: tensor_source get_tensor data_ptr ld_size "\<lambda>l. loader_ok l \<and> is_valid l"
proof
  fix l n t assume a: "loader_ok l \<and> is_valid l" "get_tensor l n = Some t"
  then obtain v ds where v: "ld_data l = Some v" "length v = ld_size l" "ds \<le> ld_size l"
    and t: "tensor_ok ds (ld_size l - ds) (n, t)" using get_tensor_ok by blast
  then show i: "t_offset t + t_nbytes t \<le> ld_size l" by (simp add: tensor_ok_def Let_def)
  show "data_ptr l n = Some (t_offset t)" using a i v(1) by (simp add: data_ptr_def)
  show "t_nbytes t = 4 * prod_list (t_shape t) \<and> t_strides t = row_major (t_shape t)"
    using t by (simp add: tensor_ok_def Let_def)
next
  fix l n t n' t'
  assume "loader_ok l \<and> is_valid l" "get_tensor l n = Some t" "get_tensor l n' = Some t'" "n \<noteq> n'"
  then show "t_offset t + t_nbytes t \<le> t_offset t' \<or> t_offset t' + t_nbytes t' \<le> t_offset t \<or>
      t_nbytes t = 0 \<or> t_nbytes t' = 0"
    using tensors_apart [of l n t n' t'] by blast
qed

section \<open>A sample file\<close>

definition quoted :: "string \<Rightarrow> string" where
  "quoted s = [CHR 0x22] @ s @ [CHR 0x22]"

definition sample_text :: string where
  "sample_text = ''{'' @ quoted ''a'' @ '':{'' @ quoted ''dtype'' @ '':'' @ quoted ''F32'' @ '','' @
     quoted ''shape'' @ '':[2],'' @ quoted ''data_offsets'' @ '':[0,8]}}''"

definition length_prefix :: "nat \<Rightarrow> bytes" where
  "length_prefix n = map (\<lambda>i. char_of (n div 256 ^ i mod 256)) [0, 1, 2, 3, 4, 5, 6, 7]"

definition file_of :: "string \<Rightarrow> bytes \<Rightarrow> bytes" where
  "file_of text payload = length_prefix (length text) @ text @ payload"

definition sample_file :: bytes where
  "sample_file = file_of sample_text
     [CHR 0x00, CHR 0x00, CHR 0x80, CHR 0x3F, CHR 0x00, CHR 0x00, CHR 0x00, CHR 0xC0]"

definition sample_tensor :: tensor where
  "sample_tensor = \<lparr>t_name = ''a'', t_dtype = ''F32'', t_shape = [2], t_strides = [4],
     t_offset = 62, t_nbytes = 8\<rparr>"

definition sample_env :: load_env where
  "sample_env = (let st = \<lparr>st_regular = True, st_dev = 1, st_ino = 2, st_mode = 3, st_size = 70,
       st_mtime = (4, 5), st_ctime = (6, 7)\<rparr> in
     \<lparr>e_opens = True, e_before = Some st, e_maps = True, e_mapped = sample_file,
      e_reads = [Got sample_file], e_after = Some st, e_protects = True, e_throws = False\<rparr>)"

named_theorems reader \<open>the readers' defining equations, for evaluation on given text\<close>

lemmas [reader] =
  header_object_def skip_ws_def is_ws_def header_members.simps member_key_def parse_string_def
  expect_def header_member_def metadata_key_def parse_tensor_def tensor_members.simps
  tensor_field_def shape_loop.simps parse_shape_def parse_offsets_def parse_uint64_def is_digit_def
  digit_val_def member_end_def finish_tensor_def checked_mul_def checked_add_def size_max_def
  int64_max_def max_tensor_rank_def no_fields_def empty_header_def skip_object_def max_json_depth_def

lemma sample_length [simp]: "length sample_text = 54"
  by (simp add: sample_text_def quoted_def)

lemma length_prefix_8 [simp]: "length (length_prefix n) = 8"
  by (simp add: length_prefix_def)

lemma read_length [simp]: "n < 256 \<Longrightarrow> read_u64_le (length_prefix n @ r) = n"
  by (simp add: length_prefix_def read_u64_le_def upt_rec del: upt_rec_numeral)

lemma file_bounds: "0 < length text \<Longrightarrow> length text < 256 \<Longrightarrow> header_bounds (file_of text p) = Some (length text)"
  by (simp add: header_bounds_def file_of_def Let_def max_header_size_def size_max_def)

lemma file_field: "field (file_of text p) 8 (length text) = text"
  by (simp add: field_def file_of_def)

lemma length_file_of [simp]: "length (file_of text p) = 8 + length text + length p"
  by (simp add: file_of_def)

lemma parse_file_of:
  "0 < length text \<Longrightarrow> length text < 256 \<Longrightarrow> parse_header (file_of text p) =
     (case header_object (8 + length text) (length p) text of None \<Rightarrow> None
      | Some (h, rest) \<Rightarrow> if skip_ws rest \<noteq> [] then None
          else if cover 0 (sort (h_ranges h)) = Some (length p) then Some (h_tensors h) else None)"
  by (simp only: parse_header_def file_bounds option.case Let_def length_file_of file_field
      diff_add_inverse)

lemma sample_parsed [simp]: "parse_header sample_file = Some [(''a'', sample_tensor)]"
  unfolding sample_file_def
  by (subst parse_file_of)
     (simp_all add: sample_text_def quoted_def sample_tensor_def reader eval_nat_numeral(2) [symmetric]
        del: One_nat_def)

lemma sample_size [simp]: "length sample_file = 70" "sample_file \<noteq> []"
  by (simp_all add: sample_file_def file_of_def sample_text_def quoted_def)

section \<open>Properties\<close>

text \<open>C8: A file whose header is accepted has distinct tensor names; every tensor is a 32-bit
  float tensor whose byte count and row-major strides are those of its shape and whose bytes lie
  in the data section; and every byte of the data section belongs to exactly one tensor.\<close>

theorem accepted_file_layout:
  assumes "parse_header file = Some ts"
  shows "distinct (map fst ts) \<and>
    (\<exists>n. header_bounds file = Some n \<and>
      (\<forall>nt \<in> set ts. tensor_ok (8 + n) (length file - (8 + n)) nt) \<and>
      (\<forall>x. 8 + n \<le> x \<and> x < length file \<longrightarrow>
        length (filter (\<lambda>(_, t). t_offset t \<le> x \<and> x < t_offset t + t_nbytes t) ts) = 1))"
proof -
  from assms obtain n h where n: "header_bounds file = Some n" "8 + n \<le> length file"
    and h: "h_tensors h = ts" "header_ok (8 + n) (length file - (8 + n)) h"
    and c: "cover 0 (sort (h_ranges h)) = Some (length file - (8 + n))" by (rule parse_header_elim)
  have "length (filter (\<lambda>(_, t). t_offset t \<le> x \<and> x < t_offset t + t_nbytes t) ts) = 1"
    if x: "8 + n \<le> x" "x < length file" for x
  proof -
    have "length (filter (covers (x - (8 + n))) (h_ranges h)) = 1"
      using cover_once [OF c, of "x - (8 + n)"] x by (simp only: length_filter_sort)
    moreover have "covers (x - (8 + n)) (claimed (8 + n) nt) \<longleftrightarrow>
        t_offset (snd nt) \<le> x \<and> x < t_offset (snd nt) + t_nbytes (snd nt)" if "nt \<in> set ts" for nt
      using that h x by (auto simp: header_ok_def tensor_ok_def Let_def covers_def claimed_def)
    ultimately show ?thesis
      using h by (simp add: header_ok_def filter_map comp_def case_prod_beta cong: filter_cong)
  qed
  with n h show ?thesis by (auto simp: header_ok_def)
qed

theorem accepted_file_layout_witness:
  "distinct (map fst [(''a'', sample_tensor)]) \<and> (\<exists>n. header_bounds sample_file = Some n)"
  using accepted_file_layout [OF sample_parsed] by blast

text \<open>C9: Loading a file either way, from any state of the loader and whatever the kernel answers,
  keeps the loader's invariant; a load that fails leaves the empty loader (no data, no tensors, no
  identity), one that succeeds a valid loader; a snapshot respects the caller's bound; moving a
  loader moves its state and leaves both sides consistent.\<close>

theorem loads_keep_invariant:
  assumes "maps_whole_file e"
  shows "(case load e l0 of (l, ok) \<Rightarrow> loader_ok l \<and> (if ok then is_valid l else l = empty_loader)) \<and>
    (case load_snapshot e m l0 of (l, ok) \<Rightarrow> loader_ok l \<and>
       (if ok then is_valid l \<and> ld_size l \<le> m else l = empty_loader)) \<and>
    (loader_ok l0 \<longrightarrow> (case move_from remains l0 of (t, s) \<Rightarrow> t = l0 \<and> loader_ok s)) \<and>
    (loader_ok l0 \<and> loader_ok l1 \<longrightarrow>
       (case move_assign remains same l0 l1 of (t, s) \<Rightarrow> loader_ok t \<and> loader_ok s))"
proof (intro conjI impI)
  show "case load e l0 of (l, ok) \<Rightarrow> loader_ok l \<and> (if ok then is_valid l else l = empty_loader)"
    using load_cases [of e l0] assms by (cases "load e l0") (auto split: if_splits)
  show "case load_snapshot e m l0 of (l, ok) \<Rightarrow> loader_ok l \<and>
      (if ok then is_valid l \<and> ld_size l \<le> m else l = empty_loader)"
    using load_snapshot_cases [of e m l0] by (cases "load_snapshot e m l0") (auto split: if_splits)
next
  assume "loader_ok l0"
  then show "case move_from remains l0 of (t, s) \<Rightarrow> t = l0 \<and> loader_ok s"
    by (cases "move_from remains l0") (auto dest: move_ok)
next
  assume "loader_ok l0 \<and> loader_ok l1"
  then show "case move_assign remains same l0 l1 of (t, s) \<Rightarrow> loader_ok t \<and> loader_ok s"
    by (cases "move_assign remains same l0 l1") (auto dest: move_assign_ok)
qed

lemma sample_loads: "snd (load sample_env empty_loader)" "maps_whole_file sample_env"
  by (simp_all add: load_def sample_env_def Let_def checked_regular_file_size_def size_max_def
      reset_empty maps_whole_file_def)

theorem loads_keep_invariant_witness:
  "loader_ok (fst (load sample_env empty_loader)) \<and> is_valid (fst (load sample_env empty_loader))"
  using loads_keep_invariant [OF sample_loads(2), of empty_loader 100 "[]" empty_loader True] sample_loads(1)
  by (simp add: case_prod_beta)

text \<open>In a valid loader, reading a tensor's element at any index inside its shape, at the
  tensor's pointer plus the offset its strides give, stays inside the mapping, and two different
  elements of the loader never share a byte.\<close>

lemma element_reads_in_bounds:
  assumes "loader_ok l" and "is_valid l"
    and "get_tensor l n = Some t" and "in_shape (t_shape t) i"
    and "get_tensor l n' = Some t'" and "in_shape (t_shape t') i'" and "(n, i) \<noteq> (n', i')"
  shows "\<exists>p p'. data_ptr l n = Some p \<and> data_ptr l n' = Some p' \<and>
    p + element_offset (t_strides t) i + 4 \<le> ld_size l \<and>
    p + element_offset (t_strides t) i \<noteq> p' + element_offset (t_strides t') i' \<and>
    (n \<noteq> n' \<longrightarrow> p + element_offset (t_strides t) i + 4 \<le> p' + element_offset (t_strides t') i' \<or>
       p' + element_offset (t_strides t') i' + 4 \<le> p + element_offset (t_strides t) i)"
proof -
  note r = conjI [OF assms(1,2)]
  let ?a = "t_offset t + element_offset (row_major (t_shape t)) i"
  let ?a' = "t_offset t' + element_offset (row_major (t_shape t')) i'"
  note a = st.address_Some [OF r assms(3), of i] and a' = st.address_Some [OF r assms(5), of i']
  have d: "?a + 4 \<le> ?a' \<or> ?a' + 4 \<le> ?a \<or> n = n' \<and> ?a \<noteq> ?a'"
    by (rule st.addresses_distinct [OF r assms(3,5,4,6) a a' assms(7)])
  have b: "?a + 4 \<le> ld_size l" by (rule st.address_in_extent [OF r assms(3,4) a])
  have s: "t_strides t = row_major (t_shape t)" "t_strides t' = row_major (t_shape t')"
    using st.dense [OF r assms(3)] st.dense [OF r assms(5)] by simp_all
  show ?thesis
    using d b by (auto simp: st.ptr_offset [OF r assms(3)] st.ptr_offset [OF r assms(5)] s)
qed

definition sample_loader :: loader where
  "sample_loader = \<lparr>ld_data = Some sample_file, ld_size = 70, ld_tensors = [(''a'', sample_tensor)],
     ld_identity = no_identity, ld_identity_valid = False\<rparr>"

lemma sample_loader_ok: "loader_ok sample_loader" "is_valid sample_loader"
  "get_tensor sample_loader ''a'' = Some sample_tensor" "ld_size sample_loader = 70"
  "in_shape (t_shape sample_tensor) [0]" "in_shape (t_shape sample_tensor) [1]"
  by (simp_all add: sample_loader_def loader_ok_def is_valid_def get_tensor_def in_shape_def sample_tensor_def
      sample_parsed [unfolded sample_tensor_def])

theorem element_reads_in_bounds_witness:
  "\<exists>p p'. data_ptr sample_loader ''a'' = Some p \<and> data_ptr sample_loader ''a'' = Some p' \<and>
    p + element_offset (t_strides sample_tensor) [0] + 4 \<le> 70 \<and>
    p + element_offset (t_strides sample_tensor) [0] \<noteq> p' + element_offset (t_strides sample_tensor) [1]"
  using element_reads_in_bounds [OF sample_loader_ok(1,2,3,5,3,6)] sample_loader_ok(4) by auto

text \<open>
  The answers \<open>rs\<close> to the \<^verbatim>\<open>pread\<close> calls from offset \<open>pos\<close> on are those of a file that holds \<open>c\<close>:
  interrupted calls, errors and reads as short as the kernel likes, but never other bytes.
\<close>

fun reads_of :: "bytes \<Rightarrow> nat \<Rightarrow> pread_reply list \<Rightarrow> bool" where
  "reads_of c pos [] = True"
| "reads_of c pos (Got b # rs) =
     (let got = take (min snapshot_read_chunk (length c - pos)) b
      in got = take (length got) (drop pos c) \<and> reads_of c (pos + length got) rs)"
| "reads_of c pos (_ # rs) = reads_of c pos rs"

lemma copy_loop_content:
  "copy_loop (length c) (take pos c) rs = Some v \<Longrightarrow> pos \<le> length c \<Longrightarrow> reads_of c pos rs \<Longrightarrow> v = c"
proof (induction c pos rs rule: reads_of.induct)
  case (1 c pos)
  then show ?case by (subst (asm) copy_loop.simps) (simp split: if_splits)
next
  case (2 c pos b rs)
  let ?got = "take (min snapshot_read_chunk (length c - pos)) b"
  show ?case
  proof (cases "pos = length c")
    case True
    with 2 show ?thesis by (subst (asm) copy_loop.simps) simp
  next
    case False
    have g: "?got = take (length ?got) (drop pos c)" "reads_of c (pos + length ?got) rs"
      using "2.prems"(3) by (simp_all only: reads_of.simps Let_def)
    have le: "pos + length ?got \<le> length c" using "2.prems"(2) by simp
    from False "2.prems"(1,2) have "copy_loop (length c) (take pos c @ ?got) rs = Some v"
      by (subst (asm) copy_loop.simps) (simp add: Let_def split: if_splits)
    moreover have "take pos c @ ?got = take (pos + length ?got) c" using g(1) by (metis take_add)
    ultimately show ?thesis using "2.IH" [OF refl _ le g(2)] by simp
  qed
qed (simp_all add: copy_loop.simps [of _ _ "_ # _"] split: if_splits)

text \<open>A snapshot that succeeds on a file whose content stays \<open>c\<close> during the copy holds exactly
  \<open>c\<close>, however the kernel cuts and interrupts the reads; it has the size the file had before, is
  within the caller's bound, and its identity is that of the file.\<close>

lemma snapshot_is_the_file:
  assumes "load_snapshot e m l0 = (l, True)" and "e_before e = Some st"
    and "nat (st_size st) = length c" and "reads_of c 0 (e_reads e)"
  shows "ld_data l = Some c \<and> ld_size l = length c \<and> length c \<le> m \<and>
    parse_header c = Some (ld_tensors l) \<and> source_identity l = Some (source_identity_from st)"
proof -
  from assms(1,2) obtain n v st' where n: "checked_regular_file_size st = Some n" "n \<le> m"
    and v: "copy_loop n [] (e_reads e) = Some v" and p: "parse_header v = Some (ld_tensors l)"
    and l: "ld_data l = Some v" "ld_size l = n" "source_identity l = Some (source_identity_from st')"
    and st': "same_file_status st st'"
    by (auto simp: load_snapshot_def Let_def source_identity_def reset_def split: if_splits option.splits)
  from checked_size [OF n(1)] assms(3) have n': "n = length c" by simp
  with copy_loop_content [of c 0 "e_reads e" v] v assms(4) have "v = c" by simp
  moreover have "source_identity_from st' = source_identity_from st"
    using st' by (simp add: same_file_status_def source_identity_from_def)
  ultimately show ?thesis using l n' n p by simp
qed

lemma sample_snapshot: "snd (load_snapshot sample_env 100 empty_loader)"
  by (simp add: load_snapshot_def sample_env_def Let_def checked_regular_file_size_def size_max_def
      reset_empty copy_loop.simps snapshot_read_chunk_def same_file_status_def)

theorem snapshot_is_the_file_witness:
  "ld_data (fst (load_snapshot sample_env 100 empty_loader)) = Some sample_file"
  using snapshot_is_the_file [of sample_env 100 empty_loader
      "fst (load_snapshot sample_env 100 empty_loader)" "the (e_before sample_env)" sample_file]
    sample_snapshot
  by (simp add: sample_env_def Let_def snapshot_read_chunk_def prod_eq_iff)

text \<open>The header parser accepts JSON objects that are never closed: an opening brace alone, and
  an object whose last member is followed by a comma and the end of the text.\<close>

lemma open_header_accepted:
  "parse_header (file_of ''{'' []) = Some [] \<and>
   parse_header (file_of (''{'' @ quoted ''__metadata__'' @ '':{},'') []) = Some []"
proof
  show "parse_header (file_of ''{'' []) = Some []"
    by (subst parse_file_of) (simp_all add: reader)
  show "parse_header (file_of (''{'' @ quoted ''__metadata__'' @ '':{},'') []) = Some []"
    by (subst parse_file_of) (simp_all add: quoted_def reader)
qed

end
