(* ===== verification/JsonContract.thy ===== *)
theory JsonContract
  imports Json
begin

text \<open>
  Properties of the JSON reader: its fuel, its integers, its UTF-8 output, and what it does on the
  text of a JSON value.
\<close>

section \<open>Fuel and integers\<close>

text \<open>The fuel that bounds the recursion of the value skipper is never what stops it: with any
  larger fuel the result is the same, and a successful skip consumes input.\<close>

lemma skip_fuel_enough:
  "skip_value (skip_fuel s + n) d s = skip_value (skip_fuel s) d s \<and>
   skip_members (skip_fuel s + n) d ks s = skip_members (skip_fuel s) d ks s \<and>
   (case skip_value (skip_fuel s) d s of None \<Rightarrow> True | Some r \<Rightarrow> length r < length s)"
proof (intro conjI)
  show "case skip_value (skip_fuel s) d s of None \<Rightarrow> True | Some r \<Rightarrow> length r < length s"
    by (cases "skip_value (skip_fuel s) d s") (simp_all only: option.case skip_lengths(1))
qed (rule skip_value_fuel skip_members_fuel; simp)+

text \<open>Reading back the decimal text of a number gives the number if it fits in 64 bits and is
  refused if it does not, whatever text follows (other than a further digit).\<close>

lemma parse_uint64_dec:
  assumes "r = [] \<or> \<not> is_digit (hd r)"
  shows "parse_uint64 (dec n @ r) = (if n < 2 ^ 64 then Some (n, r) else None)"
proof -
  obtain c ds where d: "dec n = c # ds" using dec_nonempty [of n] by (cases "dec n") auto
  have all: "\<forall>x \<in> set (dec n). is_digit x" using dec_digits by blast
  then have c: "is_digit c" by (simp add: d)
  then have "\<not> is_ws c" by (auto simp: is_digit_def is_ws_def)
  then have ws: "skip_ws (dec n @ r) = dec n @ r" by (simp add: skip_ws_def d)
  have "\<not> (c = CHR ''0'' \<and> ds @ r \<noteq> [] \<and> is_digit (hd (ds @ r)))"
  proof
    assume a: "c = CHR ''0'' \<and> ds @ r \<noteq> [] \<and> is_digit (hd (ds @ r))"
    with dec_hd [of n] d have "n = 0" by auto
    then have "ds = []" using d by (subst (asm) dec.simps) simp
    with a assms show False by simp
  qed
  then have "parse_uint64 (dec n @ r) = digits_loop 0 (dec n @ r)"
    using c by (auto simp: parse_uint64_def ws Let_def simp del: digits_loop.simps) (simp_all add: d)
  moreover have "digits_loop 0 (dec n @ r) = (if n < 2 ^ 64 then Some (n, r) else None)"
    using digits_loop_value [of 0 "dec n" r] digits_loop_overflow [of 0 "dec n" r] all assms by simp
  ultimately show ?thesis by simp
qed

theorem parse_uint64_dec_witness:
  "parse_uint64 (dec 18446744073709551615 @ '',1'') = Some (18446744073709551615, '',1'') \<and>
   parse_uint64 (dec 18446744073709551616 @ '',1'') = None"
  using parse_uint64_dec [of "'',1''" 18446744073709551615] parse_uint64_dec [of "'',1''" 18446744073709551616]
  by (simp add: is_digit_def)

section \<open>UTF-8\<close>

definition is_scalar :: "nat \<Rightarrow> bool" where
  "is_scalar cp \<longleftrightarrow> cp \<le> 0x10ffff \<and> \<not> (0xd800 \<le> cp \<and> cp \<le> 0xdfff)"

text \<open>The code point a UTF-8 sequence stands for, by the standard's table.\<close>

definition utf8_value :: "string \<Rightarrow> nat" where
  "utf8_value u = (case map (of_char :: char \<Rightarrow> nat) u of
       [a] \<Rightarrow> a
     | [a, b] \<Rightarrow> (a - 0xc0) * 64 + (b - 0x80)
     | [a, b, c] \<Rightarrow> (a - 0xe0) * 4096 + (b - 0x80) * 64 + (c - 0x80)
     | [a, b, c, d] \<Rightarrow> (a - 0xf0) * 262144 + (b - 0x80) * 4096 + (c - 0x80) * 64 + (d - 0x80)
     | _ \<Rightarrow> 0)"

lemma or_disjoint: "x < 2 ^ n \<Longrightarrow> (k * 2 ^ n) OR x = k * 2 ^ n + (x :: nat)"
proof -
  assume "x < 2 ^ n"
  then have x: "x = take_bit n x" by (simp add: take_bit_nat_eq_self)
  have "push_bit n k AND take_bit n x = 0"
    by (rule bit_eqI) (auto simp: bit_simps)
  then have "k * 2 ^ n AND x = 0" using x by (simp add: push_bit_eq_mult)
  then show ?thesis using disjunctive_add_eq_or [of "k * 2 ^ n" x] by simp
qed

lemma low_six: "x AND 63 = (x mod 64 :: nat)"
  using take_bit_eq_mask [of 6 x] by (simp add: mask_eq_exp_minus_1 take_bit_eq_mod)

lemma lead_bits:
  "x < 64 \<Longrightarrow> 0x80 OR x = 0x80 + (x :: nat)" "x < 32 \<Longrightarrow> 0xc0 OR x = 0xc0 + (x :: nat)"
  "x < 16 \<Longrightarrow> 0xe0 OR x = 0xe0 + (x :: nat)" "x < 8 \<Longrightarrow> 0xf0 OR x = 0xf0 + (x :: nat)"
  using or_disjoint [of x 6 2] or_disjoint [of x 5 6] or_disjoint [of x 4 14] or_disjoint [of x 3 30]
  by simp_all

lemma div_mod_parts:
  fixes x :: nat
  shows "x div 4096 * 4096 + x div 64 mod 64 * 64 + x mod 64 = x"
    and "x div 262144 * 262144 + x div 4096 mod 64 * 4096 + x div 64 mod 64 * 64 + x mod 64 = x"
proof -
  have a: "x div 64 * 64 + x mod 64 = x" by simp
  have b: "x div 4096 * 64 + x div 64 mod 64 = x div 64"
    using div_mult_mod_eq [of "x div 64" 64] by (simp add: div_mult2_eq [symmetric])
  have c: "x div 262144 * 64 + x div 4096 mod 64 = x div 4096"
    using div_mult_mod_eq [of "x div 4096" 64] by (simp add: div_mult2_eq [symmetric])
  show ab: "x div 4096 * 4096 + x div 64 mod 64 * 64 + x mod 64 = x" using a b by linarith
  show "x div 262144 * 262144 + x div 4096 mod 64 * 4096 + x div 64 mod 64 * 64 + x mod 64 = x"
    using ab c by linarith
qed

text \<open>The UTF-8 encoder refuses exactly the numbers that are not Unicode scalar values, and its
  output decodes to the code point it was given.\<close>

lemma utf8_roundtrip:
  "(case utf8 cp of None \<Rightarrow> \<not> is_scalar cp | Some u \<Rightarrow> is_scalar cp \<and> utf8_value u = cp)"
proof -
  consider "cp \<le> 0x7f" | "0x7f < cp" "cp \<le> 0x7ff" | "0x7ff < cp" "cp \<le> 0xffff"
    | "0xffff < cp" "cp \<le> 0x10ffff" | "0x10ffff < cp" by linarith
  then show ?thesis
  proof cases
    case 1
    then show ?thesis by (simp add: utf8_def is_scalar_def utf8_value_def)
  next
    case 2
    then have "cp div 64 < 32" by simp
    with 2 show ?thesis
      by (simp add: utf8_def is_scalar_def utf8_value_def drop_bit_eq_div low_six lead_bits)
  next
    case 3
    then have "cp div 4096 < 16" by simp
    with 3 div_mod_parts(1) [of cp] show ?thesis
      by (simp add: utf8_def is_scalar_def utf8_value_def drop_bit_eq_div low_six lead_bits)
  next
    case 4
    then have "cp div 262144 < 8" by simp
    with 4 div_mod_parts(2) [of cp] show ?thesis
      by (simp add: utf8_def is_scalar_def utf8_value_def drop_bit_eq_div low_six lead_bits)
  next
    case 5
    then show ?thesis by (simp add: utf8_def is_scalar_def)
  qed
qed

section \<open>Values\<close>

text \<open>A grammar of JSON values and their text, without insignificant white space.\<close>

datatype json =
    JNull
  | JBool bool
  | JInt int
  | JString string
  | JArray "json list"
  | JObject "(string \<times> json) list"

definition plain_char :: "char \<Rightarrow> bool" where
  "plain_char c \<longleftrightarrow> 0x20 \<le> (of_char c :: nat) \<and> c \<noteq> CHR 0x22 \<and> c \<noteq> CHR 0x5C"

definition escape_char :: "char \<Rightarrow> string" where
  "escape_char c =
     (if plain_char c then [c] else if c = CHR 0x22 \<or> c = CHR 0x5C then [CHR 0x5C, c]
      else [CHR 0x5C, CHR ''u'', CHR ''0'', CHR ''0'', char_of (48 + of_char c div 16 :: nat),
            (let d = of_char c mod 16 :: nat in char_of (if d < 10 then 48 + d else 87 + d))])"

definition quote_json :: "string \<Rightarrow> string" where
  "quote_json s = [CHR 0x22] @ concat (map escape_char s) @ [CHR 0x22]"

fun render :: "json \<Rightarrow> string"
and render_elements :: "json list \<Rightarrow> string"
and render_members :: "(string \<times> json) list \<Rightarrow> string"
where
  "render JNull = ''null''"
| "render (JBool b) = (if b then ''true'' else ''false'')"
| "render (JInt i) = (if i < 0 then CHR ''-'' # dec (nat (- i)) else dec (nat i))"
| "render (JString s) = quote_json s"
| "render (JArray vs) = CHR ''['' # (if vs = [] then '']'' else render_elements vs)"
| "render (JObject ms) = CHR ''{'' # (if ms = [] then ''}'' else render_members ms)"
| "render_elements [] = []"
| "render_elements (v # vs) = render v @ (if vs = [] then '']'' else CHR '','' # render_elements vs)"
| "render_members [] = []"
| "render_members ((k, v) # ms) =
     quote_json k @ CHR '':'' # render v @ (if ms = [] then ''}'' else CHR '','' # render_members ms)"

text \<open>Nesting below the limit from depth \<open>d\<close> on, and distinct keys in each object.\<close>

fun fits :: "nat \<Rightarrow> json \<Rightarrow> bool"
and all_fit :: "nat \<Rightarrow> json list \<Rightarrow> bool"
and members_fit :: "nat \<Rightarrow> string list \<Rightarrow> (string \<times> json) list \<Rightarrow> bool"
where
  "fits d (JArray vs) = (d \<le> max_json_depth \<and> all_fit (d + 1) vs)"
| "fits d (JObject ms) = (d \<le> max_json_depth \<and> members_fit (d + 1) [] ms)"
| "fits d _ = (d \<le> max_json_depth)"
| "all_fit d [] = True"
| "all_fit d (v # vs) = (fits d v \<and> all_fit d vs)"
| "members_fit d ks [] = True"
| "members_fit d ks ((k, v) # ms) = (k \<notin> set ks \<and> fits d v \<and> members_fit d (k # ks) ms)"

lemma hex_value_low: "d < 10 \<Longrightarrow> hex_value (char_of (48 + d :: nat)) = Some d"
  "10 \<le> d \<Longrightarrow> d < 16 \<Longrightarrow> hex_value (char_of (87 + d :: nat)) = Some d"
  "hex_value CHR ''0'' = Some 0"
  by (auto simp: hex_value_def Let_def)

lemma parse_control:
  assumes "of_char c < (32 :: nat)"
  shows "parse_escape (tl (escape_char c) @ s) = Some ([c], s)"
proof -
  define n :: nat where "n = of_char c"
  define lo where "lo = char_of (if n mod 16 < 10 then 48 + n mod 16 else 87 + n mod 16 :: nat)"
  have n: "n < 32" and c: "c = char_of n" using assms by (simp_all add: n_def)
  have hi: "hex_value (char_of (48 + n div 16)) = Some (n div 16)" using n by (simp add: hex_value_low)
  have lo: "hex_value lo = Some (n mod 16)" by (auto simp: lo_def hex_value_low)
  have four: "(4 :: nat) = Suc (Suc (Suc (Suc 0)))" by simp
  have "hex_digits 4 0 (CHR ''0'' # CHR ''0'' # char_of (48 + n div 16) # lo # s)
      = Some (push_bit 4 (n div 16) OR (n mod 16), s)"
    unfolding four by (simp only: hex_digits.simps hex_value_low(3) hi lo option.case)
      (simp add: push_bit_eq_mult mult.commute)
  also have "push_bit 4 (n div 16) OR (n mod 16) = n"
    using or_disjoint [of "n mod 16" 4 "n div 16"] by (simp add: push_bit_eq_mult)
  finally have h: "parse_hex4 (CHR ''0'' # CHR ''0'' # char_of (48 + n div 16) # lo # s) = Some (n, s)"
    by (simp add: parse_hex4_def)
  have e: "tl (escape_char c) = [CHR ''u'', CHR ''0'', CHR ''0'', char_of (48 + n div 16), lo]"
    using n by (auto simp: escape_char_def plain_char_def lo_def n_def Let_def)
  show ?thesis
    unfolding e using n by (simp add: parse_escape_def parse_unicode_def h utf8_def c)
qed

lemma string_body_escaped: "string_body acc (escape_char c @ s) = string_body (acc @ [c]) s"
proof (cases "plain_char c")
  case True
  then show ?thesis by (auto simp: escape_char_def plain_char_def)
next
  case False
  then have e: "escape_char c = CHR 0x5C # tl (escape_char c)" by (simp add: escape_char_def)
  have "parse_escape (tl (escape_char c) @ s) = Some ([c], s)"
  proof (cases "c = CHR 0x22 \<or> c = CHR 0x5C")
    case True
    with False show ?thesis by (auto simp: escape_char_def parse_escape_def)
  next
    case other: False
    with False have "of_char c < (32 :: nat)" by (simp add: plain_char_def)
    then show ?thesis by (rule parse_control)
  qed
  then show ?thesis by (subst e) simp
qed

lemma string_body_quoted:
  "string_body acc (concat (map escape_char t) @ CHR 0x22 # s) = Some (acc @ t, s)"
  by (induction t arbitrary: acc) (simp_all add: string_body_escaped)

text \<open>The string reader gives back any byte string from its quoted form, escapes included.\<close>

lemma parse_string_quoted: "parse_string (quote_json t @ s) = Some (t, s)"
  by (simp add: parse_string_def quote_json_def string_body_quoted)

text \<open>What may follow a value inside an array or object, or at the end of the text.\<close>

definition after_value :: "string \<Rightarrow> bool" where
  "after_value s \<longleftrightarrow> s = [] \<or> hd s = CHR '','' \<or> hd s = CHR '']'' \<or> hd s = CHR ''}''"

lemma takeWhile_dec: "after_value s \<Longrightarrow> dropWhile is_digit (dec n @ s) = s"
proof -
  assume "after_value s"
  then have "dropWhile is_digit s = s"
    by (cases s) (auto simp: after_value_def is_digit_def)
  moreover have "\<And>x. x \<in> set (dec n) \<Longrightarrow> is_digit x" by (rule dec_digits)
  ultimately show ?thesis by (metis dropWhile_append2)
qed

lemma skip_number_tail: "after_value s \<Longrightarrow> skip_fraction s = Some s \<and> skip_exponent s = Some s"
  by (cases s) (auto simp: after_value_def skip_fraction_def skip_exponent_def)

lemma dec_Cons: obtains c ds where "dec n = c # ds" "is_digit c" "c = CHR ''0'' \<longrightarrow> ds = []"
proof -
  obtain c ds where d: "dec n = c # ds" using dec_nonempty [of n] by (cases "dec n") auto
  moreover have "is_digit c" using dec_digits [of c n] by (simp add: d)
  moreover have "c = CHR ''0'' \<longrightarrow> ds = []"
  proof
    assume "c = CHR ''0''"
    with dec_hd [of n] d have "n = 0" by auto
    then show "ds = []" using d by (subst (asm) dec.simps) simp
  qed
  ultimately show ?thesis using that by blast
qed

lemma skip_number_dec:
  assumes "after_value s"
  shows "skip_number (dec n @ s) = Some s" "skip_number (CHR ''-'' # dec n @ s) = Some s"
proof -
  obtain c ds where d: "dec n = c # ds" "is_digit c" and z: "c = CHR ''0'' \<longrightarrow> ds = []" by (rule dec_Cons)
  have "c \<noteq> CHR ''-''" using d(2) by (auto simp: is_digit_def)
  with takeWhile_dec [OF assms, of n] skip_number_tail [OF assms] d z
  show "skip_number (dec n @ s) = Some s" "skip_number (CHR ''-'' # dec n @ s) = Some s"
    by (auto simp: skip_number_def Let_def)
qed

lemma skip_scalar:
  assumes "after_value s" "d \<le> max_json_depth"
  shows "skip_value (Suc n) d (''null'' @ s) = Some s"
    and "skip_value (Suc n) d (''true'' @ s) = Some s"
    and "skip_value (Suc n) d (''false'' @ s) = Some s"
    and "skip_value (Suc n) d (dec k @ s) = Some s"
    and "skip_value (Suc n) d (CHR ''-'' # dec k @ s) = Some s"
    and "skip_value (Suc n) d (quote_json t @ s) = Some s"
proof -
  show "skip_value (Suc n) d (''null'' @ s) = Some s"
       "skip_value (Suc n) d (''true'' @ s) = Some s"
       "skip_value (Suc n) d (''false'' @ s) = Some s"
    using assms by (simp_all add: skip_value.simps skip_ws_def is_ws_def is_digit_def skip_literal_def starts_with_def)
  obtain c ds where d: "dec k = c # ds" "is_digit c" by (rule dec_Cons)
  then have c: "\<not> is_ws c" "c \<noteq> CHR ''{''" "c \<noteq> CHR ''[''" "c \<noteq> CHR 0x22"
    by (auto simp: is_digit_def is_ws_def)
  show "skip_value (Suc n) d (dec k @ s) = Some s"
    using c d assms skip_number_dec(1) [OF assms(1), of k] by (simp add: skip_value.simps skip_ws_def)
  show "skip_value (Suc n) d (CHR ''-'' # dec k @ s) = Some s"
    using assms skip_number_dec(2) [OF assms(1), of k] by (simp add: skip_value.simps skip_ws_def is_ws_def)
  have "parse_string (quote_json t @ s) = Some (t, s)"
    by (simp add: parse_string_def quote_json_def string_body_quoted)
  then show "skip_value (Suc n) d (quote_json t @ s) = Some s"
    using assms by (simp add: skip_value.simps skip_ws_def is_ws_def quote_json_def)
qed

lemma render_first:
  "\<exists>c r. render v = c # r \<and> \<not> is_ws c \<and> c \<noteq> CHR '']'' \<and> c \<noteq> CHR ''}''"
proof (cases v)
  case (JInt i)
  obtain c ds where "dec (nat i) = c # ds" "is_digit c" by (rule dec_Cons)
  with JInt show ?thesis by (auto simp: is_digit_def is_ws_def)
qed (auto simp: quote_json_def is_ws_def)

lemma skip_ws_render: "skip_ws (render v @ s) = render v @ s"
  using render_first [of v] by (auto simp: skip_ws_def)

lemma skip_ws_cons: "\<not> is_ws c \<Longrightarrow> skip_ws (c # s) = c # s"
  by (simp add: skip_ws_def)

lemma not_ws [simp]: "\<not> is_ws CHR '',''" "\<not> is_ws CHR '']''" "\<not> is_ws CHR ''}''" "\<not> is_ws CHR '':''"
  "\<not> is_ws CHR ''[''" "\<not> is_ws CHR ''{''" "\<not> is_ws CHR 0x22"
  by (simp_all add: is_ws_def)

lemma skip_rendered:
  "fits d v \<Longrightarrow> after_value s \<Longrightarrow> 2 * length (render v @ s) + 1 \<le> n \<Longrightarrow>
     skip_value n d (render v @ s) = Some s"
  "all_fit (Suc d) vs \<Longrightarrow> vs \<noteq> [] \<Longrightarrow> 2 * length (render_elements vs @ s) + 2 \<le> n \<Longrightarrow>
     skip_elements n d (render_elements vs @ s) = Some s"
  "members_fit (Suc d) ks ms \<Longrightarrow> ms \<noteq> [] \<Longrightarrow> 2 * length (render_members ms @ s) + 1 \<le> n \<Longrightarrow>
     skip_members n d ks (render_members ms @ s) = Some s"
proof (induction v and vs and ms arbitrary: d s n and d s n and d ks s n
    rule: render_render_elements_render_members.induct)
  case 1
  then show ?case by (cases n) (simp_all add: skip_scalar(1) [simplified])
next
  case (2 b)
  then show ?case by (cases n) (simp_all add: skip_scalar(2,3) [simplified])
next
  case (3 i)
  then show ?case by (cases n) (simp_all add: skip_scalar(4,5))
next
  case (4 t)
  then show ?case by (cases n) (simp_all add: skip_scalar(6))
next
  case (5 vs)
  then obtain m where n: "n = Suc m" by (cases n) auto
  show ?case
  proof (cases vs)
    case Nil
    with 5 n show ?thesis by (simp add: skip_value.simps skip_ws_cons)
  next
    case (Cons v ws)
    obtain c r where c: "render v = c # r" "\<not> is_ws c" "c \<noteq> CHR '']''" using render_first by blast
    have "skip_elements m d (render_elements vs @ s) = Some s"
      using 5 n Cons by simp
    with 5 n Cons c show ?thesis by (simp add: skip_value.simps skip_ws_cons)
  qed
next
  case (6 ms)
  then obtain m where n: "n = Suc m" by (cases n) auto
  show ?case
  proof (cases ms)
    case Nil
    with 6 n show ?thesis by (simp add: skip_value.simps skip_ws_cons)
  next
    case (Cons kv ws)
    obtain k v where kv: "kv = (k, v)" by (cases kv)
    have "skip_members m d [] (render_members ms @ s) = Some s"
      using 6 n Cons by simp
    with 6 n Cons kv show ?thesis by (simp add: skip_value.simps skip_ws_cons quote_json_def)
  qed
next
  case (8 v vs)
  then obtain m where n: "n = Suc m" by (cases n) auto
  let ?s = "(if vs = [] then '']'' else CHR '','' # render_elements vs) @ s"
  have v: "skip_value m (Suc d) (render v @ ?s) = Some ?s"
    using 8 n by (intro "8.IH"(1)) (simp_all add: after_value_def)
  obtain c r where c: "render v = c # r" using render_first by blast
  show ?case
  proof (cases vs)
    case Nil
    with v n c show ?thesis by (simp add: skip_elements.simps skip_ws_cons)
  next
    case (Cons w ws)
    have "skip_elements m d (render_elements vs @ s) = Some s"
      using 8 n Cons by simp
    with v n c Cons skip_ws_render [of w] show ?thesis by (simp add: skip_elements.simps skip_ws_cons)
  qed
next
  case (10 k v ms)
  then obtain m where n: "n = Suc m" by (cases n) auto
  let ?s = "(if ms = [] then ''}'' else CHR '','' # render_members ms) @ s"
  have v: "skip_value m (Suc d) (render v @ ?s) = Some ?s"
    using 10 n by (intro "10.IH"(1)) (simp_all add: after_value_def)
  have p: "parse_string (quote_json k @ CHR '':'' # render v @ ?s) = Some (k, CHR '':'' # render v @ ?s)"
    by (simp add: parse_string_def quote_json_def string_body_quoted)
  have ne: "quote_json k @ x \<noteq> []" for x by (simp add: quote_json_def)
  show ?case
  proof (cases ms)
    case Nil
    with v n p ne "10.prems" show ?thesis by (simp add: skip_members.simps skip_ws_cons)
  next
    case (Cons kv ws)
    have r: "skip_members m d (k # ks) (render_members ms @ s) = Some s"
      using 10 n Cons by simp
    have "skip_ws (render_members ms @ s) = render_members ms @ s"
      using Cons by (cases kv) (simp add: quote_json_def skip_ws_cons)
    with v n p ne r Cons "10.prems" show ?thesis by (simp add: skip_members.simps skip_ws_cons)
  qed
qed simp_all

text \<open>On the text of a JSON value whose nesting is within the limit and whose objects have
  distinct keys, the skipper succeeds and stops exactly at the end of the value.\<close>

lemma skip_value_rendered:
  assumes "fits d v" and "after_value s"
  shows "skip_value (skip_fuel (render v @ s)) d (render v @ s) = Some s"
  by (rule skip_rendered(1) [OF assms]) (simp add: skip_fuel_def)

theorem skip_value_rendered_witness:
  "skip_value (skip_fuel (render (JArray [JNull, JObject [(''a'', JInt (- 5))]]) @ '',''))
     1 (render (JArray [JNull, JObject [(''a'', JInt (- 5))]]) @ '','') = Some '',''"
  by (rule skip_value_rendered) (simp_all add: max_json_depth_def after_value_def)

end
