(* ===== verification/Text.thy ===== *)
theory Text
  imports Prelude
begin

text \<open>
  Text operations of the C++ library the components share: the C locale's character classes,
  \<^verbatim>\<open>std::string::find\<close>, \<^verbatim>\<open>std::getline\<close>, \<^verbatim>\<open>operator>>\<close>, trimming and lower case.
\<close>

section \<open>Characters\<close>

definition char_nat :: "char \<Rightarrow> nat" where "char_nat c = of_char c"

definition is_upper :: "char \<Rightarrow> bool" where
  "is_upper c \<longleftrightarrow> 65 \<le> char_nat c \<and> char_nat c \<le> 90"

definition is_lower :: "char \<Rightarrow> bool" where
  "is_lower c \<longleftrightarrow> 97 \<le> char_nat c \<and> char_nat c \<le> 122"

definition is_alnum :: "char \<Rightarrow> bool" where
  "is_alnum c \<longleftrightarrow> is_digit c \<or> is_upper c \<or> is_lower c"

definition to_lower :: "char \<Rightarrow> char" where
  "to_lower c = (if is_upper c then char_of (char_nat c + 32) else c)"

definition lower :: "string \<Rightarrow> string" where
  "lower s = map to_lower s"

definition is_blank :: "char \<Rightarrow> bool" where
  "is_blank c \<longleftrightarrow> c = CHR '' '' \<or> c = CHR 0x09"

text \<open>\<^verbatim>\<open>isspace\<close> in the C locale: tab, line feed, vertical tab, form feed, carriage return, space.\<close>

definition is_space :: "char \<Rightarrow> bool" where
  "is_space c \<longleftrightarrow> c = CHR '' '' \<or> 9 \<le> char_nat c \<and> char_nat c \<le> 13"

definition crlf :: string where "crlf = [CHR 0x0D, CHR 0x0A]"

lemma length_crlf [simp]: "length crlf = 2"
  by (simp add: crlf_def)

lemma length_lower [simp]: "length (lower s) = length s"
  by (simp add: lower_def)

lemma lower_append [simp]: "lower (s @ t) = lower s @ lower t"
  by (simp add: lower_def)

lemma lower_Nil [simp]: "lower [] = []"
  by (simp add: lower_def)

lemma lower_idem: "\<forall>c \<in> set s. \<not> is_upper c \<Longrightarrow> lower s = s"
  by (induction s) (simp_all add: lower_def to_lower_def)

section \<open>Trimming\<close>

definition trim :: "string \<Rightarrow> string" where
  "trim s = rev (dropWhile is_blank (rev (dropWhile is_blank s)))"

definition trimmed :: "string \<Rightarrow> bool" where
  "trimmed s \<longleftrightarrow> s = [] \<or> \<not> is_blank (hd s) \<and> \<not> is_blank (last s)"

lemma dropWhile_hd: "s = [] \<or> \<not> P (hd s) \<Longrightarrow> dropWhile P s = s"
  by (cases s) auto

lemma trim_trimmed: "trimmed s \<Longrightarrow> trim s = s"
  by (cases "s = []") (simp_all add: trim_def trimmed_def dropWhile_hd hd_rev)

lemma trim_blank: "trim (CHR '' '' # s) = trim s"
  by (simp add: trim_def is_blank_def)

section \<open>Searching\<close>

fun find_sub :: "string \<Rightarrow> string \<Rightarrow> nat option" where
  "find_sub pat [] = (if pat = [] then Some 0 else None)"
| "find_sub pat (c # s) =
     (if take (length pat) (c # s) = pat then Some 0 else map_option Suc (find_sub pat s))"

definition find_from :: "string \<Rightarrow> nat \<Rightarrow> string \<Rightarrow> nat option" where
  "find_from pat pos s = map_option (\<lambda>i. pos + i) (find_sub pat (drop pos s))"

definition find_char :: "char \<Rightarrow> string \<Rightarrow> nat option" where
  "find_char c s = find_sub [c] s"

text \<open>\<^verbatim>\<open>s.compare(pos, n, t) == 0\<close> for \<^verbatim>\<open>n = t.size()\<close> and a position inside the string.\<close>

definition matches_at :: "string \<Rightarrow> nat \<Rightarrow> string \<Rightarrow> bool" where
  "matches_at s pos t \<longleftrightarrow> take (length t) (drop pos s) = t"

lemma find_sub_Some:
  "find_sub pat s = Some i \<Longrightarrow> i + length pat \<le> length s \<and> take (length pat) (drop i s) = pat"
proof (induction pat s arbitrary: i rule: find_sub.induct)
  case (2 pat c s)
  show ?case
  proof (cases "take (length pat) (c # s) = pat")
    case True
    with "2.prems" have "i = 0" by simp
    moreover have "length pat \<le> length (c # s)"
      using True by (metis length_take min.cobounded1)
    ultimately show ?thesis using True by simp
  next
    case False
    with "2.prems" obtain j where "find_sub pat s = Some j" "i = Suc j" by auto
    with False "2.IH" show ?thesis by simp
  qed
qed (simp split: if_splits)

lemma find_sub_first:
  "find_sub pat s = Some i \<Longrightarrow> j < i \<Longrightarrow> take (length pat) (drop j s) \<noteq> pat"
proof (induction pat s arbitrary: i j rule: find_sub.induct)
  case (2 pat c s)
  then obtain k where k: "take (length pat) (c # s) \<noteq> pat" "find_sub pat s = Some k" "i = Suc k"
    by (auto split: if_splits)
  with 2 show ?case by (cases j) auto
qed (simp split: if_splits)

lemma find_sub_None: "find_sub pat s = None \<Longrightarrow> take (length pat) (drop j s) \<noteq> pat \<or> pat = []"
proof (induction pat s arbitrary: j rule: find_sub.induct)
  case (2 pat c s)
  then show ?case by (cases j) (auto split: if_splits)
qed (simp split: if_splits)

lemma find_subI:
  assumes "take (length pat) (drop i s) = pat" and "i \<le> length s"
    and "\<And>j. j < i \<Longrightarrow> take (length pat) (drop j s) \<noteq> pat"
  shows "find_sub pat s = Some i"
  using assms
proof (induction pat s arbitrary: i rule: find_sub.induct)
  case (1 pat)
  then show ?case by simp
next
  case (2 pat c s)
  show ?case
  proof (cases i)
    case 0
    with 2 show ?thesis by simp
  next
    case (Suc k)
    have "take (length pat) (c # s) \<noteq> pat" using "2.prems"(3) [of 0] Suc by simp
    moreover have "find_sub pat s = Some k"
      using 2 Suc "2.prems"(3) [of "Suc _"] calculation by (intro "2.IH") auto
    ultimately show ?thesis using Suc by simp
  qed
qed

text \<open>The first occurrence of a pattern that starts with a character the text does not hold.\<close>

lemma find_sub_skip:
  assumes "pat \<noteq> []" and "hd pat \<notin> set s"
  shows "find_sub pat (s @ pat @ t) = Some (length s)"
proof (rule find_subI)
  show "take (length pat) (drop (length s) (s @ pat @ t)) = pat" by simp
next
  fix j assume "j < length s"
  then have "hd (drop j (s @ pat @ t)) = s ! j" by (simp add: hd_drop_conv_nth nth_append)
  moreover have "s ! j \<noteq> hd pat" using assms(2) \<open>j < length s\<close> by (metis nth_mem)
  ultimately show "take (length pat) (drop j (s @ pat @ t)) \<noteq> pat"
    using assms(1) by (metis hd_take length_greater_0_conv)
qed simp

lemma find_char_None: "find_char c s = None \<longleftrightarrow> c \<notin> set s"
  by (induction s) (auto simp: find_char_def)

lemma find_char_Some: "find_char c s = Some i \<Longrightarrow> i < length s \<and> s ! i = c \<and> c \<notin> set (take i s)"
proof (induction s arbitrary: i)
  case (Cons a s)
  then show ?case by (cases i) (auto simp: find_char_def split: if_splits)
qed (simp add: find_char_def)

lemma find_char_append: "c \<notin> set s \<Longrightarrow> find_char c (s @ c # t) = Some (length s)"
  using find_sub_skip [of "[c]" s t] by (simp add: find_char_def)

section \<open>Streams\<close>

text \<open>The lines \<^verbatim>\<open>std::getline\<close> extracts one after the other.\<close>

function split_lines :: "string \<Rightarrow> string list" where
  "split_lines s =
     (if s = [] then []
      else takeWhile (\<lambda>c. c \<noteq> CHR 0x0A) s # split_lines (drop (Suc (length (takeWhile (\<lambda>c. c \<noteq> CHR 0x0A) s))) s))"
  by pat_completeness auto
termination by (relation "measure length") auto

declare split_lines.simps [simp del]

text \<open>The words \<^verbatim>\<open>operator>>\<close> extracts one after the other.\<close>

function split_words :: "string \<Rightarrow> string list" where
  "split_words s =
     (let t = dropWhile is_space s
      in if t = [] then []
         else takeWhile (\<lambda>c. \<not> is_space c) t # split_words (dropWhile (\<lambda>c. \<not> is_space c) t))"
  by pat_completeness auto
termination
proof (relation "measure length")
  fix s t assume t: "t = dropWhile is_space s" and ne: "\<not> t = []"
  from ne t have "\<not> is_space (hd t)" by (metis hd_dropWhile)
  with ne have "length (dropWhile (\<lambda>c. \<not> is_space c) t) < length t"
    by (cases t) (simp_all add: le_imp_less_Suc length_dropWhile_le)
  also have "length t \<le> length s" using t by (simp add: length_dropWhile_le)
  finally show "(dropWhile (\<lambda>c. \<not> is_space c) t, s) \<in> measure length" by simp
qed simp

declare split_words.simps [simp del]

lemma split_lines_Nil [simp]: "split_lines [] = []"
  by (simp add: split_lines.simps)

lemma takeWhile_until: "x \<notin> set l \<Longrightarrow> takeWhile (\<lambda>c. c \<noteq> x) (l @ x # s) = l"
  "x \<notin> set l \<Longrightarrow> takeWhile (\<lambda>c. c \<noteq> x) l = l"
  by (induction l) auto

lemma split_lines_Cons:
  "CHR 0x0A \<notin> set l \<Longrightarrow> split_lines (l @ CHR 0x0A # s) = l # split_lines s"
  by (subst split_lines.simps) (simp add: takeWhile_until)

lemma split_lines_last: "CHR 0x0A \<notin> set l \<Longrightarrow> l \<noteq> [] \<Longrightarrow> split_lines l = [l]"
  by (subst split_lines.simps) (simp add: takeWhile_until)

lemma split_words_Cons:
  "w \<noteq> [] \<Longrightarrow> \<forall>c \<in> set w. \<not> is_space c \<Longrightarrow> split_words (w @ CHR '' '' # s) = w # split_words s"
proof -
  assume w: "w \<noteq> []" "\<forall>c \<in> set w. \<not> is_space c"
  have sp: "is_space CHR '' ''" by (simp add: is_space_def)
  have d: "dropWhile is_space (w @ CHR '' '' # s) = w @ CHR '' '' # s"
    using w by (intro dropWhile_hd) simp
  have t: "takeWhile (\<lambda>c. \<not> is_space c) (w @ CHR '' '' # s) = w"
    using w sp by (simp add: takeWhile_append2)
  have r: "dropWhile (\<lambda>c. \<not> is_space c) (w @ CHR '' '' # s) = CHR '' '' # s"
    using w sp by (simp add: dropWhile_append2)
  have "split_words (CHR '' '' # s) = split_words s"
    using sp by (subst split_words.simps, subst (2) split_words.simps) simp
  then show ?thesis using w by (subst split_words.simps) (simp add: Let_def d t r)
qed

lemma split_words_last:
  "w \<noteq> [] \<Longrightarrow> \<forall>c \<in> set w. \<not> is_space c \<Longrightarrow> split_words w = [w]"
proof -
  assume w: "w \<noteq> []" "\<forall>c \<in> set w. \<not> is_space c"
  then have d: "dropWhile is_space w = w" by (intro dropWhile_hd) simp
  have t: "takeWhile (\<lambda>c. \<not> is_space c) w = w" "dropWhile (\<lambda>c. \<not> is_space c) w = []"
    using w by (simp_all add: takeWhile_eq_all_conv)
  have e: "split_words [] = []" by (simp add: split_words.simps)
  show ?thesis using w(1) by (subst split_words.simps) (simp add: Let_def d t e)
qed

end
