(* ===== verification/HttpRequest.thy ===== *)
theory HttpRequest
  imports Text
begin

text \<open>
  Reading a request, as \<^verbatim>\<open>read_request\<close> of \<^verbatim>\<open>tools/web/http_transport.cpp\<close> does it: the header
  block from the socket, the request line, the header fields, the authorization, the reservation
  of body memory, and the body.

  The socket is the list of what its \<^verbatim>\<open>recv\<close> calls meet: bytes of the stream, an interruption, an
  error, the end of the stream, or the deadline.  Bytes a call does not ask for stay in the stream.
\<close>

section \<open>Limits\<close>

definition max_header_bytes :: nat where "max_header_bytes = 65536"
definition max_body_bytes :: nat where "max_body_bytes = 134217728"
definition max_inflight :: nat where "max_inflight = 268435456"

datatype read_result = Read_ok | Bad_request | Payload_too_large | Unauthorized | Server_busy

section \<open>Sizes and secrets\<close>

fun parse_size_loop :: "nat \<Rightarrow> string \<Rightarrow> nat option" where
  "parse_size_loop parsed [] = Some parsed"
| "parse_size_loop parsed (c # s) =
     (if \<not> is_digit c then None
      else if parsed > (2 ^ 64 - 1 - digit_val c) div 10 then None
      else parse_size_loop (parsed * 10 + digit_val c) s)"

definition parse_size :: "string \<Rightarrow> nat option" where
  "parse_size s = (if s = [] then None else parse_size_loop 0 s)"

text \<open>
  The loop of \<^verbatim>\<open>constant_time_equal\<close> runs over the longer of the two strings, whatever they hold;
  \<open>steps\<close> counts its iterations.
\<close>

fun compare_loop :: "nat \<Rightarrow> nat \<Rightarrow> string \<Rightarrow> string \<Rightarrow> nat \<times> nat" where
  "compare_loop diff steps [] [] = (diff, steps)"
| "compare_loop diff steps (a # l) [] = compare_loop (diff OR (char_nat a XOR 0)) (Suc steps) l []"
| "compare_loop diff steps [] (b # r) = compare_loop (diff OR (0 XOR char_nat b)) (Suc steps) [] r"
| "compare_loop diff steps (a # l) (b # r) =
     compare_loop (diff OR (char_nat a XOR char_nat b)) (Suc steps) l r"

definition constant_time_equal :: "string \<Rightarrow> string \<Rightarrow> bool" where
  "constant_time_equal l r = (fst (compare_loop (length l XOR length r) 0 l r) = 0)"

definition bearer :: string where "bearer = ''Bearer ''"

definition authorized :: "string \<Rightarrow> string \<Rightarrow> bool" where
  "authorized authorization token =
     (if token = [] then True
      else if length authorization < length bearer then False
      else if lower (take (length bearer) authorization) \<noteq> lower bearer then False
      else constant_time_equal (drop (length bearer) authorization) token)"

section \<open>The socket\<close>

datatype event = Deadline | Recv_interrupted | Recv_error | Recv_closed | Incoming bytes

definition events_size :: "event list \<Rightarrow> nat" where
  "events_size es = (\<Sum>e \<leftarrow> es. case e of Incoming b \<Rightarrow> 1 + length b | _ \<Rightarrow> 1)"

lemma events_size_simps [simp]:
  "events_size [] = 0"
  "events_size (e # es) = (case e of Incoming b \<Rightarrow> 1 + length b | _ \<Rightarrow> 1) + events_size es"
  by (simp_all add: events_size_def)

text \<open>
  One call: the bytes received (never none) and the rest of the stream, or \<^const>\<open>None\<close> when \<^verbatim>\<open>recv\<close>
  returns zero or less.  A stream that says no more is one that waits until the deadline.
\<close>

fun receive_before :: "nat \<Rightarrow> event list \<Rightarrow> (bytes \<times> event list) option" where
  "receive_before n [] = None"
| "receive_before n (Deadline # es) = None"
| "receive_before n (Recv_interrupted # es) = receive_before n es"
| "receive_before n (Recv_error # es) = None"
| "receive_before n (Recv_closed # es) = None"
| "receive_before n (Incoming b # es) =
     (if take n b = [] then None
      else Some (take n b, if drop n b = [] then es else Incoming (drop n b) # es))"

lemma receive_before_size:
  "receive_before n es = Some (b, es') \<Longrightarrow> events_size es' < events_size es \<and> b \<noteq> [] \<and> length b \<le> n"
  by (induction n es rule: receive_before.induct) (auto split: if_splits)

definition chunk_size :: nat where "chunk_size = 8192"

definition blank_line :: string where "blank_line = crlf @ crlf"

text \<open>The header loop: the buffer, the position of the blank line, and the rest of the stream.\<close>

function read_head :: "bytes \<Rightarrow> event list \<Rightarrow> read_result + (bytes \<times> nat \<times> event list)" where
  "read_head buffer es =
     (case receive_before chunk_size es of None \<Rightarrow> Inl Bad_request
      | Some (b, es') \<Rightarrow>
        (case find_sub blank_line (buffer @ b) of
           Some header_end \<Rightarrow> Inr (buffer @ b, header_end, es')
         | None \<Rightarrow>
           if length (buffer @ b) > max_header_bytes then Inl Payload_too_large
           else read_head (buffer @ b) es'))"
  by pat_completeness auto
termination
  by (relation "measure (\<lambda>(buffer, es). events_size es)") (auto dest: receive_before_size)

declare read_head.simps [simp del]

section \<open>The request line and the header fields\<close>

record request =
  rq_method :: string
  rq_path :: string
  rq_query :: string
  rq_content_type :: string
  rq_authorization :: string
  rq_range :: string
  rq_body :: bytes
  rq_reserved :: nat

definition empty_request :: request where
  "empty_request = \<lparr>rq_method = [], rq_path = [], rq_query = [], rq_content_type = [],
     rq_authorization = [], rq_range = [], rq_body = [], rq_reserved = 0\<rparr>"

definition request_line :: "string \<Rightarrow> request \<Rightarrow> request option" where
  "request_line line rq =
     (case split_words line of
        [meth, target, version] \<Rightarrow>
          if version \<noteq> ''HTTP/1.0'' \<and> version \<noteq> ''HTTP/1.1'' \<or> target = [] then None
          else let rq1 = (case find_char CHR ''?'' target of
                   None \<Rightarrow> rq\<lparr>rq_method := meth, rq_path := target\<rparr>
                 | Some q \<Rightarrow> rq\<lparr>rq_method := meth, rq_path := take q target, rq_query := drop (Suc q) target\<rparr>)
            in if rq_path rq1 = [] \<or> hd (rq_path rq1) \<noteq> CHR ''/'' then None else Some rq1
      | _ \<Rightarrow> None)"

text \<open>What the header fields have set: \<^const>\<open>None\<close> is a \<^verbatim>\<open>have_...\<close> flag still false.\<close>

record header_fields =
  hf_length :: "nat option"
  hf_type :: "string option"
  hf_authorization :: "string option"
  hf_range :: "string option"

definition no_headers :: header_fields where
  "no_headers = \<lparr>hf_length = None, hf_type = None, hf_authorization = None, hf_range = None\<rparr>"

definition header_field :: "string \<Rightarrow> string \<Rightarrow> header_fields \<Rightarrow> header_fields option" where
  "header_field key val h =
     (if key = ''content-length''
      then (if hf_length h \<noteq> None then None
            else case parse_size val of None \<Rightarrow> None | Some n \<Rightarrow> Some (h\<lparr>hf_length := Some n\<rparr>))
      else if key = ''content-type''
      then (if hf_type h \<noteq> None then None else Some (h\<lparr>hf_type := Some val\<rparr>))
      else if key = ''authorization''
      then (if hf_authorization h \<noteq> None then None else Some (h\<lparr>hf_authorization := Some val\<rparr>))
      else if key = ''range''
      then (if hf_range h \<noteq> None then None else Some (h\<lparr>hf_range := Some val\<rparr>))
      else if key = ''transfer-encoding'' then None
      else Some h)"

definition strip_cr :: "string \<Rightarrow> string" where
  "strip_cr line = (if line \<noteq> [] \<and> last line = CHR 0x0D then butlast line else line)"

definition header_line :: "string \<Rightarrow> header_fields \<Rightarrow> header_fields option" where
  "header_line line0 h =
     (let line = strip_cr line0
      in if line = [] \<or> hd line = CHR '' '' \<or> hd line = CHR 0x09 then None
         else case find_char CHR '':'' line of None \<Rightarrow> None
         | Some colon \<Rightarrow>
           if colon = 0 then None
           else let key = lower (take colon line) in
             if \<not> list_all (\<lambda>c. is_alnum c \<or> c = CHR ''-'') key then None
             else header_field key (trim (drop (Suc colon) line)) h)"

fun header_lines :: "string list \<Rightarrow> header_fields \<Rightarrow> header_fields option" where
  "header_lines [] h = Some h"
| "header_lines (l # ls) h =
     (case header_line l h of None \<Rightarrow> None | Some h' \<Rightarrow> header_lines ls h')"

definition or_empty :: "string option \<Rightarrow> string" where
  "or_empty v = (case v of None \<Rightarrow> [] | Some s \<Rightarrow> s)"

definition apply_headers :: "header_fields \<Rightarrow> request \<Rightarrow> request" where
  "apply_headers h rq = rq\<lparr>rq_content_type := or_empty (hf_type h),
     rq_authorization := or_empty (hf_authorization h), rq_range := or_empty (hf_range h)\<rparr>"

section \<open>The reservation of body memory\<close>

text \<open>One test of the loop: the new counter value, or \<^const>\<open>None\<close> when the server is busy.\<close>

definition reserve_check :: "nat \<Rightarrow> nat \<Rightarrow> nat option" where
  "reserve_check n inflight =
     (if inflight > max_inflight \<or> n > max_inflight - inflight then None else Some (inflight + n))"

text \<open>
  The compare-and-exchange loop: \<open>seen\<close> holds the counter values it sees, the last one being that of
  the exchange that succeeds.
\<close>

fun reserve_loop :: "nat \<Rightarrow> nat list \<Rightarrow> bool" where
  "reserve_loop n [] = False"
| "reserve_loop n (v # vs) =
     (case reserve_check n v of None \<Rightarrow> False | Some _ \<Rightarrow> vs = [] \<or> reserve_loop n vs)"

section \<open>The body\<close>

function read_body :: "nat \<Rightarrow> bytes \<Rightarrow> event list \<Rightarrow> bytes option" where
  "read_body content_length body es =
     (if length body \<ge> content_length then Some body
      else case receive_before (min chunk_size (content_length - length body)) es of None \<Rightarrow> None
      | Some (b, es') \<Rightarrow> read_body content_length (body @ b) es')"
  by pat_completeness auto
termination
  by (relation "measure (\<lambda>(n, body, es). events_size es)") (auto dest: receive_before_size)

declare read_body.simps [simp del]

section \<open>The whole request\<close>

text \<open>The headers: the request so far and the announced length.\<close>

definition parse_head :: "string \<Rightarrow> (request \<times> header_fields) option" where
  "parse_head head =
     (let ls = split_lines head
      in case request_line (case ls of [] \<Rightarrow> [] | l # _ \<Rightarrow> l) empty_request of None \<Rightarrow> None
         | Some rq \<Rightarrow>
           (case header_lines (tl ls) no_headers of None \<Rightarrow> None
            | Some h \<Rightarrow> Some (apply_headers h rq, h)))"

definition content_length :: "header_fields \<Rightarrow> nat" where
  "content_length h = (case hf_length h of None \<Rightarrow> 0 | Some n \<Rightarrow> n)"

definition admit :: "string \<Rightarrow> request \<Rightarrow> header_fields \<Rightarrow> read_result" where
  "admit token rq h =
     (if content_length h > max_body_bytes then Payload_too_large
      else if (rq_method rq = ''POST'' \<or> rq_method rq = ''PUT'') \<and> hf_length h = None then Bad_request
      else if starts_with (rq_path rq) ''/api/'' \<and> \<not> authorized (rq_authorization rq) token
      then Unauthorized
      else Read_ok)"

definition read_request :: "event list \<Rightarrow> string \<Rightarrow> nat list \<Rightarrow> read_result \<times> request" where
  "read_request es token seen =
     (case read_head [] es of Inl r \<Rightarrow> (r, empty_request)
      | Inr (buffer, header_end, es') \<Rightarrow>
        if header_end > max_header_bytes then (Payload_too_large, empty_request)
        else case parse_head (take header_end buffer) of None \<Rightarrow> (Bad_request, empty_request)
        | Some (rq, h) \<Rightarrow>
          let n = content_length h in
          if admit token rq h \<noteq> Read_ok then (admit token rq h, rq)
          else if \<not> reserve_loop n seen then (Server_busy, rq)
          else let rq' = rq\<lparr>rq_reserved := n\<rparr> in
            (case read_body n (take n (drop (header_end + 4) buffer)) es' of
               None \<Rightarrow> (Bad_request, rq')
             | Some body \<Rightarrow> (Read_ok, rq'\<lparr>rq_body := body\<rparr>)))"

end
