(* ===== verification/HttpRequestContract.thy ===== *)
theory HttpRequestContract
  imports HttpRequest
begin

text \<open>
  What a request that was read may hold, the authorization test, and the round trip of a written
  request through the reader, however the network cuts it.
\<close>

section \<open>Secrets\<close>

lemma xor_eq_0: "(a XOR b = 0) = (a = (b :: nat))"
  by (auto simp: bit_eq_iff bit_simps)

lemma or_eq_0: "(a OR b = 0) = (a = 0 \<and> b = (0 :: nat))"
  by (auto simp: bit_eq_iff bit_simps)

lemma compare_loop_sticky: "d \<noteq> 0 \<Longrightarrow> fst (compare_loop d n l r) \<noteq> 0"
  by (induction d n l r rule: compare_loop.induct) (simp_all add: or_eq_0)

lemma char_nat_inj: "(char_nat a = char_nat b) = (a = b)"
  by (simp add: char_nat_def)

lemma compare_loop_same_length:
  "length l = length r \<Longrightarrow> (fst (compare_loop 0 n l r) = 0) = (l = r)"
proof (induction l r arbitrary: n rule: list_induct2)
  case (Cons a l b r)
  show ?case
  proof (cases "a = b")
    case True
    with Cons show ?thesis by simp
  next
    case False
    then have "char_nat a XOR char_nat b \<noteq> 0" by (simp add: xor_eq_0 char_nat_inj)
    with False show ?thesis using compare_loop_sticky by simp
  qed
qed simp

lemma compare_loop_steps: "snd (compare_loop d n l r) = n + max (length l) (length r)"
  by (induction d n l r rule: compare_loop.induct) simp_all

lemma constant_time_equal_iff: "constant_time_equal l r = (l = r)"
proof (cases "length l = length r")
  case True
  then show ?thesis by (simp add: constant_time_equal_def xor_eq_0 compare_loop_same_length)
next
  case False
  then have "length l XOR length r \<noteq> 0" by (simp add: xor_eq_0)
  with False show ?thesis using compare_loop_sticky [of "length l XOR length r" 0 l r]
    by (auto simp: constant_time_equal_def)
qed

lemma authorized_iff:
  "authorized a token \<longleftrightarrow>
     token = [] \<or> length bearer \<le> length a \<and> lower (take (length bearer) a) = lower bearer \<and>
       drop (length bearer) a = token"
  by (auto simp: authorized_def constant_time_equal_iff)

section \<open>Sizes\<close>

lemma parse_size_loop_bound: "parse_size_loop v s = Some n \<Longrightarrow> v < 2 ^ 64 \<Longrightarrow> n < 2 ^ 64"
proof (induction v s rule: parse_size_loop.induct)
  case (2 v c s)
  then have d: "is_digit c" and "\<not> v > (2 ^ 64 - 1 - digit_val c) div 10"
    and r: "parse_size_loop (v * 10 + digit_val c) s = Some n" by (auto split: if_splits)
  then have "v * 10 + digit_val c < 2 ^ 64"
    using digits_guard [of "digit_val c" v] by simp
  with 2 d r show ?case by auto
qed simp

lemma parse_size_loop_value:
  "dec_value_from v s < 2 ^ 64 \<Longrightarrow> \<forall>c \<in> set s. is_digit c \<Longrightarrow>
     parse_size_loop v s = Some (dec_value_from v s)"
proof (induction s arbitrary: v)
  case (Cons c s)
  have "10 * v + digit_val c < 2 ^ 64"
    using dec_value_from_ge [of "10 * v + digit_val c" s] Cons.prems(1) by simp
  then have "\<not> v > (2 ^ 64 - 1 - digit_val c) div 10"
    using digits_guard [of "digit_val c" v] Cons.prems(2) by simp
  with Cons show ?case by (simp add: mult.commute)
qed simp

lemma parse_size_dec: "n < 2 ^ 64 \<Longrightarrow> parse_size (dec n) = Some n"
  using parse_size_loop_value [of 0 "dec n"] dec_digits by (simp add: parse_size_def)

section \<open>The body and the reservation\<close>

lemma read_body_length: "read_body n b es = Some v \<Longrightarrow> length b \<le> n \<Longrightarrow> length v = n"
proof (induction n b es rule: read_body.induct)
  case (1 n b es)
  show ?case
  proof (cases "length b \<ge> n")
    case True
    with "1.prems" show ?thesis by (subst (asm) read_body.simps) simp
  next
    case False
    with "1.prems" obtain c es' where c: "receive_before (min chunk_size (n - length b)) es = Some (c, es')"
      and r: "read_body n (b @ c) es' = Some v"
      by (subst (asm) read_body.simps) (auto split: option.splits)
    from receive_before_size [OF c] False have "length (b @ c) \<le> n" by simp arith
    with "1.IH" [OF False c refl r] show ?thesis .
  qed
qed

lemma reserve_loop_last:
  "reserve_loop n seen \<Longrightarrow> seen \<noteq> [] \<and> last seen + n \<le> max_inflight"
  by (induction n seen rule: reserve_loop.induct)
     (auto simp: reserve_check_def split: option.splits if_splits)

lemma read_head_not_ok: "read_head b es \<noteq> Inl Read_ok"
proof (induction b es rule: read_head.induct)
  case (1 b es)
  then show ?case by (subst read_head.simps) (auto split: option.splits)
qed

lemma read_request_Ok:
  assumes "read_request es token seen = (Read_ok, r)"
  obtains rq h b where "admit token rq h = Read_ok" "reserve_loop (content_length h) seen"
    "length b = content_length h" "r = rq\<lparr>rq_reserved := content_length h, rq_body := b\<rparr>"
    "\<exists>head. parse_head head = Some (rq, h)"
proof -
  from assms obtain buffer e es' rq h b where
    p: "parse_head (take e buffer) = Some (rq, h)" "admit token rq h = Read_ok"
    "reserve_loop (content_length h) seen"
    and b: "read_body (content_length h) (take (content_length h) (drop (e + 4) buffer)) es' = Some b"
    and r: "r = rq\<lparr>rq_reserved := content_length h, rq_body := b\<rparr>"
    by (auto simp: read_request_def Let_def read_head_not_ok split: sum.splits if_splits option.splits)
  from read_body_length [OF b] have "length b = content_length h" by simp
  with that p r show ?thesis by blast
qed

lemma request_line_path:
  "request_line l rq = Some rq' \<Longrightarrow> rq_path rq' \<noteq> [] \<and> hd (rq_path rq') = CHR ''/'' \<and>
     CHR ''?'' \<notin> set (rq_path rq')"
  by (auto simp: request_line_def Let_def find_char_None dest: find_char_Some
      split: list.splits if_splits option.splits)

lemma parse_head_path:
  "parse_head s = Some (rq, h) \<Longrightarrow> rq_path rq \<noteq> [] \<and> hd (rq_path rq) = CHR ''/'' \<and>
     CHR ''?'' \<notin> set (rq_path rq)"
  by (auto simp: parse_head_def Let_def apply_headers_def dest!: request_line_path split: option.splits)

lemma lower_bearer: "lower ''Bearer '' = ''bearer ''"
  by code_simp

text \<open>C10: A request that is passed to a handler has a path that starts with a slash and holds no
  query, a body of exactly the length it reserved memory for, which is within the body limit and,
  added to the counter value of the successful exchange, within the limit for all requests; and if
  it is for the API and a token is set, its authorization is that token behind the word Bearer.\<close>

theorem request_admission:
  assumes "read_request es token seen = (Read_ok, r)"
  shows "hd (rq_path r) = CHR ''/'' \<and> CHR ''?'' \<notin> set (rq_path r) \<and>
    length (rq_body r) = rq_reserved r \<and> rq_reserved r \<le> max_body_bytes \<and>
    last seen + rq_reserved r \<le> max_inflight \<and>
    (starts_with (rq_path r) ''/api/'' \<and> token \<noteq> [] \<longrightarrow>
       lower (take 7 (rq_authorization r)) = ''bearer '' \<and> drop 7 (rq_authorization r) = token)"
proof -
  from assms obtain rq h b head where a: "admit token rq h = Read_ok"
    and res: "reserve_loop (content_length h) seen" and b: "length b = content_length h"
    and r: "r = rq\<lparr>rq_reserved := content_length h, rq_body := b\<rparr>"
    and p: "parse_head head = Some (rq, h)" by (rule read_request_Ok) blast
  have len: "length bearer = 7" "lower bearer = ''bearer ''"
    by (simp_all add: bearer_def lower_bearer)
  from a have "content_length h \<le> max_body_bytes"
    and "starts_with (rq_path rq) ''/api/'' \<longrightarrow> authorized (rq_authorization rq) token"
    by (auto simp: admit_def not_less split: if_splits)
  with parse_head_path [OF p] reserve_loop_last [OF res] b show ?thesis
    by (auto simp: r authorized_iff len)
qed

section \<open>The stream, however it is cut\<close>

text \<open>A peer that sends and does not fail: non-empty pieces, interruptions of the call.\<close>

fun calm :: "event list \<Rightarrow> bool" where
  "calm [] = True"
| "calm (Incoming b # es) = (b \<noteq> [] \<and> calm es)"
| "calm (Recv_interrupted # es) = calm es"
| "calm (_ # es) = False"

fun stream :: "event list \<Rightarrow> bytes" where
  "stream [] = []"
| "stream (Incoming b # es) = b @ stream es"
| "stream (_ # es) = stream es"

lemma receive_calm:
  "calm es \<Longrightarrow> stream es \<noteq> [] \<Longrightarrow> 0 < n \<Longrightarrow>
     \<exists>b es'. receive_before n es = Some (b, es') \<and> b @ stream es' = stream es \<and> calm es' \<and> b \<noteq> [] \<and> length b \<le> n"
proof (induction n es rule: receive_before.induct)
  case (6 n b es)
  then show ?case by (cases "drop n b = []") auto
qed auto

lemma window: "i + p \<le> k \<Longrightarrow> take p (drop i (take k t)) = take p (drop i t)"
  by (simp add: drop_take min_absorb1)

lemma find_sub_prefix:
  assumes "find_sub pat t = Some e"
  shows "find_sub pat (take k t) = (if e + length pat \<le> k then Some e else None)"
proof (cases "find_sub pat (take k t)")
  case None
  show ?thesis
  proof (cases "e + length pat \<le> k")
    case True
    then have "take (length pat) (drop e (take k t)) = take (length pat) (drop e t)" by (rule window)
    with find_sub_None [OF None, of e] find_sub_Some [OF assms] have "pat = []" by simp
    with None show ?thesis by (cases "take k t") auto
  qed (simp add: None)
next
  case (Some i)
  note i = find_sub_Some [OF Some]
  then have "take (length pat) (drop i t) = pat" using window [of i "length pat" k t] by simp
  with find_sub_first [OF assms, of i] have "e \<le> i" by (meson not_le)
  moreover have "i \<le> e"
  proof (rule ccontr)
    assume "\<not> i \<le> e"
    with i have "take (length pat) (drop e (take k t)) = take (length pat) (drop e t)"
      by (intro window) simp
    with find_sub_first [OF Some, of e] find_sub_Some [OF assms] \<open>\<not> i \<le> e\<close> show False by simp
  qed
  ultimately show ?thesis using Some i by (auto split: if_splits)
qed

lemma read_head_stream:
  assumes "find_sub blank_line (buffer @ stream es) = Some e" "calm es" "e + 4 \<le> max_header_bytes"
    and "length buffer < e + 4"
  shows "\<exists>buffer' es'. read_head buffer es = Inr (buffer', e, es') \<and> calm es' \<and>
    buffer' @ stream es' = buffer @ stream es \<and> e + 4 \<le> length buffer'"
  using assms
proof (induction buffer es rule: read_head.induct)
  case (1 buffer es)
  have len: "length blank_line = 4" by (simp add: blank_line_def)
  have "e + 4 \<le> length (buffer @ stream es)"
    using find_sub_Some [OF "1.prems"(1)] by (simp only: len)
  with "1.prems"(4) have ne: "stream es \<noteq> []" by (cases "stream es") simp_all
  have pos: "0 < chunk_size" by (simp add: chunk_size_def)
  obtain b es' where r: "receive_before chunk_size es = Some (b, es')"
    and b: "b @ stream es' = stream es" and c: "calm es'"
    using receive_calm [OF "1.prems"(2) ne pos] by blast
  have t: "take (length (buffer @ b)) (buffer @ stream es) = buffer @ b"
    by (simp add: b [symmetric])
  have f: "find_sub blank_line (buffer @ b)
      = (if e + 4 \<le> length (buffer @ b) then Some e else None)"
    using find_sub_prefix [OF "1.prems"(1), of "length (buffer @ b)"] by (simp only: t len)
  have e: "find_sub blank_line ((buffer @ b) @ stream es') = Some e"
    using "1.prems"(1) b by simp
  show ?case
  proof (cases "e + 4 \<le> length (buffer @ b)")
    case True
    then show ?thesis using f b c by (subst read_head.simps) (simp add: r)
  next
    case False
    with f have n: "find_sub blank_line (buffer @ b) = None" by simp
    have le: "\<not> max_header_bytes < length (buffer @ b)" using False "1.prems"(3) by simp
    have lt: "length (buffer @ b) < e + 4" using False by simp
    have "read_head buffer es = read_head (buffer @ b) es'"
      using n le by (subst read_head.simps) (simp add: r)
    with "1.IH" [OF r refl n le e c "1.prems"(3) lt] show ?thesis using b by simp
  qed
qed

lemma read_body_stream:
  "calm es \<Longrightarrow> length b \<le> n \<Longrightarrow> n \<le> length (b @ stream es) \<Longrightarrow>
     read_body n b es = Some (take n (b @ stream es))"
proof (induction n b es rule: read_body.induct)
  case (1 n b es)
  show ?case
  proof (cases "n \<le> length b")
    case True
    with "1.prems" show ?thesis by (subst read_body.simps) simp
  next
    case False
    with "1.prems"(3) have "stream es \<noteq> []" by auto
    then obtain c es' where r: "receive_before (min chunk_size (n - length b)) es = Some (c, es')"
      and c: "c @ stream es' = stream es" "calm es'" and l: "length c \<le> min chunk_size (n - length b)"
      using receive_calm [OF "1.prems"(1), of "min chunk_size (n - length b)"] False
      by (auto simp: chunk_size_def)
    have "length (b @ c) \<le> n" using l False by simp arith
    moreover have e: "(b @ c) @ stream es' = b @ stream es" using c(1) by simp
    moreover have "n \<le> length ((b @ c) @ stream es')" unfolding e by (rule "1.prems"(3))
    ultimately have "read_body n (b @ c) es' = Some (take n (b @ stream es))"
      using "1.IH" [OF False r refl c(2)] by (simp only: e)
    then show ?thesis using False by (subst read_body.simps) (simp add: r)
  qed
qed

section \<open>Writing a request\<close>

definition field_text :: "string \<Rightarrow> bool" where
  "field_text v \<longleftrightarrow> CHR 0x0D \<notin> set v \<and> CHR 0x0A \<notin> set v \<and> trimmed v"

definition line_word :: "string \<Rightarrow> bool" where
  "line_word w \<longleftrightarrow> w \<noteq> [] \<and> (\<forall>c \<in> set w. \<not> is_space c)"

definition request_target :: "request \<Rightarrow> string" where
  "request_target q = rq_path q @ (if rq_query q = [] then [] else CHR ''?'' # rq_query q)"

definition head_lines :: "request \<Rightarrow> string list" where
  "head_lines q =
     [rq_method q @ '' '' @ request_target q @ '' HTTP/1.1'',
      ''Content-Type: '' @ rq_content_type q,
      ''Authorization: '' @ rq_authorization q,
      ''Range: '' @ rq_range q,
      ''Content-Length: '' @ dec (length (rq_body q))]"

fun join_lines :: "string list \<Rightarrow> string" where
  "join_lines [] = []"
| "join_lines [l] = l"
| "join_lines (l # ls) = l @ crlf @ join_lines ls"

definition request_bytes :: "request \<Rightarrow> bytes" where
  "request_bytes q = join_lines (head_lines q) @ blank_line @ rq_body q"

definition wf_request :: "request \<Rightarrow> bool" where
  "wf_request q \<longleftrightarrow>
     line_word (rq_method q) \<and> line_word (request_target q) \<and> hd (rq_path q) = CHR ''/'' \<and>
     rq_path q \<noteq> [] \<and> CHR ''?'' \<notin> set (rq_path q) \<and>
     field_text (rq_content_type q) \<and> field_text (rq_authorization q) \<and> field_text (rq_range q) \<and>
     length (rq_body q) < 2 ^ 64"

definition plain_line :: "string \<Rightarrow> bool" where
  "plain_line l \<longleftrightarrow> l \<noteq> [] \<and> CHR 0x0D \<notin> set l \<and> CHR 0x0A \<notin> set l"

lemma find_sub_over:
  "hd pat \<notin> set l \<Longrightarrow> pat \<noteq> [] \<Longrightarrow> find_sub pat (l @ s) = map_option (\<lambda>i. length l + i) (find_sub pat s)"
proof (induction l)
  case Nil
  then show ?case by (simp add: option.map_ident)
next
  case (Cons c l)
  then have "take (length pat) (c # l @ s) \<noteq> pat" by (cases pat) auto
  with Cons show ?case by (simp add: option.map_comp comp_def)
qed

lemma find_blank_join:
  "ls \<noteq> [] \<Longrightarrow> list_all plain_line ls \<Longrightarrow>
     find_sub blank_line (join_lines ls @ blank_line @ s) = Some (length (join_lines ls))"
proof (induction ls rule: join_lines.induct)
  case (2 l)
  then show ?case
    using find_sub_skip [of blank_line l s] by (simp add: plain_line_def blank_line_def crlf_def)
next
  case (3 l m ls)
  let ?j = "join_lines (m # ls)"
  from 3 have l: "hd blank_line \<notin> set l" and ne: "blank_line \<noteq> []"
    by (simp_all add: plain_line_def blank_line_def crlf_def)
  from 3 obtain c r where j: "?j = c # r" and c: "c \<noteq> CHR 0x0D"
    by (cases m; cases ls) (auto simp: plain_line_def)
  have "find_sub blank_line (crlf @ ?j @ blank_line @ s)
      = map_option (\<lambda>i. 2 + i) (find_sub blank_line (?j @ blank_line @ s))"
    using c by (simp add: j blank_line_def crlf_def option.map_comp comp_def)
  with 3 show ?case by (simp add: find_sub_over [OF l ne])
qed simp

lemma split_join:
  "ls \<noteq> [] \<Longrightarrow> list_all plain_line ls \<Longrightarrow>
     split_lines (join_lines ls) = map (\<lambda>l. l @ [CHR 0x0D]) (butlast ls) @ [last ls]"
proof (induction ls rule: join_lines.induct)
  case (2 l)
  then show ?case by (simp add: plain_line_def split_lines_last)
next
  case (3 l m ls)
  have e: "join_lines (l # m # ls) = (l @ [CHR 0x0D]) @ CHR 0x0A # join_lines (m # ls)"
    by (simp add: crlf_def)
  have "CHR 0x0A \<notin> set (l @ [CHR 0x0D])" using 3 by (simp add: plain_line_def)
  then have "split_lines (join_lines (l # m # ls)) = (l @ [CHR 0x0D]) # split_lines (join_lines (m # ls))"
    unfolding e by (rule split_lines_Cons)
  with 3 show ?case by simp
qed simp

lemma header_line_field:
  assumes "field_text v" "key \<noteq> []" "list_all (\<lambda>c. is_alnum c \<or> c = CHR ''-'') key"
    and "lower key = lkey" "list_all (\<lambda>c. is_alnum c \<or> c = CHR ''-'') lkey" "cr = [] \<or> cr = [CHR 0x0D]"
    and "v = [] \<longrightarrow> cr = [CHR 0x0D]"
  shows "header_line ((key @ '': '' @ v) @ cr) h = header_field lkey v h"
proof -
  have v: "CHR 0x0D \<notin> set v" "trim (CHR '' '' # v) = v"
    using assms(1) by (simp_all add: field_text_def trim_blank trim_trimmed)
  have "v \<noteq> [] \<longrightarrow> last v \<noteq> CHR 0x0D" using v(1) by (metis last_in_set)
  then have "last (key @ '': '' @ v) \<noteq> CHR 0x0D" by (cases "v = []") simp_all
  then have strip: "strip_cr ((key @ '': '' @ v) @ cr) = key @ '': '' @ v"
    using assms(6) by (auto simp: strip_cr_def butlast_append)
  have colon: "CHR '':'' \<notin> set key"
    using assms(3) by (auto simp: list_all_iff is_alnum_def is_digit_def is_upper_def is_lower_def char_nat_def)
  have first: "hd key \<noteq> CHR '' ''" "hd key \<noteq> CHR 0x09"
    using assms(2,3) by (cases key; auto simp: is_alnum_def is_digit_def is_upper_def is_lower_def char_nat_def)+
  have f: "find_char CHR '':'' (key @ '': '' @ v) = Some (length key)"
    using find_char_append [OF colon, of "CHR '' '' # v"] by simp
  show ?thesis
    unfolding header_line_def strip Let_def f
    using assms(2,4,5) first by (simp add: v(2))
qed

lemma lower_names:
  "lower ''Content-Type'' = ''content-type''" "lower ''Authorization'' = ''authorization''"
  "lower ''Range'' = ''range''" "lower ''Content-Length'' = ''content-length''"
  by code_simp+

definition token_char :: "char \<Rightarrow> bool" where
  "token_char c \<longleftrightarrow> is_alnum c \<or> c = CHR ''-''"

lemma names_ok:
  "list_all (\<lambda>c. is_alnum c \<or> c = CHR ''-'') n"
  if "n \<in> {''Content-Type'', ''Authorization'', ''Range'', ''Content-Length'', ''content-type'',
     ''authorization'', ''range'', ''content-length''}"
  using that by (auto simp: is_alnum_def is_digit_def is_upper_def is_lower_def char_nat_def)

lemma dec_field_text: "field_text (dec n)"
proof -
  have d: "\<And>c. c \<in> set (dec n) \<Longrightarrow> is_digit c" by (rule dec_digits)
  have "CHR 0x0D \<notin> set (dec n)" "CHR 0x0A \<notin> set (dec n)" using d [of "CHR 0x0D"] d [of "CHR 0x0A"] by (auto simp: is_digit_def)
  moreover have "\<not> is_blank c" if "is_digit c" for c using that by (auto simp: is_digit_def is_blank_def)
  ultimately show ?thesis by (simp add: field_text_def trimmed_def d)
qed

lemma split_words_cr: "line_word w \<Longrightarrow> split_words (w @ [CHR 0x0D]) = [w]"
proof -
  assume "line_word w"
  then have w: "w \<noteq> []" "\<forall>c \<in> set w. \<not> is_space c" by (simp_all add: line_word_def)
  have sp: "is_space CHR 0x0D" by (simp add: is_space_def char_nat_def)
  have d: "dropWhile is_space (w @ [CHR 0x0D]) = w @ [CHR 0x0D]" using w by (intro dropWhile_hd) simp
  have t: "takeWhile (\<lambda>c. \<not> is_space c) (w @ [CHR 0x0D]) = w"
    "dropWhile (\<lambda>c. \<not> is_space c) (w @ [CHR 0x0D]) = [CHR 0x0D]"
    using w sp by (simp_all add: takeWhile_append2 dropWhile_append2)
  have e: "split_words [CHR 0x0D] = []" using sp by (simp add: split_words.simps)
  show ?thesis by (subst split_words.simps) (simp add: Let_def d t e)
qed

lemma version_word: "line_word ''HTTP/1.1''"
  by (simp add: line_word_def is_space_def char_nat_def)

lemma request_line_written:
  assumes "wf_request q"
  shows "request_line (hd (head_lines q) @ [CHR 0x0D]) empty_request =
    Some (empty_request\<lparr>rq_method := rq_method q, rq_path := rq_path q, rq_query := rq_query q\<rparr>)"
proof -
  have w: "line_word (rq_method q)" "line_word (request_target q)" and p: "rq_path q \<noteq> []"
    "hd (rq_path q) = CHR ''/''" "CHR ''?'' \<notin> set (rq_path q)"
    using assms by (simp_all add: wf_request_def)
  have "split_words (hd (head_lines q) @ [CHR 0x0D]) = [rq_method q, request_target q, ''HTTP/1.1'']"
    using split_words_Cons [of "rq_method q" "request_target q @ '' HTTP/1.1'' @ [CHR 0x0D]"]
      split_words_Cons [of "request_target q" "''HTTP/1.1'' @ [CHR 0x0D]"] w split_words_cr [OF version_word]
    by (simp add: head_lines_def line_word_def)
  moreover have "find_char CHR ''?'' (request_target q) = (if rq_query q = [] then None else Some (length (rq_path q)))"
    using p(3) find_char_append [of "CHR ''?''" "rq_path q" "rq_query q"]
    by (simp add: request_target_def find_char_None)
  ultimately show ?thesis
    using w(2) p by (simp add: request_line_def Let_def line_word_def request_target_def empty_request_def)
qed

definition written_fields :: "request \<Rightarrow> header_fields" where
  "written_fields q = \<lparr>hf_length = Some (length (rq_body q)), hf_type = Some (rq_content_type q),
     hf_authorization = Some (rq_authorization q), hf_range = Some (rq_range q)\<rparr>"

lemma header_lines_written:
  assumes "wf_request q"
  shows "header_lines (map (\<lambda>l. l @ [CHR 0x0D]) (butlast (tl (head_lines q))) @ [last (tl (head_lines q))]) no_headers
    = Some (written_fields q)"
proof -
  have f: "field_text (rq_content_type q)" "field_text (rq_authorization q)" "field_text (rq_range q)"
    and n: "length (rq_body q) < 2 ^ 64" using assms by (simp_all add: wf_request_def)
  note h = header_line_field [OF _ _ names_ok lower_names(1) names_ok, of _ "[CHR 0x0D]"]
    header_line_field [OF _ _ names_ok lower_names(2) names_ok, of _ "[CHR 0x0D]"]
    header_line_field [OF _ _ names_ok lower_names(3) names_ok, of _ "[CHR 0x0D]"]
    header_line_field [OF _ _ names_ok lower_names(4) names_ok, of _ "[]"]
  have "tl (head_lines q) = [''Content-Type'' @ '': '' @ rq_content_type q,
      ''Authorization'' @ '': '' @ rq_authorization q, ''Range'' @ '': '' @ rq_range q,
      ''Content-Length'' @ '': '' @ dec (length (rq_body q)) @ []]"
    by (simp add: head_lines_def)
  moreover have "header_line ((''Content-Type'' @ '': '' @ rq_content_type q) @ [CHR 0x0D]) x
      = header_field ''content-type'' (rq_content_type q) x"
    "header_line ((''Authorization'' @ '': '' @ rq_authorization q) @ [CHR 0x0D]) x
      = header_field ''authorization'' (rq_authorization q) x"
    "header_line ((''Range'' @ '': '' @ rq_range q) @ [CHR 0x0D]) x
      = header_field ''range'' (rq_range q) x"
    "header_line (''Content-Length'' @ '': '' @ dec (length (rq_body q))) x
      = header_field ''content-length'' (dec (length (rq_body q))) x" for x
    using h(1) [OF f(1)] h(2) [OF f(2)] h(3) [OF f(3)] h(4) [OF dec_field_text] by simp_all
  ultimately show ?thesis
    using n by (simp add: header_field_def no_headers_def written_fields_def parse_size_dec)
qed

lemma crlf_space: "is_space CHR 0x0D" "is_space CHR 0x0A"
  by (simp_all add: is_space_def char_nat_def)

lemma line_word_plain: "line_word w \<Longrightarrow> CHR 0x0D \<notin> set w" "line_word w \<Longrightarrow> CHR 0x0A \<notin> set w"
  using crlf_space unfolding line_word_def by blast+

lemma head_lines_plain:
  assumes "wf_request q"
  shows "list_all plain_line (head_lines q)"
proof -
  have w: "line_word (rq_method q)" "line_word (request_target q)" using assms by (simp_all add: wf_request_def)
  have "CHR 0x0D \<notin> set (rq_method q @ request_target q)" "CHR 0x0A \<notin> set (rq_method q @ request_target q)"
    using line_word_plain [OF w(1)] line_word_plain [OF w(2)] by simp_all
  moreover have "CHR 0x0D \<notin> set (dec n)" "CHR 0x0A \<notin> set (dec n)" for n
    using dec_field_text [of n] by (simp_all add: field_text_def)
  ultimately show ?thesis
    using assms by (simp add: head_lines_def plain_line_def wf_request_def field_text_def)
qed

lemma parse_head_written:
  assumes "wf_request q"
  shows "parse_head (join_lines (head_lines q)) =
    Some (q\<lparr>rq_body := [], rq_reserved := 0\<rparr>, written_fields q)"
proof -
  let ?ls = "split_lines (join_lines (head_lines q))"
  have ne: "head_lines q \<noteq> []" "tl (head_lines q) \<noteq> []" by (simp_all add: head_lines_def)
  have ls: "?ls = (hd (head_lines q) @ [CHR 0x0D]) #
      map (\<lambda>l. l @ [CHR 0x0D]) (butlast (tl (head_lines q))) @ [last (tl (head_lines q))]"
    using split_join [OF ne(1) head_lines_plain [OF assms]] ne by (cases "head_lines q") simp_all
  have "parse_head (join_lines (head_lines q)) = Some (apply_headers (written_fields q)
      (empty_request\<lparr>rq_method := rq_method q, rq_path := rq_path q, rq_query := rq_query q\<rparr>), written_fields q)"
    by (simp only: parse_head_def Let_def ls list.case list.sel request_line_written [OF assms]
        header_lines_written [OF assms] option.case)
  also have "apply_headers (written_fields q)
      (empty_request\<lparr>rq_method := rq_method q, rq_path := rq_path q, rq_query := rq_query q\<rparr>)
      = q\<lparr>rq_body := [], rq_reserved := 0\<rparr>"
    by (cases q) (simp add: apply_headers_def written_fields_def or_empty_def empty_request_def)
  finally show ?thesis .
qed

lemma read_written:
  assumes "wf_request q" and "calm es" and "stream es = request_bytes q"
    and "length (join_lines (head_lines q)) + 4 \<le> max_header_bytes"
    and "admit token q (written_fields q) = Read_ok"
    and "reserve_loop (length (rq_body q)) seen"
  shows "read_request es token seen = (Read_ok, q\<lparr>rq_reserved := length (rq_body q)\<rparr>)"
proof -
  let ?e = "length (join_lines (head_lines q))"
  have ne: "head_lines q \<noteq> []" by (simp add: head_lines_def)
  have f: "find_sub blank_line ([] @ stream es) = Some ?e"
    using find_blank_join [OF ne head_lines_plain [OF assms(1)]] by (simp add: assms(3) request_bytes_def)
  obtain b es' where h: "read_head [] es = Inr (b, ?e, es')" and c: "calm es'"
    and b: "b @ stream es' = request_bytes q" and l: "?e + 4 \<le> length b"
    using read_head_stream [OF f assms(2,4)] assms(3) by auto
  have four: "length blank_line = 4" by (simp add: blank_line_def)
  have "take ?e b = take ?e (b @ stream es')" using l by simp
  also have "\<dots> = join_lines (head_lines q)" unfolding b by (simp add: request_bytes_def)
  finally have t: "take ?e b = join_lines (head_lines q)" .
  have "drop (?e + 4) b @ stream es' = drop (?e + 4) (b @ stream es')" using l by simp
  also have "\<dots> = rq_body q" unfolding b by (simp add: request_bytes_def four)
  finally have d: "drop (?e + 4) b @ stream es' = rq_body q" .
  have "length (drop (?e + 4) b) \<le> length (rq_body q)" using d by (metis le_add1 length_append)
  then have td: "take (length (rq_body q)) (drop (?e + 4) b) = drop (?e + 4) b" by simp
  have body: "read_body (length (rq_body q)) (drop (?e + 4) b) es' = Some (rq_body q)"
    using read_body_stream [OF c, of "drop (?e + 4) b" "length (rq_body q)"] d
      \<open>length (drop (?e + 4) b) \<le> length (rq_body q)\<close> by simp
  have n: "content_length (written_fields q) = length (rq_body q)"
    by (simp add: content_length_def written_fields_def)
  have a: "admit token (q\<lparr>rq_body := [], rq_reserved := 0\<rparr>) (written_fields q) = Read_ok"
    unfolding assms(5) [symmetric] by (simp add: admit_def)
  show ?thesis
    using assms(4,6) by (simp add: read_request_def h t parse_head_written [OF assms(1)] Let_def a n td body)
qed

text \<open>C11: A well-formed request written to the socket is read back field by field, with its whole
  body, however the network cuts the bytes into pieces and interrupts the reads, provided it is
  within the limits, authorized, and the counter leaves room for its body.\<close>

theorem request_roundtrip:
  assumes "wf_request q" and "calm es" and "stream es = request_bytes q"
    and "length (join_lines (head_lines q)) + 4 \<le> max_header_bytes"
    and "admit token q (written_fields q) = Read_ok"
    and "reserve_loop (length (rq_body q)) seen"
  shows "read_request es token seen = (Read_ok, q\<lparr>rq_reserved := length (rq_body q)\<rparr>)"
  by (rule read_written [OF assms])

definition sample_request :: request where
  "sample_request = \<lparr>rq_method = ''POST'', rq_path = ''/api/tasks'', rq_query = ''a=1'',
     rq_content_type = ''text/plain'', rq_authorization = ''Bearer k'', rq_range = [], rq_body = ''abc'',
     rq_reserved = 0\<rparr>"

definition sample_events :: "event list" where
  "sample_events = [Incoming (take 20 (request_bytes sample_request)), Recv_interrupted,
     Incoming (drop 20 (request_bytes sample_request))]"

lemma length_dec_3: "length (dec (Suc (Suc (Suc 0)))) = 1"
  by (subst dec.simps) simp

lemma sample_head: "length (join_lines (head_lines sample_request)) = 107"
  by (simp add: sample_request_def head_lines_def request_target_def length_dec_3)

lemma sample_request_wf:
  "wf_request sample_request" "calm sample_events" "stream sample_events = request_bytes sample_request"
  "length (join_lines (head_lines sample_request)) + 4 \<le> max_header_bytes"
  "admit ''k'' sample_request (written_fields sample_request) = Read_ok"
  "reserve_loop (length (rq_body sample_request)) [100, 7]"
proof -
  show "wf_request sample_request"
    by (simp add: sample_request_def wf_request_def line_word_def request_target_def field_text_def
        trimmed_def is_blank_def is_space_def char_nat_def)
  have "20 < length (request_bytes sample_request)" by (simp add: request_bytes_def sample_head)
  then show "calm sample_events" by (auto simp: sample_events_def)
  show "stream sample_events = request_bytes sample_request" by (simp add: sample_events_def)
  show "length (join_lines (head_lines sample_request)) + 4 \<le> max_header_bytes"
    by (simp add: sample_head max_header_bytes_def)
  show "admit ''k'' sample_request (written_fields sample_request) = Read_ok"
    by (simp add: admit_def sample_request_def written_fields_def content_length_def max_body_bytes_def
        authorized_iff bearer_def)
  show "reserve_loop (length (rq_body sample_request)) [100, 7]"
    by (simp add: sample_request_def reserve_check_def max_inflight_def)
qed

theorem request_roundtrip_witness:
  "read_request sample_events ''k'' [100, 7] = (Read_ok, sample_request\<lparr>rq_reserved := 3\<rparr>)"
  using request_roundtrip [OF sample_request_wf] by (simp add: sample_request_def)

lemma sample_request_read:
  "read_request sample_events ''k'' [100, 7] = (Read_ok, sample_request\<lparr>rq_reserved := 3\<rparr>)"
  using read_written [OF sample_request_wf] by (simp add: sample_request_def)

theorem request_admission_witness:
  "last [100, 7] + rq_reserved (sample_request\<lparr>rq_reserved := 3\<rparr>) \<le> max_inflight"
  using request_admission [OF sample_request_read] by simp

end
