(* ===== verification/HttpMultipart.thy ===== *)
theory HttpMultipart
  imports Text
begin

text \<open>
  Multipart form data, as \<^verbatim>\<open>tools/web/http_transport.cpp\<close> reads it: the boundary parameter of the
  content type, the part headers with their disposition, and the body cut at its delimiter lines.

  The code keeps a position in a string; the model keeps the text from that position on.
\<close>

section \<open>Limits and results\<close>

definition max_field_bytes :: nat where "max_field_bytes = 16384"
definition max_file_bytes :: nat where "max_file_bytes = 67108864"
definition max_multipart_parts :: nat where "max_multipart_parts = 128"
definition max_part_header_bytes :: nat where "max_part_header_bytes = 65536"

datatype multipart_result = Parts_ok | Malformed | Too_large | Too_many_parts

record part =
  p_name :: string
  p_filename :: string
  p_data :: bytes

section \<open>Disposition\<close>

definition mime_parameter_token :: "char \<Rightarrow> bool" where
  "mime_parameter_token c \<longleftrightarrow>
     char_nat c > 32 \<and> char_nat c < 127 \<and>
     c \<notin> set (''()<>@,;:'' @ [CHR 0x5C, CHR 0x22] @ ''/[]?='')"

text \<open>The comment loop at a nesting depth; it needs the closing parenthesis.\<close>

fun skip_comment :: "nat \<Rightarrow> string \<Rightarrow> string option" where
  "skip_comment 0 s = Some s"
| "skip_comment (Suc d) [] = None"
| "skip_comment (Suc d) (c # s) =
     (if c = CHR 0x5C then (case s of [] \<Rightarrow> None | _ # t \<Rightarrow> skip_comment (Suc d) t)
      else if c = CHR ''('' then skip_comment (Suc (Suc d)) s
      else if c = CHR '')'' then skip_comment d s
      else skip_comment (Suc d) s)"

lemma skip_comment_length: "skip_comment d s = Some r \<Longrightarrow> length r \<le> length s"
  by (induction d s rule: skip_comment.induct) (auto split: if_splits list.splits)

function skip_space :: "string \<Rightarrow> string option" where
  "skip_space [] = Some []"
| "skip_space (c # s) =
     (if is_blank c then skip_space s
      else if c = CHR ''('' then (case skip_comment 1 s of None \<Rightarrow> None | Some r \<Rightarrow> skip_space r)
      else Some (c # s))"
  by pat_completeness auto
termination
  by (relation "measure length") (auto dest!: skip_comment_length)

lemma skip_space_length: "skip_space s = Some r \<Longrightarrow> length r \<le> length s"
proof (induction s rule: skip_space.induct)
  case (2 c s)
  then show ?case by (fastforce split: if_splits option.splits dest: skip_comment_length)
qed simp

definition mime_token :: "string \<Rightarrow> string \<times> string" where
  "mime_token s = (takeWhile mime_parameter_token s, dropWhile mime_parameter_token s)"

text \<open>A quoted string after its opening quote.\<close>

fun quoted_string :: "string \<Rightarrow> string \<Rightarrow> (string \<times> string) option" where
  "quoted_string acc [] = None"
| "quoted_string acc (c # s) =
     (if c = CHR 0x22 then Some (acc, s)
      else if c = CHR 0x5C then (case s of [] \<Rightarrow> None | d # t \<Rightarrow> quoted_string (acc @ [d]) t)
      else quoted_string (acc @ [c]) s)"

lemma quoted_string_length: "quoted_string acc s = Some (v, r) \<Longrightarrow> length r < length s"
  by (induction acc s rule: quoted_string.induct) (auto split: if_splits list.splits)

definition disposition_value :: "string \<Rightarrow> (string \<times> string) option" where
  "disposition_value s =
     (if s \<noteq> [] \<and> hd s = CHR 0x22 then quoted_string [] (tl s)
      else let (v, r) = mime_token s in if v = [] then None else Some (v, r))"

lemma mime_token_length: "mime_token s = (v, r) \<Longrightarrow> length r \<le> length s"
  by (auto simp: mime_token_def length_dropWhile_le)

lemma disposition_value_length: "disposition_value s = Some (v, r) \<Longrightarrow> length r \<le> length s"
  by (cases s) (auto simp: disposition_value_def dest!: quoted_string_length mime_token_length
      split: if_splits prod.splits)

text \<open>One parameter after its semicolon: the lower-case name, the value, and what follows.\<close>

definition disposition_parameter :: "string \<Rightarrow> (string \<times> string \<times> string) option" where
  "disposition_parameter s =
     (case skip_space s of None \<Rightarrow> None
      | Some s1 \<Rightarrow>
        let (name0, s2) = mime_token s1; name = lower name0 in
        if name = [] then None
        else case skip_space s2 of None \<Rightarrow> None
        | Some s3 \<Rightarrow>
          (case s3 of [] \<Rightarrow> None
           | c # s4 \<Rightarrow>
             if c \<noteq> CHR ''='' then None
             else case skip_space s4 of None \<Rightarrow> None
             | Some s5 \<Rightarrow>
               (case disposition_value s5 of None \<Rightarrow> None
                | Some (val, s6) \<Rightarrow>
                  (case skip_space s6 of None \<Rightarrow> None
                   | Some s7 \<Rightarrow> if s7 \<noteq> [] \<and> hd s7 \<noteq> CHR '';'' then None else Some (name, val, s7)))))"

lemma disposition_parameter_length:
  "disposition_parameter s = Some (n, v, r) \<Longrightarrow> length r \<le> length s"
  by (auto simp: disposition_parameter_def Let_def split: option.splits prod.splits list.splits if_splits
      dest!: skip_space_length mime_token_length disposition_value_length)

text \<open>The name and file name found so far; \<^const>\<open>None\<close> is a \<^verbatim>\<open>have_...\<close> flag still false.\<close>

type_synonym disposition = "string option \<times> string option"

definition set_parameter :: "string \<Rightarrow> string \<Rightarrow> disposition \<Rightarrow> disposition option" where
  "set_parameter name val d =
     (if name = ''name'' then (if fst d \<noteq> None then None else Some (Some val, snd d))
      else if name = ''filename'' then (if snd d \<noteq> None then None else Some (fst d, Some val))
      else if name = ''filename*'' then None
      else Some d)"

function disposition_loop :: "disposition \<Rightarrow> string \<Rightarrow> disposition option" where
  "disposition_loop d [] = Some d"
| "disposition_loop d (c # s) =
     (if c \<noteq> CHR '';'' then None
      else case disposition_parameter s of None \<Rightarrow> None
      | Some (name, val, r) \<Rightarrow>
        (case set_parameter name val d of None \<Rightarrow> None | Some d' \<Rightarrow> disposition_loop d' r))"
  by pat_completeness auto
termination
  by (relation "measure (\<lambda>(d, s). length s)") (auto dest: disposition_parameter_length)

definition parse_disposition :: "string \<Rightarrow> (string \<times> string) option" where
  "parse_disposition s =
     (case skip_space s of None \<Rightarrow> None
      | Some s1 \<Rightarrow>
        let (t, s2) = mime_token s1 in
        if lower t \<noteq> ''form-data'' then None
        else case skip_space s2 of None \<Rightarrow> None
        | Some s3 \<Rightarrow>
          (case disposition_loop (None, None) s3 of None \<Rightarrow> None
           | Some (None, _) \<Rightarrow> None
           | Some (Some name, fl) \<Rightarrow> Some (name, case fl of None \<Rightarrow> [] | Some f \<Rightarrow> f)))"

section \<open>Part headers\<close>

text \<open>The pending header (key and unfolded value), and the disposition once it was seen.\<close>

record part_headers =
  ph_key :: string
  ph_value :: string
  ph_disposition :: "(string \<times> string) option"

definition finish_header :: "part_headers \<Rightarrow> part_headers option" where
  "finish_header h =
     (if ph_key h \<noteq> ''content-disposition'' then Some h
      else if ph_disposition h \<noteq> None then None
      else case parse_disposition (ph_value h) of None \<Rightarrow> None
      | Some nf \<Rightarrow> Some (h\<lparr>ph_disposition := Some nf\<rparr>))"

definition header_text :: "char \<Rightarrow> bool" where
  "header_text c \<longleftrightarrow> \<not> (char_nat c < 32 \<and> c \<noteq> CHR 0x09) \<and> char_nat c \<noteq> 127"

definition part_line :: "string \<Rightarrow> part_headers \<Rightarrow> part_headers option" where
  "part_line line h =
     (if line = [] then None
      else if \<not> list_all header_text line then None
      else if is_blank (hd line)
      then (if ph_key h = [] then None else Some (h\<lparr>ph_value := ph_value h @ line\<rparr>))
      else case finish_header h of None \<Rightarrow> None
      | Some h' \<Rightarrow>
        (case find_char CHR '':'' line of None \<Rightarrow> None
         | Some colon \<Rightarrow>
           if colon = 0 then None
           else if \<not> list_all (\<lambda>c. 33 \<le> char_nat c \<and> char_nat c \<le> 126) (take colon line) then None
           else Some (h'\<lparr>ph_key := lower (take colon line), ph_value := drop (Suc colon) line\<rparr>)))"

text \<open>The next line and what follows its line end.\<close>

definition next_line :: "string \<Rightarrow> string \<times> string" where
  "next_line s = (case find_sub crlf s of None \<Rightarrow> (s, []) | Some e \<Rightarrow> (take e s, drop (e + 2) s))"

lemma next_line_length: "s \<noteq> [] \<Longrightarrow> next_line s = (l, r) \<Longrightarrow> length r < length s"
  by (auto simp: next_line_def split: option.splits)

function part_lines :: "part_headers \<Rightarrow> string \<Rightarrow> part_headers option" where
  "part_lines h s =
     (if s = [] then Some h
      else case part_line (fst (next_line s)) h of None \<Rightarrow> None
      | Some h' \<Rightarrow> part_lines h' (snd (next_line s)))"
  by pat_completeness auto
termination
  by (relation "measure (\<lambda>(h, s). length s)") (auto simp: next_line_length [OF _ surjective_pairing])

declare part_lines.simps [simp del]

definition parse_part_headers :: "string \<Rightarrow> (string \<times> string) option" where
  "parse_part_headers s =
     (case part_lines \<lparr>ph_key = [], ph_value = [], ph_disposition = None\<rparr> s of None \<Rightarrow> None
      | Some h \<Rightarrow> (case finish_header h of None \<Rightarrow> None | Some h' \<Rightarrow> ph_disposition h'))"

section \<open>The body\<close>

definition closes :: "string \<Rightarrow> bool" where
  "closes s \<longleftrightarrow> starts_with s ''--'' \<and> (drop 2 s = [] \<or> starts_with (drop 2 s) crlf)"

text \<open>
  The position of the first marker that is a complete delimiter line; a marker that is not is
  content, and the search goes on behind it.  The marker is never empty.
\<close>

function find_delimiter :: "string \<Rightarrow> string \<Rightarrow> nat option" where
  "find_delimiter marker s =
     (case find_sub marker s of None \<Rightarrow> None
      | Some i \<Rightarrow>
        let suffix = drop (i + length marker) s in
        if starts_with suffix crlf \<or> closes suffix then Some i
        else if marker = [] then None
        else map_option (\<lambda>j. i + length marker + j) (find_delimiter marker suffix))"
  by pat_completeness auto
termination
proof (relation "measure (\<lambda>(m, s). length s)")
  fix marker s i and suffix :: string
  assume "find_sub marker s = Some i" "suffix = drop (i + length marker) s" "marker \<noteq> []"
  with find_sub_Some [of marker s i] show "((marker, suffix), marker, s) \<in> measure (\<lambda>(m, s). length s)"
    by (cases marker) auto
qed simp

declare find_delimiter.simps [simp del]

lemma find_delimiter_Some:
  "find_delimiter m s = Some i \<Longrightarrow>
     i + length m \<le> length s \<and> take (length m) (drop i s) = m \<and>
     (starts_with (drop (i + length m) s) crlf \<or> closes (drop (i + length m) s))"
proof (induction m s arbitrary: i rule: find_delimiter.induct)
  case (1 m s)
  from "1.prems" obtain k where k: "find_sub m s = Some k"
    by (subst (asm) find_delimiter.simps) (auto split: option.splits)
  note f = find_sub_Some [OF k]
  let ?suf = "drop (k + length m) s"
  show ?case
  proof (cases "starts_with ?suf crlf \<or> closes ?suf")
    case True
    with "1.prems" k have "i = k" by (subst (asm) find_delimiter.simps) (simp add: Let_def)
    with True f show ?thesis by simp
  next
    case False
    with "1.prems" k obtain j where m: "m \<noteq> []" and j: "find_delimiter m ?suf = Some j"
      and i: "i = k + length m + j"
      by (subst (asm) find_delimiter.simps) (auto simp: Let_def split: if_splits)
    note r = "1.IH" [OF k refl False m j]
    have "i + length m \<le> length s" using r f unfolding i length_drop by linarith
    with r f i show ?thesis by (simp add: ac_simps)
  qed
qed

text \<open>The loop: what follows a delimiter, and the parts so far.\<close>

function multipart_loop :: "string \<Rightarrow> part list \<Rightarrow> bytes \<Rightarrow> multipart_result \<times> part list" where
  "multipart_loop delimiter parts s =
     (if starts_with s ''--''
      then (if drop 2 s = [] \<or> drop 2 s = crlf then Parts_ok else Malformed, parts)
      else if \<not> starts_with s crlf then (Malformed, parts)
      else case find_sub (crlf @ crlf) (drop 2 s) of None \<Rightarrow> (Malformed, parts)
      | Some header_end \<Rightarrow>
        if header_end > max_part_header_bytes then (Malformed, parts)
        else let headers = take header_end (drop 2 s); content = drop (header_end + 4) (drop 2 s) in
        (case find_delimiter (crlf @ delimiter) content of None \<Rightarrow> (Malformed, parts)
         | Some n \<Rightarrow>
           if length parts \<ge> max_multipart_parts then (Too_many_parts, parts)
           else case parse_part_headers headers of None \<Rightarrow> (Malformed, parts)
           | Some (name, fl) \<Rightarrow>
             if n > (if fl = [] then max_field_bytes else max_file_bytes) then (Too_large, parts)
             else multipart_loop delimiter
               (parts @ [\<lparr>p_name = name, p_filename = fl, p_data = take n content\<rparr>])
               (drop (n + length (crlf @ delimiter)) content)))"
  by pat_completeness auto
termination
proof (relation "measure (\<lambda>(d, ps, s). length s)")
  fix d parts s he headers content n nf name fl
  assume "find_sub (crlf @ crlf) (drop 2 s) = Some he" "content = drop (he + 4) (drop 2 s)"
    and c: "find_delimiter (crlf @ d) content = Some n"
  then have "length content \<le> length s" by simp
  moreover from find_delimiter_Some [OF c] have "n + length (crlf @ d) \<le> length content" by simp
  ultimately show "((d, parts @ [\<lparr>p_name = name, p_filename = fl, p_data = take n content\<rparr>],
      drop (n + length (crlf @ d)) content), d, parts, s) \<in> measure (\<lambda>(d, ps, s). length s)"
    by simp
qed simp

declare multipart_loop.simps [simp del]

definition parse_multipart :: "bytes \<Rightarrow> string \<Rightarrow> multipart_result \<times> part list" where
  "parse_multipart body boundary =
     (if boundary = [] \<or> length boundary > 200 \<or> CHR 0x0D \<in> set boundary \<or> CHR 0x0A \<in> set boundary
      then (Malformed, [])
      else let delimiter = ''--'' @ boundary in
        if \<not> starts_with body delimiter then (Malformed, [])
        else multipart_loop delimiter [] (drop (length delimiter) body))"

section \<open>The boundary\<close>

definition parameter_token :: "char \<Rightarrow> bool" where
  "parameter_token c \<longleftrightarrow> is_lower c \<or> is_upper c \<or> is_digit c \<or>
     c \<in> set (''!#$%&'' @ [CHR 0x27] @ ''*+-.^_'' @ [CHR 0x60] @ ''|~'')"

fun boundary_quoted :: "string \<Rightarrow> string \<Rightarrow> (string \<times> string) option" where
  "boundary_quoted acc [] = None"
| "boundary_quoted acc (c # s) =
     (if c = CHR 0x22 then Some (acc, s)
      else if c = CHR 0x5C
      then (case s of [] \<Rightarrow> None
            | d # t \<Rightarrow> if \<not> header_text d then None else boundary_quoted (acc @ [d]) t)
      else if \<not> header_text c then None
      else boundary_quoted (acc @ [c]) s)"

lemma boundary_quoted_length: "boundary_quoted acc s = Some (v, r) \<Longrightarrow> length r < length s"
  by (induction acc s rule: boundary_quoted.induct) (auto split: if_splits list.splits)

definition boundary_value :: "string \<Rightarrow> (string \<times> string) option" where
  "boundary_value s =
     (if s \<noteq> [] \<and> hd s = CHR 0x22 then boundary_quoted [] (tl s)
      else let v = takeWhile parameter_token s in
        if v = [] then None else Some (v, dropWhile parameter_token s))"

lemma boundary_value_length: "boundary_value s = Some (v, r) \<Longrightarrow> length r \<le> length s"
  by (cases s) (auto simp: boundary_value_def Let_def length_dropWhile_le le_SucI dest!: boundary_quoted_length
      split: if_splits)

definition skip_blanks :: "string \<Rightarrow> string" where
  "skip_blanks s = dropWhile is_blank s"

definition boundary_parameter :: "string \<Rightarrow> (string \<times> string \<times> string) option" where
  "boundary_parameter s0 =
     (let s = skip_blanks s0; name = lower (takeWhile parameter_token s);
          s1 = skip_blanks (dropWhile parameter_token s)
      in if name = [] \<or> s1 = [] \<or> hd s1 \<noteq> CHR ''='' then None
         else case boundary_value (skip_blanks (tl s1)) of None \<Rightarrow> None
         | Some (val, s2) \<Rightarrow>
           let s3 = skip_blanks s2 in
           if s3 \<noteq> [] \<and> hd s3 \<noteq> CHR '';'' then None else Some (name, val, s3))"

lemma boundary_parameter_length: "boundary_parameter s = Some (n, v, r) \<Longrightarrow> length r \<le> length s"
proof -
  assume "boundary_parameter s = Some (n, v, r)"
  then obtain s1 s2 where s1: "s1 = skip_blanks (dropWhile parameter_token (skip_blanks s))"
    and v: "boundary_value (skip_blanks (tl s1)) = Some (v, s2)" and r: "r = skip_blanks s2"
    by (auto simp: boundary_parameter_def Let_def split: option.splits if_splits)
  have b: "length (skip_blanks t) \<le> length t" for t by (simp add: skip_blanks_def length_dropWhile_le)
  have "length s1 \<le> length s"
    unfolding s1 using b [of s] b length_dropWhile_le by (meson le_trans)
  then have "length (tl s1) \<le> length s" by simp
  with b [of "tl s1"] boundary_value_length [OF v] b [of s2] r show ?thesis by simp
qed

definition boundary_ok :: "string \<Rightarrow> bool" where
  "boundary_ok v \<longleftrightarrow> v \<noteq> [] \<and> length v \<le> 200 \<and> list_all (\<lambda>c. 32 \<le> char_nat c \<and> char_nat c < 127) v"

function boundary_loop :: "string option \<Rightarrow> string \<Rightarrow> string option" where
  "boundary_loop found [] = found"
| "boundary_loop found (c # s) =
     (if c \<noteq> CHR '';'' then None
      else case boundary_parameter s of None \<Rightarrow> None
      | Some (name, val, r) \<Rightarrow>
        if name = ''boundary''
        then (if found \<noteq> None \<or> \<not> boundary_ok val then None else boundary_loop (Some val) r)
        else boundary_loop found r)"
  by pat_completeness auto
termination
  by (relation "measure (\<lambda>(d, s). length s)") (auto dest: boundary_parameter_length)

definition extract_boundary :: "string \<Rightarrow> string option" where
  "extract_boundary content_type =
     (case find_char CHR '';'' (lower content_type) of None \<Rightarrow> None
      | Some media_end \<Rightarrow>
        if trim (take media_end (lower content_type)) \<noteq> ''multipart/form-data'' then None
        else boundary_loop None (drop media_end content_type))"

end
