(* ===== verification/HttpMultipartContract.thy ===== *)
theory HttpMultipartContract
  imports HttpMultipart
begin

text \<open>
  The limits a parsed form respects, and the round trip of a written form through the reader.
\<close>

section \<open>Limits\<close>

definition part_limit :: "part \<Rightarrow> nat" where
  "part_limit p = (if p_filename p = [] then max_field_bytes else max_file_bytes)"

definition parts_ok :: "part list \<Rightarrow> bool" where
  "parts_ok ps \<longleftrightarrow> length ps \<le> max_multipart_parts \<and> (\<forall>p \<in> set ps. length (p_data p) \<le> part_limit p)"

definition data_size :: "part list \<Rightarrow> nat" where
  "data_size ps = (\<Sum>p \<leftarrow> ps. length (p_data p))"

lemma multipart_loop_limits:
  "multipart_loop d ps s = (r, ps') \<Longrightarrow> parts_ok ps \<Longrightarrow>
     parts_ok ps' \<and> data_size ps' \<le> data_size ps + length s \<and> (r = Too_many_parts \<longrightarrow> length ps' = max_multipart_parts)"
proof (induction d ps s rule: multipart_loop.induct)
  case (1 d ps s)
  show ?case
  proof (cases "\<exists>he content n name fl. \<not> starts_with s ''--'' \<and> starts_with s crlf \<and>
      find_sub (crlf @ crlf) (drop 2 s) = Some he \<and> he \<le> max_part_header_bytes \<and>
      content = drop (he + 4) (drop 2 s) \<and> find_delimiter (crlf @ d) content = Some n \<and>
      length ps < max_multipart_parts \<and> parse_part_headers (take he (drop 2 s)) = Some (name, fl) \<and>
      n \<le> (if fl = [] then max_field_bytes else max_file_bytes)")
    case True
    then obtain he content n name fl where c: "\<not> starts_with s ''--''" "starts_with s crlf"
      "find_sub (crlf @ crlf) (drop 2 s) = Some he" "he \<le> max_part_header_bytes"
      "content = drop (he + 4) (drop 2 s)" "find_delimiter (crlf @ d) content = Some n"
      "length ps < max_multipart_parts" "parse_part_headers (take he (drop 2 s)) = Some (name, fl)"
      "n \<le> (if fl = [] then max_field_bytes else max_file_bytes)" by blast
    let ?p = "\<lparr>p_name = name, p_filename = fl, p_data = take n content\<rparr>"
    let ?r = "drop (n + length (crlf @ d)) content"
    have l: "multipart_loop d (ps @ [?p]) ?r = (r, ps')"
      using "1.prems"(1) c by (subst (asm) multipart_loop.simps) (simp add: Let_def)
    have ok: "parts_ok (ps @ [?p])"
      using "1.prems"(2) c(7,9) by (auto simp: parts_ok_def part_limit_def)
    from find_delimiter_Some [OF c(6)] have n: "n + length (crlf @ d) \<le> length content" by simp
    have "length content \<le> length s" by (simp add: c(5))
    with n have sz: "data_size (ps @ [?p]) + length ?r \<le> data_size ps + length s"
      by (simp add: data_size_def)
    have "parts_ok ps' \<and> data_size ps' \<le> data_size (ps @ [?p]) + length ?r \<and>
        (r = Too_many_parts \<longrightarrow> length ps' = max_multipart_parts)"
      by (rule "1.IH" [OF c(1) _ c(3) _ refl c(5) c(6) _ c(8) refl _ l ok]) (use c in simp_all)
    with sz show ?thesis by simp
  next
    case False
    with "1.prems" have "ps' = ps \<and> (r = Too_many_parts \<longrightarrow> length ps = max_multipart_parts)"
      by (subst (asm) multipart_loop.simps)
         (auto simp: Let_def parts_ok_def not_le split: if_splits option.splits prod.splits)
    with "1.prems"(2) show ?thesis by simp
  qed
qed

section \<open>Writing a form\<close>

definition escape_parameter :: "string \<Rightarrow> string" where
  "escape_parameter s =
     concat (map (\<lambda>c. if c = CHR 0x22 \<or> c = CHR 0x5C then [CHR 0x5C, c] else [c]) s)"

definition quote_parameter :: "string \<Rightarrow> string" where
  "quote_parameter s = [CHR 0x22] @ escape_parameter s @ [CHR 0x22]"

definition disposition_text :: "part \<Rightarrow> string" where
  "disposition_text p = '' form-data; name='' @ quote_parameter (p_name p) @
     (if p_filename p = [] then [] else ''; filename='' @ quote_parameter (p_filename p))"

definition part_head :: "part \<Rightarrow> string" where
  "part_head p = ''Content-Disposition:'' @ disposition_text p"

fun form_tail :: "string \<Rightarrow> part list \<Rightarrow> bytes" where
  "form_tail d [] = ''--'' @ crlf"
| "form_tail d (p # ps) = crlf @ part_head p @ crlf @ crlf @ p_data p @ crlf @ d @ form_tail d ps"

definition form_bytes :: "string \<Rightarrow> part list \<Rightarrow> bytes" where
  "form_bytes boundary ps = (''--'' @ boundary) @ form_tail (''--'' @ boundary) ps"

definition boundary_type :: "string \<Rightarrow> string" where
  "boundary_type boundary = ''multipart/form-data; boundary='' @ boundary"

lemma quoted_string_escape:
  "quoted_string acc (escape_parameter s @ CHR 0x22 # r) = Some (acc @ s, r)"
  by (induction s arbitrary: acc) (simp_all add: escape_parameter_def)

lemma skip_space_here: "s = [] \<or> (\<not> is_blank (hd s) \<and> hd s \<noteq> CHR ''('') \<Longrightarrow> skip_space s = Some s"
  by (cases s) auto

lemma disposition_value_quote: "disposition_value (quote_parameter s @ r) = Some (s, r)"
  by (simp add: disposition_value_def quote_parameter_def quoted_string_escape)

lemma name_parameter:
  assumes "r = [] \<or> hd r = CHR '';''"
  shows "disposition_parameter ('' name='' @ quote_parameter s @ r) = Some (''name'', s, r)"
    and "disposition_parameter ('' filename='' @ quote_parameter s @ r) = Some (''filename'', s, r)"
proof -
  have sp: "skip_space r = Some r" using assms by (intro skip_space_here) (auto simp: is_blank_def)
  have q: "skip_space (quote_parameter s @ r) = Some (quote_parameter s @ r)"
    by (intro skip_space_here) (simp add: quote_parameter_def is_blank_def)
  have n: "lower ''name'' = ''name''" "lower ''filename'' = ''filename''" by code_simp+
  have e: "''name'' = [CHR ''n'', CHR ''a'', CHR ''m'', CHR ''e'']" by simp
  have tk: "mime_token (''name='' @ x) = (''name'', CHR ''='' # x)"
    "mime_token (''filename='' @ x) = (''filename'', CHR ''='' # x)" for x
    by (simp_all add: mime_token_def mime_parameter_token_def char_nat_def)
  have b: "skip_space ('' name='' @ x) = Some (''name='' @ x)"
    "skip_space ('' filename='' @ x) = Some (''filename='' @ x)"
    "skip_space (CHR ''='' # x) = Some (CHR ''='' # x)" for x by (simp_all add: is_blank_def)
  show "disposition_parameter ('' name='' @ quote_parameter s @ r) = Some (''name'', s, r)"
    unfolding disposition_parameter_def b option.case tk Let_def prod.case n
    using assms by (simp add: b(3) q disposition_value_quote sp)
  show "disposition_parameter ('' filename='' @ quote_parameter s @ r) = Some (''filename'', s, r)"
    unfolding disposition_parameter_def b option.case tk Let_def prod.case n
    using assms by (simp add: b(3) q disposition_value_quote sp)
qed

lemma parse_disposition_text: "parse_disposition (disposition_text p) = Some (p_name p, p_filename p)"
proof -
  let ?file = "if p_filename p = [] then [] else ''; filename='' @ quote_parameter (p_filename p)"
  have a: "skip_space (disposition_text p) = Some (''form-data; name='' @ quote_parameter (p_name p) @ ?file)"
    by (simp add: disposition_text_def is_blank_def)
  have t: "mime_token (''form-data; name='' @ x) = (''form-data'', ''; name='' @ x)" for x
    by (simp add: mime_token_def mime_parameter_token_def char_nat_def)
  have l: "lower ''form-data'' = ''form-data''" by code_simp
  have s: "skip_space (''; name='' @ x) = Some (''; name='' @ x)" for x by (simp add: is_blank_def)
  have f: "disposition_loop (Some n, None) ?file
      = Some (Some n, if p_filename p = [] then None else Some (p_filename p))" for n
    using name_parameter(2) [of "[]" "p_filename p"] by (simp add: set_parameter_def)
  have nn: "disposition_loop (None, None) (''; name='' @ quote_parameter (p_name p) @ ?file)
      = disposition_loop (Some (p_name p), None) ?file"
    using name_parameter(1) [of ?file "p_name p"] by (simp add: set_parameter_def)
  show ?thesis
    unfolding parse_disposition_def a option.case t Let_def prod.case l s nn f by simp
qed

lemma header_text_quote: "list_all header_text s \<Longrightarrow> list_all header_text (quote_parameter s)"
  by (induction s) (auto simp: quote_parameter_def escape_parameter_def header_text_def char_nat_def)

lemma no_crlf_headers: "list_all header_text s \<Longrightarrow> CHR 0x0D \<notin> set s"
  by (auto simp: list_all_iff header_text_def char_nat_def)

definition part_wf :: "string \<Rightarrow> part \<Rightarrow> bool" where
  "part_wf d p \<longleftrightarrow> list_all header_text (p_name p) \<and> list_all header_text (p_filename p) \<and>
     length (part_head p) \<le> max_part_header_bytes \<and> length (p_data p) \<le> part_limit p \<and>
     find_sub (crlf @ d) (p_data p @ crlf @ d) = Some (length (p_data p))"

lemma part_head_text:
  assumes "part_wf d p"
  shows "list_all header_text (part_head p)"
proof -
  have "list_all header_text ''Content-Disposition:''" "list_all header_text '' form-data; name=''"
    "list_all header_text ''; filename=''"
    by (simp_all add: header_text_def char_nat_def)
  then show ?thesis
    using assms header_text_quote
    unfolding part_head_def disposition_text_def part_wf_def by (simp only: list_all_append) simp
qed

lemma parse_part_head:
  assumes "part_wf d p"
  shows "parse_part_headers (part_head p) = Some (p_name p, p_filename p)"
proof -
  have hd: "part_head p = CHR ''C'' # tl (part_head p)" by (simp add: part_head_def)
  have "CHR 0x0D \<notin> set (part_head p)" using no_crlf_headers [OF part_head_text [OF assms]] .
  then have "find_sub crlf (part_head p) = None"
  proof -
    assume a: "CHR 0x0D \<notin> set (part_head p)"
    show ?thesis
    proof (cases "find_sub crlf (part_head p)")
      case (Some i)
      from find_sub_Some [OF Some] have "take 2 (drop i (part_head p)) = crlf" by simp
      then have "CHR 0x0D \<in> set (take 2 (drop i (part_head p)))" by (simp add: crlf_def)
      with a show ?thesis by (meson in_set_dropD in_set_takeD)
    qed simp
  qed
  then have nl: "next_line (part_head p) = (part_head p, [])" by (simp add: next_line_def)
  have colon: "find_char CHR '':'' (part_head p) = Some 19"
    using find_char_append [of "CHR '':''" "''Content-Disposition''" "disposition_text p"]
    by (simp add: part_head_def)
  have key: "take 19 (part_head p) = ''Content-Disposition''" "drop 20 (part_head p) = disposition_text p"
    by (simp_all add: part_head_def)
  have l: "lower ''Content-Disposition'' = ''content-disposition''" by code_simp
  have la: "list_all (\<lambda>c. 33 \<le> char_nat c \<and> char_nat c \<le> 126) ''Content-Disposition''"
    by (simp add: char_nat_def)
  let ?h0 = "\<lparr>ph_key = [], ph_value = [], ph_disposition = None\<rparr>"
  have fh: "finish_header ?h0 = Some ?h0" by (simp add: finish_header_def)
  have ne': "part_head p \<noteq> []" by (subst hd) simp
  have "\<not> is_blank (hd (part_head p))" by (subst hd) (simp add: is_blank_def)
  then have line: "part_line (part_head p) ?h0
      = Some \<lparr>ph_key = ''content-disposition'', ph_value = disposition_text p, ph_disposition = None\<rparr>"
    by (simp add: part_line_def colon fh key l la ne' part_head_text [OF assms] del: list.pred_inject)
  have "part_lines ?h0 (part_head p)
      = Some \<lparr>ph_key = ''content-disposition'', ph_value = disposition_text p, ph_disposition = None\<rparr>"
    by (subst part_lines.simps, subst part_lines.simps) (simp add: nl line ne')
  then show ?thesis
    by (simp add: parse_part_headers_def finish_header_def parse_disposition_text)
qed

lemma find_sub_extend: "find_sub pat s = Some i \<Longrightarrow> find_sub pat (s @ t) = Some i"
proof (rule find_subI)
  assume a: "find_sub pat s = Some i"
  note f = find_sub_Some [OF a]
  then show "take (length pat) (drop i (s @ t)) = pat" and "i \<le> length (s @ t)" by simp_all
  fix j assume "j < i"
  with find_sub_first [OF a this] f show "take (length pat) (drop j (s @ t)) \<noteq> pat" by simp
qed

lemma tail_delimits: "starts_with (form_tail d ps) crlf \<or> closes (form_tail d ps)"
  by (cases ps) (simp_all add: closes_def starts_with_def)

lemma multipart_loop_form:
  "list_all (part_wf d) qs \<Longrightarrow> length ps + length qs \<le> max_multipart_parts \<Longrightarrow>
     multipart_loop d ps (form_tail d qs) = (Parts_ok, ps @ qs)"
proof (induction qs arbitrary: ps)
  case Nil
  then show ?case by (simp add: multipart_loop.simps starts_with_def)
next
  case (Cons q qs)
  then have q: "part_wf d q" by simp
  let ?content = "p_data q @ crlf @ d @ form_tail d qs"
  have s: "form_tail d (q # qs) = crlf @ part_head q @ (crlf @ crlf) @ ?content" by simp
  have n1: "\<not> starts_with (form_tail d (q # qs)) ''--''" by (simp add: starts_with_def crlf_def)
  have n2: "starts_with (form_tail d (q # qs)) crlf" by (simp add: starts_with_def)
  have d2: "drop 2 (form_tail d (q # qs)) = part_head q @ (crlf @ crlf) @ ?content"
    unfolding s by simp
  have "hd (crlf @ crlf) \<notin> set (part_head q)"
    using no_crlf_headers [OF part_head_text [OF q]] by (simp add: crlf_def)
  then have he: "find_sub (crlf @ crlf) (drop 2 (form_tail d (q # qs))) = Some (length (part_head q))"
    unfolding d2 by (intro find_sub_skip) (simp add: crlf_def)
  have th: "take (length (part_head q)) (drop 2 (form_tail d (q # qs))) = part_head q" unfolding d2 by simp
  have "drop (length (part_head q) + 4) (drop 2 (form_tail d (q # qs))) = ?content"
    unfolding d2 by simp
  then have dc: "drop (6 + length (part_head q)) (form_tail d (q # qs)) = ?content"
    by (simp add: ac_simps del: form_tail.simps)
  have rc: "\<lparr>p_name = p_name q, p_filename = p_filename q, p_data = p_data q\<rparr> = q" by (cases q) simp
  have "find_sub (crlf @ d) (p_data q @ crlf @ d) = Some (length (p_data q))"
    using q by (simp add: part_wf_def)
  from find_sub_extend [OF this, of "form_tail d qs"]
  have fm: "find_sub (crlf @ d) ?content = Some (length (p_data q))" by simp
  have fd: "find_delimiter (crlf @ d) ?content = Some (length (p_data q))"
    using tail_delimits [of d qs] by (subst find_delimiter.simps) (simp add: fm Let_def)
  have lim: "\<not> max_part_header_bytes < length (part_head q)" "length (p_data q) \<le> part_limit q"
    using q by (simp_all add: part_wf_def)
  have "multipart_loop d ps (form_tail d (q # qs)) = multipart_loop d (ps @ [q]) (form_tail d qs)"
    using Cons.prems(2) lim(2)
    by (subst multipart_loop.simps)
       (simp add: n1 n2 he th dc fd lim(1) parse_part_head [OF q] part_limit_def Let_def rc
         del: form_tail.simps split: if_splits)
  with Cons show ?case by simp
qed

lemma parse_multipart_form:
  assumes "list_all (part_wf (''--'' @ boundary)) ps" and "length ps \<le> max_multipart_parts"
    and "boundary_ok boundary"
  shows "parse_multipart (form_bytes boundary ps) boundary = (Parts_ok, ps)"
proof -
  have "CHR 0x0D \<notin> set boundary" "CHR 0x0A \<notin> set boundary" "boundary \<noteq> []" "length boundary \<le> 200"
    using assms(3) by (auto simp: boundary_ok_def list_all_iff char_nat_def)
  then show ?thesis
    using multipart_loop_form [OF assms(1), of "[]"] assms(2)
    by (simp add: parse_multipart_def form_bytes_def starts_with_def Let_def)
qed

lemma extract_boundary_form:
  assumes "boundary_ok boundary" and "list_all parameter_token boundary"
  shows "extract_boundary (boundary_type boundary) = Some boundary"
proof -
  have b: "boundary \<noteq> []" "boundary_ok boundary" using assms(1) by (simp_all add: boundary_ok_def)
  have ne: "hd boundary \<noteq> CHR 0x22" "\<not> is_blank (hd boundary)"
    using assms(2) b(1)
    by (cases boundary; auto simp: parameter_token_def is_blank_def is_digit_def is_upper_def is_lower_def char_nat_def)+
  have tk: "takeWhile parameter_token boundary = boundary" "dropWhile parameter_token boundary = []"
    using assms(2) by (simp_all add: list_all_iff takeWhile_eq_all_conv)
  have lm: "lower ''multipart/form-data'' = ''multipart/form-data''" by code_simp
  have lb: "lower ''; boundary='' = ''; boundary=''" by code_simp
  have low: "lower (boundary_type boundary) = ''multipart/form-data'' @ CHR '';'' # '' boundary='' @ lower boundary"
    using lm lb by (simp add: boundary_type_def lower_append [symmetric] del: lower_append)
      (simp add: lower_def)
  have f: "find_char CHR '';'' (lower (boundary_type boundary)) = Some 19"
    unfolding low using find_char_append [of "CHR '';''" "''multipart/form-data''"] by simp
  have m: "trim (take 19 (lower (boundary_type boundary))) = ''multipart/form-data''"
    unfolding low by (simp add: trim_trimmed trimmed_def is_blank_def)
  have d: "drop 19 (boundary_type boundary) = CHR '';'' # '' boundary='' @ boundary"
    by (simp add: boundary_type_def)
  have ptk: "takeWhile parameter_token (''boundary='' @ boundary) = ''boundary''"
    "dropWhile parameter_token (''boundary='' @ boundary) = CHR ''='' # boundary"
    by (simp_all add: parameter_token_def is_digit_def is_upper_def is_lower_def char_nat_def)
  have lbn: "lower ''boundary'' = ''boundary''" by code_simp
  have sk: "skip_blanks ('' boundary='' @ boundary) = ''boundary='' @ boundary"
    "skip_blanks (CHR ''='' # boundary) = CHR ''='' # boundary" "skip_blanks boundary = boundary"
    "skip_blanks [] = []"
    using ne(2) dropWhile_hd [of boundary is_blank] by (simp_all add: skip_blanks_def is_blank_def)
  have v: "boundary_value boundary = Some (boundary, [])"
    using ne(1) b(1) by (simp add: boundary_value_def tk Let_def)
  have "boundary_parameter ('' boundary='' @ boundary) = Some (''boundary'', boundary, [])"
    unfolding boundary_parameter_def Let_def sk(1) ptk sk(2) lbn by (simp add: sk v)
  then have "boundary_loop None (CHR '';'' # '' boundary='' @ boundary) = Some boundary"
    using b(2) by (simp del: append_Cons)
  then show ?thesis by (simp add: extract_boundary_def f m d)
qed

section \<open>Properties\<close>

text \<open>C12: Whatever the body and boundary, the parts taken from a form are at most 128, each within
  its limit (small for a field, large for a file), and all their bytes together are no more than the
  body's; the answer that there are too many parts comes only when the limit is reached.\<close>

theorem multipart_limits:
  assumes "parse_multipart body boundary = (r, ps)"
  shows "length ps \<le> 128 \<and> (\<forall>p \<in> set ps. length (p_data p) \<le> (if p_filename p = [] then 16384 else 67108864)) \<and>
    (\<Sum>p \<leftarrow> ps. length (p_data p)) \<le> length body \<and> (r = Too_many_parts \<longrightarrow> length ps = 128)"
proof (cases "ps = [] \<and> r = Malformed")
  case False
  define d where "d = ''--'' @ boundary"
  from assms False have "multipart_loop d [] (drop (length d) body) = (r, ps)"
    by (simp add: parse_multipart_def Let_def d_def split: if_splits)
  from multipart_loop_limits [OF this] have "parts_ok ps" "data_size ps \<le> length (drop (length d) body)"
    "r = Too_many_parts \<longrightarrow> length ps = max_multipart_parts"
    by (simp_all add: parts_ok_def data_size_def)
  then show ?thesis
    by (auto simp: parts_ok_def part_limit_def data_size_def max_multipart_parts_def max_field_bytes_def
        max_file_bytes_def)
qed simp

text \<open>C13: A form written with a boundary and parts (any names and file names without control
  characters, any bytes that do not hold the delimiter) is read back part by part, and its boundary
  is read back from its content type.\<close>

theorem form_roundtrip:
  assumes "boundary_ok boundary" and "list_all parameter_token boundary"
    and "list_all (part_wf (''--'' @ boundary)) ps" and "length ps \<le> max_multipart_parts"
  shows "extract_boundary (boundary_type boundary) = Some boundary \<and>
    parse_multipart (form_bytes boundary ps) boundary = (Parts_ok, ps)"
  using parse_multipart_form [OF assms(3,4,1)] extract_boundary_form [OF assms(1,2)] by simp

definition sample_parts :: "part list" where
  "sample_parts = [\<lparr>p_name = ''voice'', p_filename = [], p_data = ''a b''\<rparr>,
     \<lparr>p_name = ''f'', p_filename = [CHR 0x22], p_data = crlf @ ''--X''\<rparr>]"

lemma sample_parts_wf: "list_all (part_wf ''--XY'') sample_parts"
  by (simp add: sample_parts_def part_wf_def header_text_def char_nat_def part_head_def disposition_text_def
      quote_parameter_def escape_parameter_def part_limit_def crlf_def max_part_header_bytes_def
      max_field_bytes_def max_file_bytes_def)

lemma sample_boundary: "boundary_ok ''XY''" "list_all parameter_token ''XY''"
  by (simp_all add: boundary_ok_def parameter_token_def is_upper_def char_nat_def)

theorem form_roundtrip_witness:
  "parse_multipart (form_bytes ''XY'' sample_parts) ''XY'' = (Parts_ok, sample_parts)"
  using form_roundtrip [OF sample_boundary, of sample_parts] sample_parts_wf
  by (simp add: max_multipart_parts_def sample_parts_def)

theorem multipart_limits_witness: "length sample_parts \<le> 128"
  using multipart_limits [OF parse_multipart_form [OF _ _ sample_boundary(1), of sample_parts]] sample_parts_wf
  by (simp add: max_multipart_parts_def sample_parts_def)

end
