(* ===== verification/HttpResponse.thy ===== *)
theory HttpResponse
  imports HttpMultipart HttpRequest FileSystem
begin

text \<open>
  What the transport of \<^verbatim>\<open>tools/web/http_transport.cpp\<close> writes: \<^verbatim>\<open>send_all\<close>, \<^verbatim>\<open>send_response\<close>, the
  error answers of \<^verbatim>\<open>handle_connection\<close> and \<^verbatim>\<open>request_parts\<close>, and audio files with byte ranges.

  An operation returns the bytes it put on the socket.  The kernel's answers to \<^verbatim>\<open>send\<close> and \<^verbatim>\<open>pread\<close>
  are lists of \<^typ>\<open>reply\<close>; when a list runs out, the kernel moves all it is asked for.
\<close>

section \<open>Sending\<close>

fun send_all :: "reply list \<Rightarrow> bytes \<Rightarrow> bytes \<times> bool \<times> reply list" where
  "send_all rs [] = ([], True, rs)"
| "send_all [] data = (data, True, [])"
| "send_all (Interrupted # rs) data = send_all rs data"
| "send_all (Failed # rs) data = ([], False, rs)"
| "send_all (Moved n # rs) data =
     (if n = 0 then ([], False, rs)
      else let (sent, ok, rs') = send_all rs (drop n data) in (take n data @ sent, ok, rs'))"

definition response_head :: "nat \<Rightarrow> string \<Rightarrow> string \<Rightarrow> nat \<Rightarrow> string \<Rightarrow> bytes" where
  "response_head status txt content_type len extra =
     ''HTTP/1.1 '' @ dec status @ '' '' @ txt @ crlf @ ''Content-Type: '' @ content_type @ crlf @
     ''Content-Length: '' @ dec len @ crlf @ ''X-Content-Type-Options: nosniff'' @ crlf @
     ''Cache-Control: no-store'' @ crlf @ extra @ ''Connection: close'' @ crlf @ crlf"

definition send_response ::
  "reply list \<Rightarrow> nat \<Rightarrow> string \<Rightarrow> string \<Rightarrow> string \<Rightarrow> string \<Rightarrow> bytes" where
  "send_response rs status txt content_type body extra =
     (let (sent, ok, rs') = send_all rs (response_head status txt content_type (length body) extra)
      in if \<not> ok then sent
         else if body = [] then sent
         else sent @ fst (send_all rs' body))"

definition json_type :: string where "json_type = ''application/json''"

definition json_error :: "string \<Rightarrow> string" where
  "json_error msg = ''{'' @ [CHR 0x22] @ ''error'' @ [CHR 0x22] @ '':'' @ [CHR 0x22] @ msg @ [CHR 0x22] @ ''}''"

definition send_json :: "reply list \<Rightarrow> string \<Rightarrow> bytes" where
  "send_json rs json = send_response rs 200 ''OK'' json_type json []"

section \<open>A connection\<close>

text \<open>The handler sends bytes and returns, or sends bytes and throws.\<close>

datatype handled = Returned bytes | Threw bytes

definition handle_connection :: "reply list \<Rightarrow> read_result \<Rightarrow> handled \<Rightarrow> bytes" where
  "handle_connection rs result handler =
     (case result of
        Bad_request \<Rightarrow> send_response rs 400 ''Bad Request'' json_type (json_error ''malformed request'') []
      | Payload_too_large \<Rightarrow>
          send_response rs 413 ''Payload Too Large'' json_type (json_error ''request too large'') []
      | Unauthorized \<Rightarrow>
          send_response rs 401 ''Unauthorized'' json_type (json_error ''authentication required'')
            (''WWW-Authenticate: Bearer'' @ crlf)
      | Server_busy \<Rightarrow>
          send_response rs 503 ''Service Unavailable'' json_type (json_error ''request memory limit reached'') []
      | Read_ok \<Rightarrow>
          (case handler of
             Returned sent \<Rightarrow> sent
           | Threw sent \<Rightarrow> sent @
               send_response rs 500 ''Internal Server Error'' json_type (json_error ''internal server error'') []))"

section \<open>Uploaded forms\<close>

text \<open>The parts, or the bytes of the error answer.\<close>

definition request_parts :: "reply list \<Rightarrow> request \<Rightarrow> bytes + part list" where
  "request_parts rs rq =
     (case extract_boundary (rq_content_type rq) of
        None \<Rightarrow> Inl (send_response rs 400 ''Bad Request'' json_type (json_error ''invalid multipart boundary'') [])
      | Some boundary \<Rightarrow>
        (case parse_multipart (rq_body rq) boundary of
           (Parts_ok, parts) \<Rightarrow> Inr parts
         | (Too_large, _) \<Rightarrow>
             Inl (send_response rs 413 ''Payload Too Large'' json_type (json_error ''multipart field or file too large'') [])
         | (Too_many_parts, _) \<Rightarrow>
             Inl (send_response rs 413 ''Payload Too Large'' json_type (json_error ''too many multipart parts'') [])
         | (Malformed, _) \<Rightarrow>
             Inl (send_response rs 400 ''Bad Request'' json_type (json_error ''malformed multipart body'') [])))"

section \<open>Audio files\<close>

text \<open>\<^verbatim>\<open>std::from_chars\<close> on at most twenty digits, refused when the value does not fit.\<close>

definition range_number :: "string \<Rightarrow> nat option" where
  "range_number s =
     (if s = [] \<or> length s > 20 \<or> \<not> list_all is_digit s then None
      else if dec_value_from 0 s \<ge> 2 ^ 64 then None
      else Some (dec_value_from 0 s))"

definition byte_range :: "nat \<Rightarrow> string \<Rightarrow> (nat \<times> nat) option" where
  "byte_range sz range_field =
     (if range_field = [] then Some (0, sz - 1)
      else if length range_field > 96 \<or> \<not> starts_with range_field ''bytes='' then None
      else let bytes = drop 6 range_field in
      (case find_char CHR ''-'' bytes of None \<Rightarrow> None
       | Some dash \<Rightarrow>
         if dash = 0
         then (case range_number (drop 1 bytes) of None \<Rightarrow> None
               | Some count \<Rightarrow> if count > 0 then Some (sz - min sz count, sz - 1) else None)
         else (case (range_number (take dash bytes),
                     if dash + 1 < length bytes then range_number (drop (dash + 1) bytes) else Some (sz - 1)) of
                 (Some first, Some last') \<Rightarrow>
                   if first < sz \<and> last' \<ge> first then Some (first, min last' (sz - 1)) else None
               | _ \<Rightarrow> None)))"

definition audio_head :: "bool \<Rightarrow> nat \<Rightarrow> nat \<Rightarrow> nat \<Rightarrow> bytes" where
  "audio_head whole first last' sz =
     (if whole then ''HTTP/1.1 200 OK'' @ crlf else ''HTTP/1.1 206 Partial Content'' @ crlf) @
     ''Content-Type: audio/wav'' @ crlf @ ''Content-Length: '' @ dec (last' - first + 1) @ crlf @
     ''Accept-Ranges: bytes'' @ crlf @ ''Cache-Control: no-store'' @ crlf @
     ''X-Content-Type-Options: nosniff'' @ crlf @
     (if whole then [] else ''Content-Range: bytes '' @ dec first @ ''-'' @ dec last' @ ''/'' @ dec sz @ crlf) @
     ''Connection: close'' @ crlf @ crlf"

definition audio_block :: nat where "audio_block = 65536"

text \<open>The copy loop: the bytes sent and whether it reached the end.\<close>

definition audio_read :: "nat \<Rightarrow> nat \<Rightarrow> bytes \<Rightarrow> nat \<Rightarrow> bytes" where
  "audio_read offset last' data limit =
     take (min limit (min audio_block (last' - offset + 1))) (drop offset data)"

function audio_loop :: "nat \<Rightarrow> nat \<Rightarrow> bytes \<Rightarrow> reply list \<Rightarrow> reply list \<Rightarrow> bytes \<times> bool" where
  "audio_loop offset last' data (Interrupted # rs) ss =
     (if offset > last' then ([], True) else audio_loop offset last' data rs ss)"
| "audio_loop offset last' data (Failed # rs) ss = ([], offset > last')"
| "audio_loop offset last' data (Moved n # rs) ss =
     (if offset > last' then ([], True)
      else let got = audio_read offset last' data n in
        if got = [] then ([], False)
        else let (sent, ok, ss') = send_all ss got in
          if \<not> ok then (sent, False)
          else let (rest, fin) = audio_loop (offset + length got) last' data rs ss' in (sent @ rest, fin))"
| "audio_loop offset last' data [] ss =
     (if offset > last' then ([], True)
      else let got = audio_read offset last' data audio_block in
        if got = [] then ([], False)
        else let (sent, ok, ss') = send_all ss got in
          if \<not> ok then (sent, False)
          else let (rest, fin) = audio_loop (offset + length got) last' data [] ss' in (sent @ rest, fin))"
  by pat_completeness auto
termination
proof (relation "measures [\<lambda>(o1, l, c, rs, ss). Suc l - o1, \<lambda>(o1, l, c, rs, ss). length rs]", goal_cases)
  case 3
  then show ?case by (auto simp: diff_less_mono2)
next
  case 4
  then show ?case by (auto simp: diff_less_mono2)
qed simp_all

declare audio_loop.simps [simp del]

text \<open>The file as \<^verbatim>\<open>open\<close> and \<^verbatim>\<open>fstat\<close> show it; \<^const>\<open>None\<close> when either fails.\<close>

record audio_file =
  af_regular :: bool
  af_size :: int
  af_content :: bytes

definition send_audio_file ::
  "audio_file option \<Rightarrow> string \<Rightarrow> reply list \<Rightarrow> reply list \<Rightarrow> bytes" where
  "send_audio_file opened range_field rs ss =
     (case opened of
        None \<Rightarrow> send_response ss 410 ''Gone'' json_type (json_error ''retained audio result is unavailable'') []
      | Some f \<Rightarrow>
        if \<not> af_regular f \<or> af_size f \<le> 0
        then send_response ss 410 ''Gone'' json_type (json_error ''retained audio result is unavailable'') []
        else if af_size f > 2 ^ 30
        then send_response ss 413 ''Payload Too Large'' json_type (json_error ''audio artifact exceeds 1 GiB'') []
        else let sz = nat (af_size f) in
        (case byte_range sz range_field of
           None \<Rightarrow> send_response ss 416 ''Range Not Satisfiable'' json_type
                     (json_error ''invalid audio byte range'')
                     (''Content-Range: bytes */'' @ dec sz @ crlf)
         | Some (first, last') \<Rightarrow>
           (case send_all ss (audio_head (range_field = []) first last' sz) of
              (sent, ok, ss') \<Rightarrow>
                if \<not> ok then sent
                else sent @ fst (audio_loop first last' (af_content f) rs ss'))))"

end
