(* ===== verification/HttpResponseContract.thy ===== *)
theory HttpResponseContract
  imports HttpResponse "HOL-Library.Sublist"
begin

text \<open>
  What the transport puts on the socket: complete answers when the kernel does not fail, prefixes
  of them when it does, and exactly the requested bytes of an audio file.
\<close>

section \<open>Sending\<close>

definition no_failures :: "reply list \<Rightarrow> bool" where
  "no_failures rs \<longleftrightarrow> Failed \<notin> set rs \<and> Moved 0 \<notin> set rs"

text \<open>\<open>partial want (sent, complete)\<close>: only a prefix of \<open>want\<close> was sent, all of it if complete.\<close>

definition partial :: "bytes \<Rightarrow> bytes \<Rightarrow> bool \<Rightarrow> bool" where
  "partial want sent complete \<longleftrightarrow> prefix sent want \<and> (complete \<longrightarrow> sent = want)"

lemma partial_Nil: "partial want [] False" "partial [] [] c"
  by (simp_all add: partial_def)

lemma partial_append: "partial b s ok \<Longrightarrow> partial (a @ b) (a @ s) ok"
  by (simp add: partial_def)

lemma partial_stop: "partial a s ok \<Longrightarrow> \<not> ok \<Longrightarrow> partial (a @ b) s False"
  by (auto simp: partial_def intro: prefix_prefix)

lemma send_all_partial: "send_all rs d = (s, ok, rs') \<Longrightarrow> partial d s ok"
proof (induction rs d arbitrary: s ok rs' rule: send_all.induct)
  case (5 n rs c d)
  show ?case
  proof (cases "n = 0")
    case True
    with 5 show ?thesis by (simp add: partial_Nil)
  next
    case False
    obtain s1 ok1 r1 where e: "send_all rs (drop n (c # d)) = (s1, ok1, r1)"
      by (cases "send_all rs (drop n (c # d))") auto
    with False "5.prems" have r: "s = take n (c # d) @ s1" "ok = ok1" by simp_all
    from partial_append [OF "5.IH" [OF False e], of "take n (c # d)"]
    show ?thesis unfolding r append_take_drop_id .
  qed
qed (auto simp: partial_def)

lemma send_all_calm: "no_failures rs \<Longrightarrow> send_all rs d = (s, ok, rs') \<Longrightarrow> ok \<and> no_failures rs'"
proof (induction rs d arbitrary: s ok rs' rule: send_all.induct)
  case (5 n rs c d)
  from "5.prems"(1) have n: "n \<noteq> 0" "no_failures rs" by (auto simp: no_failures_def)
  obtain s1 ok1 r1 where e: "send_all rs (drop n (c # d)) = (s1, ok1, r1)"
    by (cases "send_all rs (drop n (c # d))") auto
  with n(1) "5.prems"(2) have "ok = ok1" "rs' = r1" by auto
  with "5.IH" [OF n e] show ?case by simp
next
  case (3 rs c d)
  from "3.prems" have "no_failures rs" "send_all rs (c # d) = (s, ok, rs')" by (simp_all add: no_failures_def)
  from "3.IH" [OF this] show ?case .
qed (simp_all add: no_failures_def)

text \<open>The complete answer \<^const>\<open>send_response\<close> is to write.\<close>

definition response :: "nat \<Rightarrow> string \<Rightarrow> string \<Rightarrow> string \<Rightarrow> string \<Rightarrow> bytes" where
  "response status txt content_type body extra =
     response_head status txt content_type (length body) extra @ body"

lemma send_response_partial:
  "partial (response st t c b e) (send_response rs st t c b e) (no_failures rs)"
proof -
  let ?h = "response_head st t c (length b) e"
  obtain s ok rs' where a: "send_all rs ?h = (s, ok, rs')" by (cases "send_all rs ?h") auto
  obtain s2 ok2 rs2 where b: "send_all rs' b = (s2, ok2, rs2)" by (cases "send_all rs' b") auto
  note pa = send_all_partial [OF a] and pb = send_all_partial [OF b]
  show ?thesis
  proof (cases ok)
    case False
    with send_all_calm [OF _ a] have "\<not> no_failures rs" by auto
    with partial_stop [OF pa False] False show ?thesis by (simp add: send_response_def a response_def)
  next
    case True
    with pa have s: "s = ?h" by (simp add: partial_def)
    have "no_failures rs \<Longrightarrow> ok2" using send_all_calm [OF _ a] send_all_calm [OF _ b] by blast
    with pb have "partial b s2 (no_failures rs)" by (auto simp: partial_def)
    with partial_append [OF this] True s show ?thesis
      by (auto simp: send_response_def a b response_def partial_def)
  qed
qed

section \<open>The copy loop\<close>

lemma audio_read_prefix:
  assumes "o1 \<le> l"
  shows "prefix (audio_read o1 l data n) (take (Suc l - o1) (drop o1 data))"
proof -
  define k where "k = min n (min audio_block (l - o1 + 1))"
  have k: "k \<le> Suc l - o1" using assms by (simp add: k_def Suc_diff_le min.coboundedI2)
  have "audio_read o1 l data n = take k (drop o1 data)" by (simp add: audio_read_def k_def)
  also have "\<dots> = take k (take (Suc l - o1) (drop o1 data))" using k by (simp add: min_absorb1)
  finally show ?thesis by (metis take_is_prefix)
qed

lemma audio_read_nonempty: "o1 \<le> l \<Longrightarrow> l < length data \<Longrightarrow> 0 < n \<Longrightarrow> audio_read o1 l data n \<noteq> []"
  by (simp add: audio_read_def audio_block_def)

lemma rest_of_slice:
  assumes "prefix got (take (Suc l - o1) (drop o1 data))"
  shows "take (Suc l - o1) (drop o1 data) = got @ take (Suc l - (o1 + length got)) (drop (o1 + length got) data)"
proof -
  from assms obtain r where r: "take (Suc l - o1) (drop o1 data) = got @ r" by (auto elim: prefixE)
  then have "r = drop (length got) (take (Suc l - o1) (drop o1 data))" by simp
  also have "\<dots> = take (Suc l - o1 - length got) (drop (length got + o1) data)"
    by (simp add: drop_take ac_simps)
  also have "\<dots> = take (Suc l - (o1 + length got)) (drop (o1 + length got) data)"
    by (simp add: ac_simps)
  finally show ?thesis using r by simp
qed

lemma audio_block_partial:
  assumes got: "audio_read o1 l data n = got" and l: "o1 \<le> l"
    and s: "send_all ss got = (sent, True, ss')"
    and IH: "partial (take (Suc l - (o1 + length got)) (drop (o1 + length got) data)) rest fin"
  shows "partial (take (Suc l - o1) (drop o1 data)) (sent @ rest) fin"
proof -
  have "sent = got" using send_all_partial [OF s] by (simp add: partial_def)
  with rest_of_slice [OF audio_read_prefix [OF l, of data n, unfolded got]] partial_append [OF IH]
  show ?thesis by simp
qed

lemma audio_block_stops:
  assumes got: "audio_read o1 l data n = got" and l: "o1 \<le> l" and s: "send_all ss got = (sent, False, ss')"
  shows "partial (take (Suc l - o1) (drop o1 data)) sent False"
  using send_all_partial [OF s] audio_read_prefix [OF l, of data n, unfolded got]
  by (auto simp: partial_def intro: prefix_order.trans)

lemma audio_loop_partial:
  assumes "audio_loop o1 l data rs ss = (sent, fin)"
  shows "partial (take (Suc l - o1) (drop o1 data)) sent fin"
  using assms
proof (induction o1 l data rs ss arbitrary: sent fin rule: audio_loop.induct)
  case (1 o1 l data rs ss)
  then show ?case by (simp add: audio_loop.simps partial_def split: if_splits)
next
  case (2 o1 l data rs ss)
  then show ?case by (auto simp: audio_loop.simps partial_def)
next
  case (3 o1 l data n rs ss)
  define got where "got = audio_read o1 l data n"
  obtain s ok ss' where s: "send_all ss got = (s, ok, ss')" by (cases "send_all ss got") auto
  obtain r f where r: "audio_loop (o1 + length got) l data rs ss' = (r, f)" by fastforce
  show ?case
  proof (cases "o1 \<le> l \<and> got \<noteq> [] \<and> ok")
    case True
    with s have s': "send_all ss got = (s, True, ss')" by simp
    have "sent = s @ r" "fin = f"
      using 3(2) True s r by (simp_all add: audio_loop.simps Let_def got_def [symmetric])
    moreover have "partial (take (Suc l - (o1 + length got)) (drop (o1 + length got) data)) r f"
      by (rule "3.IH" [of got "(s, ok, ss')" s "(ok, ss')" ok ss'])
         (use True s r in \<open>simp_all add: got_def\<close>)
    ultimately show ?thesis using audio_block_partial [OF got_def [symmetric] _ s'] True by simp
  next
    case False
    with 3(2) s audio_block_stops [OF got_def [symmetric], of ss s ss'] show ?thesis
      by (auto simp: audio_loop.simps Let_def got_def [symmetric] partial_Nil split: if_splits)
  qed
next
  case (4 o1 l data ss)
  define got where "got = audio_read o1 l data audio_block"
  obtain s ok ss' where s: "send_all ss got = (s, ok, ss')" by (cases "send_all ss got") auto
  obtain r f where r: "audio_loop (o1 + length got) l data [] ss' = (r, f)" by fastforce
  show ?case
  proof (cases "o1 \<le> l \<and> got \<noteq> [] \<and> ok")
    case True
    with s have s': "send_all ss got = (s, True, ss')" by simp
    have "sent = s @ r" "fin = f"
      using 4(2) True s r by (simp_all add: audio_loop.simps Let_def got_def [symmetric])
    moreover have "partial (take (Suc l - (o1 + length got)) (drop (o1 + length got) data)) r f"
      by (rule "4.IH" [of got "(s, ok, ss')" s "(ok, ss')" ok ss'])
         (use True s r in \<open>simp_all add: got_def\<close>)
    ultimately show ?thesis using audio_block_partial [OF got_def [symmetric] _ s'] True by simp
  next
    case False
    with 4(2) s audio_block_stops [OF got_def [symmetric], of ss s ss'] show ?thesis
      by (auto simp: audio_loop.simps Let_def got_def [symmetric] partial_Nil split: if_splits)
  qed
qed

lemma audio_loop_calm:
  "no_failures rs \<Longrightarrow> no_failures ss \<Longrightarrow> o1 \<le> Suc l \<Longrightarrow> l < length data \<Longrightarrow> snd (audio_loop o1 l data rs ss)"
proof (induction o1 l data rs ss rule: audio_loop.induct)
  case (1 o1 l data rs ss)
  then show ?case by (simp add: audio_loop.simps no_failures_def)
next
  case (2 o1 l data rs ss)
  then show ?case by (simp add: no_failures_def)
next
  case (3 o1 l data n rs ss)
  show ?case
  proof (cases "o1 \<le> l")
    case True
    define got where "got = audio_read o1 l data n"
    have n: "0 < n" "no_failures rs" using "3.prems"(1) by (auto simp: no_failures_def)
    obtain s ok ss' where s: "send_all ss got = (s, ok, ss')" by (cases "send_all ss got") auto
    from send_all_calm [OF "3.prems"(2) s] have ok: ok "no_failures ss'" by simp_all
    have ne: "got \<noteq> []" using audio_read_nonempty [OF True "3.prems"(4) n(1)] by (simp add: got_def)
    have "length got \<le> Suc l - o1"
      using audio_read_prefix [OF True, of data n] by (auto simp: got_def dest!: prefix_length_le)
    then have "o1 + length got \<le> Suc l" using True by simp
    with 3 True ne ok n s show ?thesis
      by (simp add: audio_loop.simps Let_def got_def case_prod_beta)
  qed (simp add: audio_loop.simps)
next
  case (4 o1 l data ss)
  show ?case
  proof (cases "o1 \<le> l")
    case True
    define got where "got = audio_read o1 l data audio_block"
    have n: "0 < audio_block" by (simp add: audio_block_def)
    obtain s ok ss' where s: "send_all ss got = (s, ok, ss')" by (cases "send_all ss got") auto
    from send_all_calm [OF "4.prems"(2) s] have ok: ok "no_failures ss'" by simp_all
    have ne: "got \<noteq> []" using audio_read_nonempty [OF True "4.prems"(4) n(1)] by (simp add: got_def)
    have "length got \<le> Suc l - o1"
      using audio_read_prefix [OF True, of data audio_block] by (auto simp: got_def dest!: prefix_length_le)
    then have "o1 + length got \<le> Suc l" using True by simp
    with 4 True ne ok s show ?thesis
      by (simp add: audio_loop.simps Let_def got_def case_prod_beta)
  qed (simp add: audio_loop.simps)
qed

section \<open>Byte ranges\<close>

lemma range_number_dec: "n < 2 ^ 64 \<Longrightarrow> range_number (dec n) = Some n"
proof -
  assume n: "n < 2 ^ 64"
  also have "(2 :: nat) ^ 64 \<le> 10 ^ Suc 19" by simp
  finally have "length (dec n) \<le> Suc 19" by (rule length_dec_less)
  moreover have "list_all is_digit (dec n)" by (simp add: list_all_iff dec_digits)
  ultimately show ?thesis using n by (simp add: range_number_def)
qed

lemma dash_not_digit: "CHR ''-'' \<notin> set (dec n)"
  using dec_digits [of "CHR ''-''" n] by (auto simp: is_digit_def)

lemma length_dec_64: "n < 2 ^ 64 \<Longrightarrow> length (dec n) \<le> 20"
proof -
  assume "n < 2 ^ 64"
  also have "(2 :: nat) ^ 64 \<le> 10 ^ Suc 19" by simp
  finally have "length (dec n) \<le> Suc 19" by (rule length_dec_less)
  then show ?thesis by simp
qed

lemma byte_range_bounds: "byte_range sz r = Some (a, b) \<Longrightarrow> 0 < sz \<Longrightarrow> a \<le> b \<and> b < sz"
  by (auto simp: byte_range_def Let_def split: if_splits option.splits)

lemma find_dash: "find_char CHR ''-'' (dec a @ ''-'' @ s) = Some (length (dec a))"
  using find_char_append [OF dash_not_digit, of a s] by simp

lemma byte_range_from:
  assumes "a < sz" "a < 2 ^ 64" "s = [] \<or> (\<exists>b. s = dec b \<and> b < 2 ^ 64)"
  shows "byte_range sz (''bytes='' @ dec a @ ''-'' @ s) =
    (case (if s = [] then Some (sz - 1) else range_number s) of None \<Rightarrow> None
     | Some b \<Rightarrow> if b \<ge> a then Some (a, min b (sz - 1)) else None)"
proof -
  let ?r = "''bytes='' @ dec a @ ''-'' @ s"
  have len: "\<not> 96 < length ?r" using assms(3) length_dec_64 [OF assms(2)] length_dec_64 by fastforce
  have st: "starts_with ?r ''bytes=''" by (rule starts_with_append)
  have d6: "drop 6 ?r = dec a @ ''-'' @ s" by simp
  have "length (dec a) \<noteq> 0" by simp
  then show ?thesis
    using assms(1) len st unfolding byte_range_def Let_def d6 find_dash option.case
    by (auto simp: range_number_dec [OF assms(2)] split: option.splits)
qed

text \<open>The byte range of a request: a range that is answered lies in the file; the three forms
  (from, from-to, last n) mean what they say, with the end cut at the end of the file; a request
  without a range gets the whole file.\<close>

lemma byte_range_forms:
  assumes "0 < sz" and "sz \<le> 2 ^ 30"
  shows "byte_range sz [] = Some (0, sz - 1) \<and>
    (case byte_range sz r of None \<Rightarrow> True | Some (a, b) \<Rightarrow> a \<le> b \<and> b < sz) \<and>
    (\<forall>a < sz. byte_range sz (''bytes='' @ dec a @ ''-'') = Some (a, sz - 1)) \<and>
    (\<forall>a < sz. \<forall>b < 2 ^ 64. byte_range sz (''bytes='' @ dec a @ ''-'' @ dec b) =
       (if a \<le> b then Some (a, min b (sz - 1)) else None)) \<and>
    (\<forall>n < 2 ^ 64. byte_range sz (''bytes=-'' @ dec n) = (if n = 0 then None else Some (sz - min sz n, sz - 1)))"
proof (intro conjI allI impI)
  show "byte_range sz [] = Some (0, sz - 1)" by (simp add: byte_range_def)
  show "case byte_range sz r of None \<Rightarrow> True | Some (a, b) \<Rightarrow> a \<le> b \<and> b < sz"
    using byte_range_bounds [OF _ assms(1)] by (auto split: option.split)
next
  fix a assume a: "a < sz"
  then have u: "a < 2 ^ 64" using assms(2) by simp
  from byte_range_from [OF a u, of "[]"] a
  show "byte_range sz (''bytes='' @ dec a @ ''-'') = Some (a, sz - 1)" by simp
next
  fix a b assume a: "a < sz" and b: "b < (2 :: nat) ^ 64"
  then have u: "a < 2 ^ 64" using assms(2) by simp
  have "dec b = [] \<or> (\<exists>b'. dec b = dec b' \<and> b' < 2 ^ 64)" using b by blast
  from byte_range_from [OF a u this] b
  show "byte_range sz (''bytes='' @ dec a @ ''-'' @ dec b) = (if a \<le> b then Some (a, min b (sz - 1)) else None)"
    by (auto simp: range_number_dec)
next
  fix n assume n: "n < (2 :: nat) ^ 64"
  let ?r = "''bytes=-'' @ dec n"
  have len: "\<not> 96 < length ?r" using length_dec_64 [OF n] by simp
  have st: "starts_with ?r ''bytes=''" by (simp add: starts_with_def)
  have d6: "drop 6 ?r = ''-'' @ dec n" "drop 1 (''-'' @ dec n) = dec n" by simp_all
  have f: "find_char CHR ''-'' (''-'' @ dec n) = Some 0" by (simp add: find_char_def)
  show "byte_range sz ?r = (if n = 0 then None else Some (sz - min sz n, sz - 1))"
    using len st unfolding byte_range_def Let_def d6(1) f option.case d6(2) range_number_dec [OF n] by simp
qed

theorem byte_range_forms_witness: "byte_range 10 (''bytes='' @ dec 3 @ ''-'' @ dec 5) = Some (3, 5)"
  using byte_range_forms [of 10 "[]"] by simp

section \<open>Audio answers\<close>

definition audio_answer :: "audio_file \<Rightarrow> string \<Rightarrow> bytes" where
  "audio_answer f range_field =
     (let sz = nat (af_size f) in
      case byte_range sz range_field of
        None \<Rightarrow> response 416 ''Range Not Satisfiable'' json_type (json_error ''invalid audio byte range'')
          (''Content-Range: bytes */'' @ dec sz @ crlf)
      | Some (a, b) \<Rightarrow> audio_head (range_field = []) a b sz @ take (b - a + 1) (drop a (af_content f)))"

lemma audio_parts:
  assumes ab: "a \<le> b" "b < length data"
    and h: "send_all ss head = (s, ok, ss')"
  shows "partial (head @ take (b - a + 1) (drop a data))
    (if ok then s @ fst (audio_loop a b data rs ss') else s) (no_failures rs \<and> no_failures ss)"
proof (cases ok)
  case False
  with send_all_calm [OF _ h] have "\<not> no_failures ss" by auto
  with partial_stop [OF send_all_partial [OF h] False] False show ?thesis by simp
next
  case True
  with send_all_partial [OF h] have s: "s = head" by (simp add: partial_def)
  have len: "Suc b - a = b - a + 1" using ab(1) by simp
  obtain t fin where l: "audio_loop a b data rs ss' = (t, fin)" by fastforce
  from audio_loop_partial [OF l] have p: "partial (take (b - a + 1) (drop a data)) t fin" by (simp only: len)
  have "no_failures rs \<Longrightarrow> no_failures ss \<Longrightarrow> fin"
    using audio_loop_calm [of rs ss' a b data] send_all_calm [OF _ h] ab l by auto
  with p have "partial (take (b - a + 1) (drop a data)) t (no_failures rs \<and> no_failures ss)"
    by (auto simp: partial_def)
  from partial_append [OF this, of head] True show ?thesis by (simp add: s l)
qed

text \<open>An audio file of at most 1 GiB is answered with a head that announces the range and its
  length and exactly the bytes of that range, or with status 416 and no audio byte when the range is
  not valid; with short or interrupted reads and sends the answer is the same, and when the kernel
  fails, a prefix of it.\<close>

lemma audio_answer_sent:
  assumes "af_regular f" and "0 < af_size f" and "af_size f \<le> 2 ^ 30"
    and "length (af_content f) = nat (af_size f)"
  shows "partial (audio_answer f r) (send_audio_file (Some f) r rs ss) (no_failures rs \<and> no_failures ss)"
proof (cases "byte_range (nat (af_size f)) r")
  case None
  then show ?thesis
    using assms send_response_partial by (auto simp: send_audio_file_def audio_answer_def partial_def Let_def)
next
  case (Some ab)
  obtain a b where ab: "ab = (a, b)" by (cases ab)
  then have le: "a \<le> b" "b < length (af_content f)"
    using byte_range_bounds [of "nat (af_size f)" r a b] Some assms by simp_all
  obtain s ok ss' where h: "send_all ss (audio_head (r = []) a b (nat (af_size f))) = (s, ok, ss')"
    by (cases "send_all ss (audio_head (r = []) a b (nat (af_size f)))") auto
  have "send_audio_file (Some f) r rs ss = (if ok then s @ fst (audio_loop a b (af_content f) rs ss') else s)"
    using assms(1-3) by (simp add: send_audio_file_def Let_def Some ab h)
  moreover have "audio_answer f r
      = audio_head (r = []) a b (nat (af_size f)) @ take (b - a + 1) (drop a (af_content f))"
    by (simp add: audio_answer_def Let_def Some ab)
  ultimately show ?thesis using audio_parts [OF le h, of rs] by simp
qed

theorem audio_answer_sent_witness:
  "send_audio_file (Some \<lparr>af_regular = True, af_size = 4, af_content = ''RIFF''\<rparr>) (''bytes='' @ dec 1 @ ''-'' @ dec 2)
     [Interrupted, Moved 1] [Moved 3, Interrupted]
   = audio_answer \<lparr>af_regular = True, af_size = 4, af_content = ''RIFF''\<rparr> (''bytes='' @ dec 1 @ ''-'' @ dec 2)"
  using audio_answer_sent [of "\<lparr>af_regular = True, af_size = 4, af_content = ''RIFF''\<rparr>"
      "''bytes='' @ dec 1 @ ''-'' @ dec 2" "[Interrupted, Moved 1]" "[Moved 3, Interrupted]"]
  by (simp add: partial_def no_failures_def)

end
