(* ===== verification/HttpServer.thy ===== *)
theory HttpServer
  imports HttpRequest
begin

text \<open>
  The accept loop of \<^verbatim>\<open>HttpTransport::serve\<close>, its worker threads and their two shared counters
  (\<^verbatim>\<open>HttpRuntimeState\<close>), as a step relation: each step is one atomic operation on a counter or one
  move of a thread, and the steps of all threads interleave freely.

  The accept loop counts a connection before it knows whether it may keep it, so the connection
  counter can exceed the limit for a moment; the number of workers never does.
\<close>

section \<open>State\<close>

definition max_connections :: nat where "max_connections = 32"

text \<open>
  A worker: reading the head; in the reservation loop with the counter value it saw last and the
  length it asks for; holding a reservation (until the request is destroyed); about to leave.
\<close>

datatype worker = Reading | Trying nat nat | Holding nat | Leaving

text \<open>The accept loop: waiting, or holding a connection with the counter value before the increment.\<close>

datatype acceptor = Waiting | Counted int

record server =
  sv_active :: int
  sv_inflight :: nat
  sv_acceptor :: acceptor
  sv_workers :: "worker list"

definition start_server :: server where
  "start_server = \<lparr>sv_active = 0, sv_inflight = 0, sv_acceptor = Waiting, sv_workers = []\<rparr>"

section \<open>Steps\<close>

inductive server_step :: "server \<Rightarrow> server \<Rightarrow> bool" where
  accept: "sv_acceptor s = Waiting \<Longrightarrow>
    server_step s (s\<lparr>sv_acceptor := Counted (sv_active s), sv_active := sv_active s + 1\<rparr>)"
| refuse: "sv_acceptor s = Counted previous \<Longrightarrow> previous \<ge> int max_connections \<Longrightarrow>
    server_step s (s\<lparr>sv_acceptor := Waiting, sv_active := sv_active s - 1\<rparr>)"
| spawn: "sv_acceptor s = Counted previous \<Longrightarrow> previous < int max_connections \<Longrightarrow>
    server_step s (s\<lparr>sv_acceptor := Waiting, sv_workers := sv_workers s @ [Reading]\<rparr>)"
| spawn_failed: "sv_acceptor s = Counted previous \<Longrightarrow> previous < int max_connections \<Longrightarrow>
    server_step s (s\<lparr>sv_acceptor := Waiting, sv_active := sv_active s - 1\<rparr>)"
| reject: "sv_workers s = xs @ Reading # ys \<Longrightarrow>
    server_step s (s\<lparr>sv_workers := xs @ Leaving # ys\<rparr>)"
| load: "sv_workers s = xs @ Reading # ys \<Longrightarrow> n \<le> max_body_bytes \<Longrightarrow>
    server_step s (s\<lparr>sv_workers := xs @ Trying (sv_inflight s) n # ys\<rparr>)"
| busy: "sv_workers s = xs @ Trying seen n # ys \<Longrightarrow> reserve_check n seen = None \<Longrightarrow>
    server_step s (s\<lparr>sv_workers := xs @ Leaving # ys\<rparr>)"
| exchange: "sv_workers s = xs @ Trying seen n # ys \<Longrightarrow> reserve_check n seen = Some v \<Longrightarrow>
    sv_inflight s = seen \<Longrightarrow>
    server_step s (s\<lparr>sv_inflight := v, sv_workers := xs @ Holding n # ys\<rparr>)"
| retry: "sv_workers s = xs @ Trying seen n # ys \<Longrightarrow> reserve_check n seen = Some v \<Longrightarrow>
    server_step s (s\<lparr>sv_workers := xs @ Trying (sv_inflight s) n # ys\<rparr>)"
| release: "sv_workers s = xs @ Holding n # ys \<Longrightarrow>
    server_step s (s\<lparr>sv_inflight := sv_inflight s - n, sv_workers := xs @ Leaving # ys\<rparr>)"
| leave: "sv_workers s = xs @ Leaving # ys \<Longrightarrow>
    server_step s (s\<lparr>sv_active := sv_active s - 1, sv_workers := xs @ ys\<rparr>)"

inductive server_run :: "server \<Rightarrow> server \<Rightarrow> bool" where
  here: "server_run s s"
| more: "server_run s t \<Longrightarrow> server_step t u \<Longrightarrow> server_run s u"

lemma run_trans: "server_run t u \<Longrightarrow> server_run s t \<Longrightarrow> server_run s u"
  by (induction rule: server_run.induct) (auto intro: server_run.intros)

lemma run_step: "server_step s t \<Longrightarrow> server_run t u \<Longrightarrow> server_run s u"
  by (rule run_trans) (auto intro: server_run.intros)

section \<open>The invariant\<close>

definition held :: "worker \<Rightarrow> nat" where
  "held w = (case w of Holding n \<Rightarrow> n | _ \<Rightarrow> 0)"

definition held_bytes :: "server \<Rightarrow> nat" where
  "held_bytes s = (\<Sum>w \<leftarrow> sv_workers s. held w)"

definition pending :: "server \<Rightarrow> int" where
  "pending s = (case sv_acceptor s of Waiting \<Rightarrow> 0 | Counted _ \<Rightarrow> 1)"

definition server_ok :: "server \<Rightarrow> bool" where
  "server_ok s \<longleftrightarrow>
     sv_active s = int (length (sv_workers s)) + pending s \<and> length (sv_workers s) \<le> max_connections \<and>
     (\<forall>previous. sv_acceptor s = Counted previous \<longrightarrow> int (length (sv_workers s)) \<le> previous) \<and>
     sv_inflight s = held_bytes s \<and> held_bytes s \<le> max_inflight"

lemma held_simps [simp]: "held Reading = 0" "held (Trying a b) = 0" "held (Holding n) = n" "held Leaving = 0"
  by (simp_all add: held_def)

lemma reserve_check_Some: "reserve_check n v = Some w \<Longrightarrow> w = v + n \<and> w \<le> max_inflight"
  by (auto simp: reserve_check_def split: if_splits)

lemma server_step_ok: "server_step s t \<Longrightarrow> server_ok s \<Longrightarrow> server_ok t"
  by (induction rule: server_step.induct)
     (auto simp: server_ok_def pending_def held_bytes_def dest: reserve_check_Some)

lemma server_run_ok: "server_run s t \<Longrightarrow> server_ok s \<Longrightarrow> server_ok t"
  by (induction rule: server_run.induct) (auto intro: server_step_ok)

lemma start_ok: "server_ok start_server"
  by (simp add: server_ok_def start_server_def pending_def held_bytes_def)

section \<open>Every connection can end\<close>

text \<open>The moves a worker still needs.\<close>

definition moves_left :: "worker \<Rightarrow> nat" where
  "moves_left w = (case w of Reading \<Rightarrow> 2 | Trying _ _ \<Rightarrow> 3 | Holding _ \<Rightarrow> 2 | Leaving \<Rightarrow> 1)"

definition drain_measure :: "server \<Rightarrow> nat" where
  "drain_measure s = (\<Sum>w \<leftarrow> sv_workers s. moves_left w) + (case sv_acceptor s of Waiting \<Rightarrow> 0 | Counted _ \<Rightarrow> 1)"

lemma worker_can_move:
  assumes "sv_workers s = xs @ w # ys"
  shows "\<exists>t. server_step s t \<and> (drain_measure t < drain_measure s \<or>
    (\<exists>seen n. w = Trying seen n \<and> t = s\<lparr>sv_workers := xs @ Trying (sv_inflight s) n # ys\<rparr>))"
proof (cases w)
  case Reading
  with server_step.reject [of s xs ys] assms show ?thesis
    by (force simp: drain_measure_def moves_left_def)
next
  case (Trying seen n)
  show ?thesis
  proof (cases "reserve_check n seen")
    case None
    with Trying server_step.busy [of s xs seen n ys] assms show ?thesis
      by (force simp: drain_measure_def moves_left_def)
  next
    case (Some v)
    with Trying server_step.retry [of s xs seen n ys v] assms show ?thesis by blast
  qed
next
  case (Holding n)
  with server_step.release [of s xs n ys] assms show ?thesis
    by (force simp: drain_measure_def moves_left_def)
next
  case Leaving
  with server_step.leave [of s xs ys] assms show ?thesis
    by (force simp: drain_measure_def moves_left_def)
qed

text \<open>A worker whose value is up to date reserves or gives up.\<close>

lemma current_worker_moves:
  assumes "sv_workers s = xs @ Trying (sv_inflight s) n # ys"
  shows "\<exists>t. server_step s t \<and> drain_measure t < drain_measure s"
proof (cases "reserve_check n (sv_inflight s)")
  case None
  with server_step.busy [OF assms] show ?thesis using assms
    by (force simp: drain_measure_def moves_left_def)
next
  case (Some v)
  with server_step.exchange [OF assms Some refl] show ?thesis using assms
    by (force simp: drain_measure_def moves_left_def)
qed

lemma server_progress:
  assumes "sv_workers s \<noteq> [] \<or> sv_acceptor s \<noteq> Waiting"
  shows "\<exists>t. server_run s t \<and> drain_measure t < drain_measure s"
proof (cases "sv_workers s")
  case Nil
  with assms obtain p where p: "sv_acceptor s = Counted p" by (cases "sv_acceptor s") auto
  show ?thesis
  proof (cases "p \<ge> int max_connections")
    case True
    with server_step.refuse [OF p] show ?thesis
      by (fastforce intro: run_step server_run.here simp: drain_measure_def p)
  next
    case False
    with server_step.spawn_failed [OF p] show ?thesis
      by (fastforce intro: run_step server_run.here simp: drain_measure_def p)
  qed
next
  case (Cons w ys)
  then have w: "sv_workers s = [] @ w # ys" by simp
  from worker_can_move [OF w] obtain t where t: "server_step s t"
    and d: "drain_measure t < drain_measure s \<or>
      (\<exists>seen n. w = Trying seen n \<and> t = s\<lparr>sv_workers := [] @ Trying (sv_inflight s) n # ys\<rparr>)" by blast
  from d show ?thesis
  proof
    assume "drain_measure t < drain_measure s"
    with t show ?thesis by (blast intro: run_step server_run.here)
  next
    assume "\<exists>seen n. w = Trying seen n \<and> t = s\<lparr>sv_workers := [] @ Trying (sv_inflight s) n # ys\<rparr>"
    then obtain seen n where tr: "w = Trying seen n"
      and e: "t = s\<lparr>sv_workers := [] @ Trying (sv_inflight s) n # ys\<rparr>" by blast
    then have "sv_workers t = [] @ Trying (sv_inflight t) n # ys" by simp
    from current_worker_moves [OF this] obtain u where u: "server_step t u" "drain_measure u < drain_measure t"
      by blast
    have "drain_measure t = drain_measure s" using tr e Cons by (simp add: drain_measure_def moves_left_def)
    with u t show ?thesis by (metis run_step server_run.here)
  qed
qed

lemma server_drains: "\<exists>t. server_run s t \<and> sv_workers t = [] \<and> sv_acceptor t = Waiting"
proof (induction "drain_measure s" arbitrary: s rule: less_induct)
  case less
  show ?case
  proof (cases "sv_workers s = [] \<and> sv_acceptor s = Waiting")
    case True
    then show ?thesis by (blast intro: server_run.here)
  next
    case False
    with server_progress [of s] obtain u where u: "server_run s u" "drain_measure u < drain_measure s" by blast
    from less [OF u(2)] obtain t where "server_run u t" "sv_workers t = []" "sv_acceptor t = Waiting" by blast
    with run_trans [OF _ u(1)] show ?thesis by blast
  qed
qed

section \<open>Properties\<close>

text \<open>C14: However the threads interleave, there are never more than 32 workers, the connection
  counter counts exactly the workers and the connection being accepted, and the body counter is the
  sum of the reservations held, at most 256 MiB.\<close>

theorem server_limits:
  assumes "server_run start_server s"
  shows "length (sv_workers s) \<le> 32 \<and> sv_active s = int (length (sv_workers s)) + pending s \<and>
    sv_inflight s = (\<Sum>w \<leftarrow> sv_workers s. case w of Holding n \<Rightarrow> n | _ \<Rightarrow> 0) \<and> sv_inflight s \<le> 268435456"
  using server_run_ok [OF assms start_ok]
  by (simp add: server_ok_def held_bytes_def held_def max_connections_def max_inflight_def)

theorem server_limits_witness:
  "sv_inflight (start_server\<lparr>sv_active := 1, sv_inflight := 5, sv_workers := [Holding 5]\<rparr>) \<le> 268435456"
proof -
  let ?s1 = "start_server\<lparr>sv_acceptor := Counted 0, sv_active := 1\<rparr>"
  let ?s2 = "start_server\<lparr>sv_active := 1, sv_workers := [Reading]\<rparr>"
  let ?s3 = "start_server\<lparr>sv_active := 1, sv_workers := [Trying 0 5]\<rparr>"
  let ?s4 = "start_server\<lparr>sv_active := 1, sv_inflight := 5, sv_workers := [Holding 5]\<rparr>"
  have a: "server_step start_server ?s1"
    using server_step.accept [of start_server] by (simp add: start_server_def)
  have b: "server_step ?s1 ?s2"
    using server_step.spawn [of ?s1 0] by (simp add: start_server_def max_connections_def)
  have c: "server_step ?s2 ?s3"
    using server_step.load [of ?s2 "[]" "[]" 5] by (simp add: start_server_def max_body_bytes_def)
  have d: "server_step ?s3 ?s4"
    using server_step.exchange [of ?s3 "[]" 0 5 "[]" 5]
    by (simp add: start_server_def reserve_check_def max_inflight_def)
  have "server_run start_server ?s4"
    by (rule run_step [OF a], rule run_step [OF b], rule run_step [OF c], rule run_step [OF d], rule server_run.here)
  from server_limits [OF this] show ?thesis by simp
qed

text \<open>C15: From every reachable state the server can get to an idle state, in which both counters are
  back to zero: no reservation and no connection slot is ever lost, on any path a request takes.\<close>

theorem server_recovers:
  assumes "server_run start_server s"
  shows "\<exists>t. server_run s t \<and> sv_workers t = [] \<and> sv_acceptor t = Waiting \<and> sv_active t = 0 \<and> sv_inflight t = 0"
proof -
  obtain t where t: "server_run s t" "sv_workers t = []" "sv_acceptor t = Waiting"
    using server_drains by blast
  from server_run_ok [OF run_trans [OF t(1) assms] start_ok] t(2,3)
  have "sv_active t = 0" "sv_inflight t = 0" by (simp_all add: server_ok_def pending_def held_bytes_def)
  with t show ?thesis by blast
qed

theorem server_recovers_witness:
  "\<exists>t. server_run start_server t \<and> sv_active t = 0 \<and> sv_inflight t = 0"
  using server_recovers [OF server_run.here] by blast

inductive_cases server_stepE: "server_step s t"
inductive_simps server_run_here: "server_run s s"

end
