(* ===== verification/WebText.thy ===== *)
theory WebText
  imports HttpMultipart JsonContract
begin

text \<open>
  Names, form fields and text of the web service: the helpers of \<^verbatim>\<open>tools/web/workflow_support.cpp\<close>
  that check what a client sends and prepare what is sent back.
\<close>

section \<open>Names\<close>

definition safe_name :: "string \<Rightarrow> bool" where
  "safe_name v \<longleftrightarrow> v \<noteq> [] \<and> length v \<le> 64 \<and>
     list_all (\<lambda>c. is_alnum c \<or> c = CHR ''_'' \<or> c = CHR ''-'') v"

definition utf8_width :: "nat \<Rightarrow> nat" where
  "utf8_width c =
     (if 0xc2 \<le> c \<and> c \<le> 0xdf then 2 else if 0xe0 \<le> c \<and> c \<le> 0xef then 3
      else if 0xf0 \<le> c \<and> c \<le> 0xf4 then 4 else 0)"

text \<open>The continuation bytes: the code point they complete, or \<^const>\<open>None\<close>.\<close>

fun continuation :: "nat \<Rightarrow> string \<Rightarrow> nat option" where
  "continuation cp [] = Some cp"
| "continuation cp (c # s) =
     (if char_nat c AND 0xc0 \<noteq> 0x80 then None
      else continuation (push_bit 6 cp OR (char_nat c AND 0x3f)) s)"

definition utf8_sequence :: "char \<Rightarrow> string \<Rightarrow> bool" where
  "utf8_sequence c s =
     (let width = Suc (length s) in
      case continuation (char_nat c AND drop_bit width 0x7f) s of None \<Rightarrow> False
      | Some cp \<Rightarrow>
        \<not> (width = 3 \<and> cp < 0x800 \<or> width = 4 \<and> cp < 0x10000 \<or>
           0xd800 \<le> cp \<and> cp \<le> 0xdfff \<or> cp > 0x10ffff))"

definition plain_name_char :: "char \<Rightarrow> bool" where
  "plain_name_char c \<longleftrightarrow> is_alnum c \<or> c = CHR ''_'' \<or> c = CHR ''-'' \<or> c = CHR ''.''"

function filter_name :: "string \<Rightarrow> string option" where
  "filter_name [] = Some []"
| "filter_name (c # s) =
     (if char_nat c < 0x80
      then map_option (\<lambda>r. if plain_name_char c then c # r else r) (filter_name s)
      else let width = utf8_width (char_nat c) in
        if width = 0 \<or> width > Suc (length s) then None
        else if \<not> utf8_sequence c (take (width - 1) s) then None
        else map_option (\<lambda>r. (c # take (width - 1) s) @ r) (filter_name (drop (width - 1) s)))"
  by pat_completeness auto
termination by (relation "measure length") auto

definition safe_filename :: "string \<Rightarrow> string" where
  "safe_filename v =
     (if CHR ''/'' \<in> set v \<or> CHR 0x5C \<in> set v \<or> CHR 0x00 \<in> set v then []
      else if v = [] \<or> v = ''.'' \<or> v = ''..'' \<or> length v > 255 then []
      else case filter_name v of None \<Rightarrow> []
      | Some out \<Rightarrow> if out = [] \<or> out = ''.'' \<or> out = ''..'' \<or> length out > 255 then [] else out)"

section \<open>JSON text\<close>

definition hex_lower :: "nat \<Rightarrow> char" where
  "hex_lower d = char_of (if d < 10 then 48 + d else 87 + d)"

definition json_escape_char :: "char \<Rightarrow> string" where
  "json_escape_char c =
     (if c = CHR 0x22 then [CHR 0x5C, CHR 0x22]
      else if c = CHR 0x5C then [CHR 0x5C, CHR 0x5C]
      else if c = CHR 0x0A then [CHR 0x5C, CHR ''n'']
      else if c = CHR 0x0D then []
      else if c = CHR 0x09 then [CHR 0x5C, CHR ''t'']
      else if char_nat c < 0x20
      then [CHR 0x5C, CHR ''u'', CHR ''0'', CHR ''0'', hex_lower (char_nat c div 16), hex_lower (char_nat c mod 16)]
      else [c])"

definition json_escape :: "string \<Rightarrow> string" where
  "json_escape s = concat (map json_escape_char s)"

section \<open>Form fields\<close>

text \<open>\<^verbatim>\<open>std::strtol\<close> in base ten: the value and what follows the digits, or \<^const>\<open>None\<close> without a digit.\<close>

definition strtol :: "string \<Rightarrow> (int \<times> string) option" where
  "strtol s =
     (let t = dropWhile is_space s;
          neg = (t \<noteq> [] \<and> hd t = CHR ''-'');
          u = (if t \<noteq> [] \<and> (hd t = CHR ''-'' \<or> hd t = CHR ''+'') then tl t else t);
          ds = takeWhile is_digit u
      in if ds = [] then None
         else Some ((if neg then - int (dec_value_from 0 ds) else int (dec_value_from 0 ds)),
                    dropWhile is_digit u))"

definition parse_int_field :: "string \<Rightarrow> int \<Rightarrow> int \<Rightarrow> int option" where
  "parse_int_field v minimum maximum =
     (case strtol v of None \<Rightarrow> None
      | Some (parsed, rest) \<Rightarrow>
        if parsed < - (2 ^ 63) \<or> parsed > 2 ^ 63 - 1 then None
        else if rest \<noteq> [] then None
        else if parsed < minimum \<or> parsed > maximum then None
        else Some parsed)"

definition parse_bool_field :: "string \<Rightarrow> bool option" where
  "parse_bool_field v = (if v = ''0'' then Some False else if v = ''1'' then Some True else None)"

fun field_of :: "part list \<Rightarrow> string \<Rightarrow> string \<Rightarrow> string" where
  "field_of [] name default_value = default_value"
| "field_of (p # ps) name default_value =
     (if p_name p = name \<and> p_filename p = [] then p_data p else field_of ps name default_value)"

text \<open>\<^verbatim>\<open>std::getline\<close> with the ampersand as delimiter, then the first pair with the key.\<close>

function split_pairs :: "string \<Rightarrow> string list" where
  "split_pairs s =
     (if s = [] then []
      else takeWhile (\<lambda>c. c \<noteq> CHR ''&'') s # split_pairs (drop (Suc (length (takeWhile (\<lambda>c. c \<noteq> CHR ''&'') s))) s))"
  by pat_completeness auto
termination by (relation "measure length") auto

declare split_pairs.simps [simp del]

fun find_pair :: "string list \<Rightarrow> string \<Rightarrow> string" where
  "find_pair [] key = []"
| "find_pair (p # ps) key =
     (case find_char CHR ''='' p of None \<Rightarrow> find_pair ps key
      | Some i \<Rightarrow> if take i p = key then drop (Suc i) p else find_pair ps key)"

definition query_get :: "string \<Rightarrow> string \<Rightarrow> string" where
  "query_get query key = find_pair (split_pairs query) key"

section \<open>Files as text\<close>

text \<open>A file that can be opened and read; \<open>complete\<close> says whether the read delivers all of it.\<close>

definition read_file :: "bytes option \<Rightarrow> bool \<Rightarrow> nat \<Rightarrow> bytes" where
  "read_file opened complete limit =
     (case opened of None \<Rightarrow> []
      | Some data \<Rightarrow> if length data > limit then [] else if data \<noteq> [] \<and> \<not> complete then [] else data)"

definition log_tail :: "bytes option \<Rightarrow> bool \<Rightarrow> nat \<Rightarrow> bytes" where
  "log_tail opened complete count =
     (case opened of None \<Rightarrow> []
      | Some data \<Rightarrow>
        let n = min count (length data) in
        if n \<noteq> 0 \<and> \<not> complete then [] else drop (length data - n) data)"

definition mime_for :: "string \<Rightarrow> string" where
  "mime_for path =
     (if ends_with path ''.html'' then ''text/html; charset=utf-8''
      else if ends_with path ''.js'' then ''application/javascript''
      else if ends_with path ''.css'' then ''text/css''
      else if ends_with path ''.wav'' then ''audio/wav''
      else ''application/octet-stream'')"

section \<open>Properties\<close>

lemma hex_value_hex_lower: "d < 16 \<Longrightarrow> hex_value (hex_lower d) = Some d"
  by (auto simp: hex_lower_def hex_value_low)

lemma parse_hex4_control:
  "n < 32 \<Longrightarrow> parse_hex4 ([CHR ''0'', CHR ''0'', hex_lower (n div 16), hex_lower (n mod 16)] @ s) = Some (n, s)"
proof -
  assume n: "n < 32"
  have four: "(4 :: nat) = Suc (Suc (Suc (Suc 0)))" by simp
  have h: "hex_value (hex_lower (n div 16)) = Some (n div 16)" "hex_value (hex_lower (n mod 16)) = Some (n mod 16)"
    using n by (simp_all add: hex_value_hex_lower)
  have "hex_digits 4 0 ([CHR ''0'', CHR ''0'', hex_lower (n div 16), hex_lower (n mod 16)] @ s)
      = Some (push_bit 4 (n div 16) OR n mod 16, s)"
    unfolding four append_Cons append_Nil
    by (simp only: hex_digits.simps hex_value_low(3) h option.case) (simp add: push_bit_eq_mult mult.commute)
  also have "push_bit 4 (n div 16) OR n mod 16 = n"
    using or_disjoint [of "n mod 16" 4 "n div 16"] by (simp add: push_bit_eq_mult)
  finally show ?thesis by (simp add: parse_hex4_def)
qed

lemma json_escape_char_read:
  "c \<noteq> CHR 0x0D \<Longrightarrow> string_body acc (json_escape_char c @ s) = string_body (acc @ [c]) s"
proof -
  assume cr: "c \<noteq> CHR 0x0D"
  consider "c \<in> {CHR 0x22, CHR 0x5C, CHR 0x0A, CHR 0x09}" | "c \<notin> {CHR 0x22, CHR 0x5C, CHR 0x0A, CHR 0x09}" "char_nat c < 0x20"
    | "c \<notin> {CHR 0x22, CHR 0x5C, CHR 0x0A, CHR 0x09}" "0x20 \<le> char_nat c" by linarith
  then show ?thesis
  proof cases
    case 1
    then show ?thesis by (auto simp: json_escape_char_def parse_escape_def)
  next
    case 2
    let ?n = "char_nat c"
    have "json_escape_char c @ s = CHR 0x5C # CHR ''u'' #
        ([CHR ''0'', CHR ''0'', hex_lower (?n div 16), hex_lower (?n mod 16)] @ s)"
      using 2 cr by (simp add: json_escape_char_def)
    moreover have "parse_escape (CHR ''u'' # ([CHR ''0'', CHR ''0'', hex_lower (?n div 16), hex_lower (?n mod 16)] @ s)) = Some ([c], s)"
      unfolding parse_escape_def list.case parse_unicode_def parse_hex4_control [OF 2(2) [simplified]]
      using 2(2) by (simp add: utf8_def char_nat_def)
    ultimately show ?thesis by simp
  next
    case 3
    then show ?thesis using cr by (simp add: json_escape_char_def char_nat_def)
  qed
qed

lemma string_body_json_escape:
  "string_body acc (json_escape t @ CHR 0x22 # s) = Some (acc @ filter (\<lambda>c. c \<noteq> CHR 0x0D) t, s)"
proof (induction t arbitrary: acc)
  case (Cons c t)
  show ?case
  proof (cases "c = CHR 0x0D")
    case True
    then have "json_escape (c # t) = json_escape t" by (simp add: json_escape_def json_escape_char_def)
    with Cons True show ?thesis by simp
  next
    case False
    have "json_escape (c # t) @ CHR 0x22 # s = json_escape_char c @ json_escape t @ CHR 0x22 # s"
      by (simp add: json_escape_def)
    with Cons [of "acc @ [c]"] json_escape_char_read [OF False] False show ?thesis by simp
  qed
qed (simp add: json_escape_def)

text \<open>Any bytes put into a JSON string with the service's escaping are one JSON string, which the
  JSON reader reads back as the same bytes without their carriage returns, up to the closing quote.\<close>

lemma json_escape_read:
  "parse_string ([CHR 0x22] @ json_escape t @ [CHR 0x22] @ s) = Some (filter (\<lambda>c. c \<noteq> CHR 0x0D) t, s)"
  by (simp add: parse_string_def string_body_json_escape)

lemma high_bit: "x AND 0xc0 = (0x80 :: nat) \<Longrightarrow> 0x80 \<le> x"
proof (rule ccontr)
  assume a: "x AND 0xc0 = 0x80" and "\<not> 0x80 \<le> x"
  then have "x = take_bit 7 x" by (simp add: take_bit_nat_eq_self)
  then have "\<not> bit x 7" by (metis bit_take_bit_iff order.irrefl)
  then have "\<not> bit (x AND 0xc0) 7" by (simp add: bit_simps)
  moreover have "bit (0x80 :: nat) 7" using bit_exp_iff [where 'a = nat, of 7 7] by simp
  ultimately show False using a by simp
qed

lemma continuation_high: "continuation cp s = Some v \<Longrightarrow> c \<in> set s \<Longrightarrow> 0x80 \<le> char_nat c"
  by (induction cp s rule: continuation.induct) (auto split: if_splits dest: high_bit)

definition name_byte :: "char \<Rightarrow> bool" where
  "name_byte c \<longleftrightarrow> plain_name_char c \<or> 0x80 \<le> char_nat c"

lemma utf8_sequence_high: "utf8_sequence c s \<Longrightarrow> d \<in> set s \<Longrightarrow> name_byte d"
  by (auto simp: utf8_sequence_def name_byte_def Let_def dest: continuation_high split: option.splits)

lemma filter_name_sound:
  "filter_name s = Some r \<Longrightarrow> list_all name_byte r \<and> filter_name r = Some r \<and> length r \<le> length s"
proof (induction s arbitrary: r rule: filter_name.induct)
  case (2 c s)
  show ?case
  proof (cases "char_nat c < 0x80")
    case True
    with "2.prems" obtain q where q: "filter_name s = Some q" and r: "r = (if plain_name_char c then c # q else q)"
      by auto
    from "2.IH"(1) [OF True q] True show ?thesis by (auto simp: r name_byte_def)
  next
    case False
    let ?w = "utf8_width (char_nat c)"
    from False "2.prems" obtain q where w: "?w \<noteq> 0" "\<not> ?w > Suc (length s)"
      and u: "utf8_sequence c (take (?w - 1) s)" and q: "filter_name (drop (?w - 1) s) = Some q"
      and r: "r = c # take (?w - 1) s @ q" by (auto simp: Let_def split: if_splits)
    from False w u q have IH: "list_all name_byte q \<and> filter_name q = Some q \<and> length q \<le> length (drop (?w - 1) s)"
      by (intro "2.IH"(2)) auto
    have len: "length (take (?w - 1) s) = ?w - 1" using w by simp
    have "list_all name_byte (take (?w - 1) s)" using utf8_sequence_high [OF u] by (auto simp: list_all_iff)
    moreover have "name_byte c" using False by (simp add: name_byte_def)
    moreover have "filter_name r = Some r"
      using False w u IH len by (simp add: r Let_def)
    ultimately show ?thesis using IH len by (auto simp: r)
  qed
qed simp

text \<open>A file name the service accepts holds only letters, digits, underscore, dash, dot and bytes
  of complete UTF-8 characters: no separator, no NUL; it is not a directory's own or parent name, has
  at most 255 bytes, and is accepted unchanged when it is checked again.\<close>

lemma safe_filename_safe:
  assumes "safe_filename v \<noteq> []"
  shows "CHR ''/'' \<notin> set (safe_filename v) \<and> CHR 0x5C \<notin> set (safe_filename v) \<and>
    CHR 0x00 \<notin> set (safe_filename v) \<and> safe_filename v \<noteq> ''.'' \<and> safe_filename v \<noteq> ''..'' \<and>
    length (safe_filename v) \<le> 255 \<and> list_all (\<lambda>c. plain_name_char c \<or> 0x80 \<le> char_nat c) (safe_filename v) \<and>
    safe_filename (safe_filename v) = safe_filename v"
proof -
  from assms obtain r where f: "filter_name v = Some r" and r: "safe_filename v = r"
    and ok: "r \<noteq> []" "r \<noteq> ''.''" "r \<noteq> ''..''" "length r \<le> 255"
    by (auto simp: safe_filename_def split: if_splits option.splits)
  from filter_name_sound [OF f] have b: "list_all name_byte r" "filter_name r = Some r" by simp_all
  have "\<not> name_byte CHR ''/''" "\<not> name_byte CHR 0x5C" "\<not> name_byte CHR 0x00"
    by (simp_all add: name_byte_def plain_name_char_def is_alnum_def is_digit_def is_upper_def is_lower_def char_nat_def)
  with b(1) have n: "CHR ''/'' \<notin> set r" "CHR 0x5C \<notin> set r" "CHR 0x00 \<notin> set r"
    by (auto simp: list_all_iff)
  have "safe_filename r = r" using n ok b(2) by (simp add: safe_filename_def)
  moreover have "list_all (\<lambda>c. plain_name_char c \<or> 0x80 \<le> char_nat c) r"
    using b(1) by (simp add: name_byte_def [abs_def])
  ultimately show ?thesis using n ok unfolding r by simp
qed

theorem safe_filename_safe_witness:
  "safe_filename (safe_filename [CHR ''a'', CHR '' '', CHR 0xC3, CHR 0xA9, CHR ''.'', CHR ''w''])
   = [CHR ''a'', CHR 0xC3, CHR 0xA9, CHR ''.'', CHR ''w'']"
proof -
  have "safe_filename [CHR ''a'', CHR '' '', CHR 0xC3, CHR 0xA9, CHR ''.'', CHR ''w'']
      = [CHR ''a'', CHR 0xC3, CHR 0xA9, CHR ''.'', CHR ''w'']"
    by (simp add: safe_filename_def utf8_width_def utf8_sequence_def plain_name_char_def is_alnum_def is_digit_def
        is_upper_def is_lower_def char_nat_def Let_def)
  with safe_filename_safe [of "[CHR ''a'', CHR '' '', CHR 0xC3, CHR 0xA9, CHR ''.'', CHR ''w'']"]
  show ?thesis by simp
qed

end
