(* ===== verification/Publish.thy ===== *)
theory Publish
  imports Prelude
begin

text \<open>
  The publication of a voice's artifacts, as \<^verbatim>\<open>replace_material_dirs\<close>,
  \<^verbatim>\<open>replace_step_artifacts\<close> and \<^verbatim>\<open>replace_training_artifacts\<close> of
  \<^verbatim>\<open>tools/web/workflow_support.cpp\<close> do it: the live artifacts move to a backup directory, the
  staged ones take their place, and a failure takes the new ones away and moves the old ones back.
  The backup is kept when that does not succeed completely.

  An artifact is a name with a content (a file, or a directory taken as a whole).  The kernel's
  failures are a parameter; a removal that fails may leave anything of what it was to remove.
\<close>

section \<open>The place and the kernel\<close>

record 'c site =
  live :: "string \<Rightarrow> 'c option"
  old :: "string \<Rightarrow> 'c option"
  staged :: "string \<Rightarrow> 'c option"

datatype publish_call =
    Call_status string
  | Call_exists string
  | Call_retire string
  | Call_install string
  | Call_remove string
  | Call_restore string

record 'c publish_kernel =
  pk_fails :: "publish_call \<Rightarrow> bool"
  pk_is_file :: "string \<Rightarrow> bool"
  pk_left :: "string \<Rightarrow> 'c option"

text \<open>\<^verbatim>\<open>fs::rename\<close> onto an existing name replaces a file and fails on a directory.\<close>

definition retire_one :: "'c publish_kernel \<Rightarrow> string \<Rightarrow> 'c site \<Rightarrow> 'c site option" where
  "retire_one k n s =
     (if pk_fails k (Call_retire n) then None
      else case live s n of None \<Rightarrow> None
      | Some c \<Rightarrow> Some (s\<lparr>live := (live s)(n := None), old := (old s)(n := Some c)\<rparr>))"

definition install_one :: "'c publish_kernel \<Rightarrow> string \<Rightarrow> 'c site \<Rightarrow> 'c site option" where
  "install_one k n s =
     (if pk_fails k (Call_install n) \<or> live s n \<noteq> None \<and> \<not> pk_is_file k n then None
      else case staged s n of None \<Rightarrow> None
      | Some c \<Rightarrow> Some (s\<lparr>live := (live s)(n := Some c), staged := (staged s)(n := None)\<rparr>))"

definition restore_one :: "'c publish_kernel \<Rightarrow> string \<Rightarrow> 'c site \<Rightarrow> 'c site option" where
  "restore_one k n s =
     (if pk_fails k (Call_restore n) \<or> live s n \<noteq> None \<and> \<not> pk_is_file k n then None
      else case old s n of None \<Rightarrow> None
      | Some c \<Rightarrow> Some (s\<lparr>live := (live s)(n := Some c), old := (old s)(n := None)\<rparr>))"

definition remove_one :: "'c publish_kernel \<Rightarrow> string \<Rightarrow> 'c site \<Rightarrow> 'c site \<times> bool" where
  "remove_one k n s =
     (if pk_fails k (Call_remove n) then (s\<lparr>live := (live s)(n := pk_left k n)\<rparr>, False)
      else (s\<lparr>live := (live s)(n := None)\<rparr>, True))"

section \<open>The phases\<close>

text \<open>
  Each phase goes over the names in order.  The first two stop at the first failure and return the
  names done, the last one first; the rollback phases go on and say whether all of it worked.
\<close>

fun retire :: "'c publish_kernel \<Rightarrow> string list \<Rightarrow> string list \<Rightarrow> 'c site \<Rightarrow> 'c site \<times> string list \<times> bool" where
  "retire k [] moved s = (s, moved, True)"
| "retire k (n # ns) moved s =
     (if pk_fails k (Call_exists n) then (s, moved, False)
      else if live s n = None then retire k ns moved s
      else case retire_one k n s of None \<Rightarrow> (s, moved, False)
      | Some s' \<Rightarrow> retire k ns (n # moved) s')"

fun install :: "'c publish_kernel \<Rightarrow> string list \<Rightarrow> string list \<Rightarrow> 'c site \<Rightarrow> 'c site \<times> string list \<times> bool" where
  "install k [] done s = (s, done, True)"
| "install k (n # ns) done s =
     (case install_one k n s of None \<Rightarrow> (s, done, False) | Some s' \<Rightarrow> install k ns (n # done) s')"

fun remove_installed :: "'c publish_kernel \<Rightarrow> string list \<Rightarrow> 'c site \<Rightarrow> 'c site \<times> bool" where
  "remove_installed k [] s = (s, True)"
| "remove_installed k (n # ns) s =
     (let (s', ok) = remove_one k n s; (s'', ok') = remove_installed k ns s' in (s'', ok \<and> ok'))"

fun restore_old :: "'c publish_kernel \<Rightarrow> string list \<Rightarrow> 'c site \<Rightarrow> 'c site \<times> bool" where
  "restore_old k [] s = (s, True)"
| "restore_old k (n # ns) s =
     (case restore_one k n s of
        None \<Rightarrow> (fst (restore_old k ns s), False)
      | Some s' \<Rightarrow> restore_old k ns s')"

text \<open>The outcome: the place, whether it was published, whether the backup is kept.\<close>

record 'c outcome =
  oc_site :: "'c site"
  oc_published :: bool
  oc_retained :: bool

definition drop_backup :: "'c site \<Rightarrow> 'c site" where
  "drop_backup s = s\<lparr>old := (\<lambda>_. None)\<rparr>"

definition roll_back :: "'c publish_kernel \<Rightarrow> string list \<Rightarrow> string list \<Rightarrow> 'c site \<Rightarrow> 'c outcome" where
  "roll_back k installed moved s =
     (let (s1, ok1) = remove_installed k installed s; (s2, ok2) = restore_old k moved s1
      in if ok1 \<and> ok2 then \<lparr>oc_site = drop_backup s2, oc_published = False, oc_retained = False\<rparr>
         else \<lparr>oc_site = s2, oc_published = False, oc_retained = True\<rparr>)"

section \<open>The three publications\<close>

definition replace_artifacts :: "'c publish_kernel \<Rightarrow> string list \<Rightarrow> 'c site \<Rightarrow> 'c outcome" where
  "replace_artifacts k names s =
     (let (s1, moved, ok1) = retire k names [] s;
          (s2, installed, ok2) = (if ok1 then install k names [] s1 else (s1, [], False))
      in if ok2 then \<lparr>oc_site = drop_backup s2, oc_published = True, oc_retained = False\<rparr>
         else roll_back k installed moved s2)"

definition replace_step_artifacts :: "'c publish_kernel \<Rightarrow> 'c site \<Rightarrow> 'c outcome" where
  "replace_step_artifacts k s = replace_artifacts k [''work'', ''steps.txt''] s"

definition replace_training_artifacts :: "'c publish_kernel \<Rightarrow> 'c site \<Rightarrow> 'c outcome" where
  "replace_training_artifacts k s =
     replace_artifacts k [''clips'', ''model.safetensors'', ''model.index''] s"

definition replace_material_dirs :: "'c publish_kernel \<Rightarrow> 'c site \<Rightarrow> 'c outcome" where
  "replace_material_dirs k s =
     (if pk_fails k (Call_status ''steps.txt'') \<or> live s ''steps.txt'' \<noteq> None \<and> \<not> pk_is_file k ''steps.txt''
      then \<lparr>oc_site = s, oc_published = False, oc_retained = False\<rparr>
      else let (s1, moved, ok1) = retire k [''raw'', ''work'', ''steps.txt''] [] s;
          (s2, installed, ok2) = (if ok1 then install k [''raw'', ''work''] [] s1 else (s1, [], False))
      in if ok2 then \<lparr>oc_site = drop_backup s2, oc_published = True, oc_retained = False\<rparr>
         else roll_back k (rev installed) (rev moved) s2)"

section \<open>What each phase does\<close>

definition retired :: "'c site \<Rightarrow> string list \<Rightarrow> 'c site \<Rightarrow> bool" where
  "retired s0 moved s \<longleftrightarrow>
     live s = (\<lambda>n. if n \<in> set moved then None else live s0 n) \<and>
     old s = (\<lambda>n. if n \<in> set moved then live s0 n else None) \<and> staged s = staged s0 \<and>
     distinct moved \<and> (\<forall>n \<in> set moved. live s0 n \<noteq> None)"

lemma retire_grows: "retire k ns ms u = (u', ms', b) \<Longrightarrow> x \<in> set ms \<Longrightarrow> x \<in> set ms'"
  by (induction k ns ms u rule: retire.induct) (auto split: if_splits option.splits)

lemma retire_spec:
  "retire k ns moved s = (s', moved', ok) \<Longrightarrow> retired s0 moved s \<Longrightarrow>
     retired s0 moved' s' \<and> set moved' \<subseteq> set moved \<union> set ns \<and> (ok \<longrightarrow> (\<forall>n \<in> set ns. live s' n = None))"
proof (induction k ns moved s arbitrary: s' moved' ok rule: retire.induct)
  case (2 k n ns moved s)
  show ?case
  proof (cases "pk_fails k (Call_exists n)")
    case True
    with "2.prems" show ?thesis by auto
  next
    case nf: False
    show ?thesis
    proof (cases "live s n")
      case None
      with nf "2.prems" have r: "retire k ns moved s = (s', moved', ok)" by simp
      have "live s' n = None" if "live s n = None"
      proof (cases "n \<in> set moved")
        case True
        with retire_grows [OF r] "2.IH"(1) [OF nf None r "2.prems"(2)] show ?thesis by (auto simp: retired_def)
      next
        case False
        with that "2.prems"(2) have "live s0 n = None" by (simp add: retired_def)
        with "2.IH"(1) [OF nf None r "2.prems"(2)] show ?thesis by (auto simp: retired_def)
      qed
      with "2.IH"(1) [OF nf None r "2.prems"(2)] None show ?thesis by auto
    next
      case (Some c)
      show ?thesis
      proof (cases "retire_one k n s")
        case None
        with nf Some "2.prems" show ?thesis by auto
      next
        case (Some t)
        with \<open>live s n = Some c\<close> have t: "t = s\<lparr>live := (live s)(n := None), old := (old s)(n := Some c)\<rparr>"
          by (auto simp: retire_one_def split: if_splits)
        have rt: "retired s0 (n # moved) t"
          using "2.prems"(2) \<open>live s n = Some c\<close> by (auto simp: retired_def t fun_eq_iff split: if_splits)
        from nf Some \<open>live s n = Some c\<close> "2.prems"(1) have r: "retire k ns (n # moved) t = (s', moved', ok)" by simp
        from "2.IH"(2) [OF nf _ Some r rt] \<open>live s n = Some c\<close>
        have post: "retired s0 moved' s'" "set moved' \<subseteq> insert n (set moved) \<union> set ns"
          "ok \<longrightarrow> (\<forall>m \<in> set ns. live s' m = None)" by auto
        moreover have "n \<in> set moved'" using retire_grows [OF r] by simp
        ultimately show ?thesis by (auto simp: retired_def)
      qed
    qed
  qed
qed simp

lemma install_spec:
  "install k ns dn s = (s', dn', ok) \<Longrightarrow> distinct ns \<Longrightarrow> (\<forall>n \<in> set ns. live s n = None) \<Longrightarrow>
     old s' = old s \<and> (\<exists>is. set is \<subseteq> set ns \<and> distinct is \<and> dn' = is @ dn \<and>
       live s' = (\<lambda>n. if n \<in> set is then staged s n else live s n) \<and>
       (ok \<longrightarrow> set is = set ns \<and> (\<forall>n \<in> set ns. staged s n \<noteq> None)))"
proof (induction k ns dn s arbitrary: s' dn' ok rule: install.induct)
  case (1 k dn s)
  then show ?case by (auto intro: exI [of _ "[]"])
next
  case (2 k n ns dn s)
  show ?case
  proof (cases "install_one k n s")
    case None
    with 2 show ?thesis by (auto intro: exI [of _ "[]"])
  next
    case (Some t)
    then obtain c where c: "staged s n = Some c"
      and t: "t = s\<lparr>live := (live s)(n := Some c), staged := (staged s)(n := None)\<rparr>"
      by (auto simp: install_one_def split: if_splits option.splits)
    have r: "install k ns (n # dn) t = (s', dn', ok)" using "2.prems"(1) Some by simp
    have "\<forall>m \<in> set ns. live t m = None" using "2.prems" by (auto simp: t)
    from "2.IH" [OF Some r _ this] "2.prems"(2) obtain "is" where
      i: "old s' = old t" "set is \<subseteq> set ns" "distinct is" "dn' = is @ n # dn"
        "live s' = (\<lambda>m. if m \<in> set is then staged t m else live t m)"
        "ok \<longrightarrow> set is = set ns \<and> (\<forall>m \<in> set ns. staged t m \<noteq> None)" by auto
    have n: "n \<notin> set is" "n \<notin> set ns" using "2.prems"(2) i(2) by auto
    have "dn' = (is @ [n]) @ dn" using i by simp
    moreover have "live s' = (\<lambda>m. if m \<in> set (is @ [n]) then staged s m else live s m)"
      using n c by (auto simp: i(5) t fun_eq_iff)
    moreover have "ok \<longrightarrow> set (is @ [n]) = set (n # ns) \<and> (\<forall>m \<in> set (n # ns). staged s m \<noteq> None)"
      using i(6) c n by (auto simp: t split: if_splits)
    moreover have "set (is @ [n]) \<subseteq> set (n # ns)" "distinct (is @ [n])" "old s' = old s"
      using i n by (auto simp: t)
    ultimately show ?thesis by blast
  qed
qed

lemma remove_spec:
  "remove_installed k ns s = (s', ok) \<Longrightarrow>
     old s' = old s \<and> (\<forall>n. n \<notin> set ns \<longrightarrow> live s' n = live s n) \<and> (ok \<longrightarrow> (\<forall>n \<in> set ns. live s' n = None))"
proof (induction ns arbitrary: s s' ok)
  case (Cons n ns)
  obtain t b where t: "remove_one k n s = (t, b)" by (cases "remove_one k n s") auto
  obtain u b' where u: "remove_installed k ns t = (u, b')" by (cases "remove_installed k ns t") auto
  from Cons.prems t u have e: "s' = u" "ok = (b \<and> b')" by auto
  have "old t = old s" "\<forall>m. m \<noteq> n \<longrightarrow> live t m = live s m" "b \<longrightarrow> live t n = None"
    using t by (auto simp: remove_one_def split: if_splits)
  with Cons.IH [OF u] e show ?case by (cases "n \<in> set ns") auto
qed simp

lemma restore_spec:
  "restore_old k ns s = (s', ok) \<Longrightarrow> distinct ns \<Longrightarrow>
     (\<forall>n. n \<notin> set ns \<longrightarrow> live s' n = live s n \<and> old s' n = old s n) \<and>
     (\<forall>n \<in> set ns. \<forall>c. old s n = Some c \<longrightarrow> live s' n = Some c \<or> old s' n = Some c) \<and>
     (ok \<longrightarrow> (\<forall>n \<in> set ns. live s' n = old s n))"
proof (induction k ns s arbitrary: s' ok rule: restore_old.induct)
  case (2 k n ns s)
  show ?case
  proof (cases "restore_one k n s")
    case None
    obtain u b where u: "restore_old k ns s = (u, b)" by (cases "restore_old k ns s") auto
    with None "2.prems" have e: "s' = u" "\<not> ok" by auto
    from "2.IH"(1) [OF None u] "2.prems"(2) e show ?thesis by auto
  next
    case (Some t)
    then obtain c where c: "old s n = Some c"
      and t: "t = s\<lparr>live := (live s)(n := Some c), old := (old s)(n := None)\<rparr>"
      by (auto simp: restore_one_def split: if_splits option.splits)
    have r: "restore_old k ns t = (s', ok)" using "2.prems"(1) Some by simp
    have n: "n \<notin> set ns" "distinct ns" using "2.prems"(2) by simp_all
    note IH = "2.IH"(2) [OF Some r n(2)]
    have "live s' n = Some c" using IH n(1) by (simp add: t)
    moreover have "m \<noteq> n \<Longrightarrow> live t m = live s m \<and> old t m = old s m" for m by (simp add: t)
    moreover have "m \<in> set ns \<Longrightarrow> old t m = old s m" for m using n(1) by (auto simp: t)
    ultimately show ?thesis using IH c by auto
  qed
qed simp

section \<open>The transaction\<close>

text \<open>
  The promise of a publication over some names, from a place with a fresh backup directory:
  published, every name shows its staged content; otherwise either everything is as it was, or the
  backup is kept and no old content is lost.  Other names are never touched.
\<close>

definition transaction :: "string list \<Rightarrow> string list \<Rightarrow> 'c site \<Rightarrow> 'c outcome \<Rightarrow> bool" where
  "transaction names cleared s r \<longleftrightarrow>
     (if oc_published r
      then (\<forall>n \<in> set names. live (oc_site r) n = staged s n \<and> staged s n \<noteq> None) \<and>
        (\<forall>n \<in> set cleared. live (oc_site r) n = None)
      else if oc_retained r
      then \<forall>n c. live s n = Some c \<longrightarrow> live (oc_site r) n = Some c \<or> old (oc_site r) n = Some c
      else live (oc_site r) = live s) \<and>
     (\<forall>n. n \<notin> set names \<longrightarrow> n \<notin> set cleared \<longrightarrow> live (oc_site r) n = live s n)"

lemma retired_start: "old s = (\<lambda>_. None) \<Longrightarrow> retired s [] s"
  by (simp add: retired_def)

lemma roll_back_transaction:
  assumes m: "retired s moved s1" "set moved \<subseteq> set all"
    and i: "set installed \<subseteq> set names" "set names \<subseteq> set all"
      "live s2 = (\<lambda>n. if n \<in> set installed then v n else live s1 n)" "old s2 = old s1"
      "installed = [] \<or> (\<forall>n \<in> set all. live s1 n = None)"
    and mv: "set moved' = set moved" "distinct moved'" and iv: "set installed' = set installed"
    and all: "set names \<union> set cleared = set all"
  shows "transaction names cleared s (roll_back k installed' moved' s2)"
proof -
  obtain s3 ok1 where r: "remove_installed k installed' s2 = (s3, ok1)"
    by (cases "remove_installed k installed' s2") auto
  obtain s4 ok2 where b: "restore_old k moved' s3 = (s4, ok2)" by (cases "restore_old k moved' s3") auto
  note R = remove_spec [OF r, unfolded iv] and B = restore_spec [OF b mv(2), unfolded mv(1)]
  have o3: "old s3 n = (if n \<in> set moved then live s n else None)" for n
    using R i(4) m(1) by (simp add: retired_def)
  have outside: "live s4 n = live s n" if "n \<notin> set moved" "n \<notin> set installed" for n
    using that R B i(3) m(1) by (auto simp: retired_def)
  have inst: "live s n = None" if "n \<in> set installed" "n \<notin> set moved" for n
  proof -
    have "n \<in> set all" using that i(1,2) by blast
    with i(5) that have "live s1 n = None" by (cases installed) auto
    with that m(1) show ?thesis by (simp add: retired_def)
  qed
  show ?thesis
  proof (cases "ok1 \<and> ok2")
    case True
    have "live s4 n = live s n" for n
    proof (cases "n \<in> set moved")
      case True
      with B \<open>ok1 \<and> ok2\<close> o3 show ?thesis by simp
    next
      case False
      show ?thesis
      proof (cases "n \<in> set installed")
        case True
        with False inst R B \<open>ok1 \<and> ok2\<close> show ?thesis by simp
      qed (simp add: False outside)
    qed
    then show ?thesis using True by (auto simp: roll_back_def r b transaction_def drop_backup_def)
  next
    case False
    have "live s4 n = Some c \<or> old s4 n = Some c" if "live s n = Some c" for n c
    proof (cases "n \<in> set moved")
      case True
      with that o3 B show ?thesis by simp
    next
      case False
      with that inst outside show ?thesis by (cases "n \<in> set installed") auto
    qed
    moreover have "live s4 n = live s n" if "n \<notin> set names" "n \<notin> set cleared" for n
      using that outside all m(2) i(1,2) by blast
    ultimately show ?thesis using False by (auto simp: roll_back_def r b transaction_def)
  qed
qed

lemma publish_transaction:
  assumes fresh: "old s = (\<lambda>_. None)" and d: "distinct names" "set names \<subseteq> set all"
    and r: "retire k all [] s = (s1, moved, ok1)"
    and i: "(if ok1 then install k names [] s1 else (s1, [], False)) = (s2, installed, ok2)"
    and all: "set names \<union> set cleared = set all" "set names \<inter> set cleared = {}"
    and mv: "moved' = moved \<or> moved' = rev moved" "installed' = installed \<or> installed' = rev installed"
  shows "transaction names cleared s
    (if ok2 then \<lparr>oc_site = drop_backup s2, oc_published = True, oc_retained = False\<rparr>
     else roll_back k installed' moved' s2)"
proof -
  note R = retire_spec [OF r retired_start [OF fresh]]
  have dm: "distinct moved" using R by (simp add: retired_def)
  show ?thesis
  proof (cases ok1)
    case False
    with i have e: "s2 = s1" "installed = []" "\<not> ok2" by auto
    have "transaction names cleared s (roll_back k installed' moved' s2)"
      by (rule roll_back_transaction [of s moved s1 all "[]" names _ "\<lambda>_. None"]) (use R d e mv dm all in auto)
    with e show ?thesis by simp
  next
    case True
    with R have none: "\<forall>n \<in> set all. live s1 n = None" by simp
    with d have "\<forall>n \<in> set names. live s1 n = None" by blast
    from install_spec [OF _ d(1) this, of k "[]" s2 installed ok2] i True obtain "is" where
      I: "old s2 = old s1" "set is \<subseteq> set names" "installed = is"
        "live s2 = (\<lambda>n. if n \<in> set is then staged s1 n else live s1 n)"
        "ok2 \<longrightarrow> set is = set names \<and> (\<forall>n \<in> set names. staged s1 n \<noteq> None)" by auto
    show ?thesis
    proof (cases ok2)
      case False
      have "transaction names cleared s (roll_back k installed' moved' s2)"
        by (rule roll_back_transaction [of s moved s1 all "is" names _ "staged s1"])
           (use R d I mv dm all none in auto)
      with False show ?thesis by simp
    next
      case True
      have st: "staged s1 = staged s" "n \<notin> set all \<Longrightarrow> live s1 n = live s n" for n
        using R by (auto simp: retired_def)
      have "live s2 n = None" if "n \<in> set cleared" for n
        using that I True all none by (auto simp: disjoint_iff)
      moreover have "live s2 n = live s n" if "n \<notin> set names" "n \<notin> set cleared" for n
        using that I True all st(2) [of n] by auto
      ultimately show ?thesis
        using True I st(1) by (auto simp: transaction_def drop_backup_def)
    qed
  qed
qed

lemma replace_artifacts_transaction:
  assumes "old s = (\<lambda>_. None)" and "distinct names"
  shows "transaction names [] s (replace_artifacts k names s)"
proof -
  obtain s1 moved ok1 where r: "retire k names [] s = (s1, moved, ok1)" by (cases "retire k names [] s") auto
  obtain s2 installed ok2 where i: "(if ok1 then install k names [] s1 else (s1, [], False)) = (s2, installed, ok2)"
    by (metis prod_cases3)
  have "replace_artifacts k names s = (if ok2 then \<lparr>oc_site = drop_backup s2, oc_published = True, oc_retained = False\<rparr>
      else roll_back k installed moved s2)"
    unfolding replace_artifacts_def r Let_def prod.case i ..
  with publish_transaction [OF assms _ r i, of "[]" moved installed] show ?thesis by simp
qed

lemma replace_material_transaction:
  assumes "old s = (\<lambda>_. None)"
  shows "transaction [''raw'', ''work''] [''steps.txt''] s (replace_material_dirs k s)"
proof (cases "pk_fails k (Call_status ''steps.txt'') \<or> live s ''steps.txt'' \<noteq> None \<and> \<not> pk_is_file k ''steps.txt''")
  case True
  then show ?thesis by (auto simp: replace_material_dirs_def transaction_def)
next
  case False
  let ?all = "[''raw'', ''work'', ''steps.txt'']" and ?names = "[''raw'', ''work'']"
  obtain s1 moved ok1 where r: "retire k ?all [] s = (s1, moved, ok1)" by (cases "retire k ?all [] s") auto
  obtain s2 installed ok2 where i: "(if ok1 then install k ?names [] s1 else (s1, [], False)) = (s2, installed, ok2)"
    by (metis prod_cases3)
  have "replace_material_dirs k s = (if ok2 then \<lparr>oc_site = drop_backup s2, oc_published = True, oc_retained = False\<rparr>
      else roll_back k (rev installed) (rev moved) s2)"
    unfolding replace_material_dirs_def r Let_def prod.case i using False by auto
  moreover have "set ?names \<union> set [''steps.txt''] = set ?all" "set ?names \<inter> set [''steps.txt''] = {}"
    "distinct ?names" "set ?names \<subseteq> set ?all" by auto
  note publish_transaction [OF assms this(3,4) r i this(1,2), of "rev moved" "rev installed"]
  ultimately show ?thesis by simp
qed

section \<open>The contract\<close>

text \<open>
  What a caller of any publication relies on: the names it publishes, the names it retires, and the
  transaction promise.  The caller's lemma needs nothing else.
\<close>

locale publication =
  fixes publish :: "'c publish_kernel \<Rightarrow> 'c site \<Rightarrow> 'c outcome"
    and names :: "string list" and cleared :: "string list"
  assumes promise: "old s = (\<lambda>_. None) \<Longrightarrow> transaction names cleared s (publish k s)"
begin

lemma never_mixed:
  assumes "old s = (\<lambda>_. None)" and "\<not> oc_retained (publish k s)"
  shows "(\<forall>n \<in> set names. live (oc_site (publish k s)) n = staged s n) \<or> live (oc_site (publish k s)) = live s"
  using promise [OF assms(1), of k] assms(2) by (auto simp: transaction_def split: if_splits)

lemma old_generation_kept:
  assumes "old s = (\<lambda>_. None)" and "\<not> oc_published (publish k s)" and "live s n = Some c"
  shows "live (oc_site (publish k s)) n = Some c \<or>
    oc_retained (publish k s) \<and> old (oc_site (publish k s)) n = Some c"
  using promise [OF assms(1), of k] assms(2,3) by (auto simp: transaction_def split: if_splits)

end

interpretation step_pub: publication replace_step_artifacts "[''work'', ''steps.txt'']" "[]"
  by unfold_locales (simp add: replace_step_artifacts_def replace_artifacts_transaction)

interpretation train_pub: publication replace_training_artifacts
  "[''clips'', ''model.safetensors'', ''model.index'']" "[]"
  by unfold_locales (simp add: replace_training_artifacts_def replace_artifacts_transaction)

interpretation material_pub: publication replace_material_dirs "[''raw'', ''work'']" "[''steps.txt'']"
  by unfold_locales (rule replace_material_transaction)

section \<open>Properties\<close>

text \<open>C16: Each of the three publications is a transaction under any failures of the kernel: published,
  its names show the staged contents (and a material publication has retired the step marker); not
  published and the backup dropped, everything is exactly as before; other names are never touched.\<close>

theorem publication_atomic:
  assumes "old s = (\<lambda>_. None)"
  shows "transaction [''work'', ''steps.txt''] [] s (replace_step_artifacts k s) \<and>
    transaction [''clips'', ''model.safetensors'', ''model.index''] [] s (replace_training_artifacts k s) \<and>
    transaction [''raw'', ''work''] [''steps.txt''] s (replace_material_dirs k s)"
  using step_pub.promise train_pub.promise material_pub.promise assms by blast

text \<open>A publication that fails never loses an artifact of the old generation: each is live again, or
  it is in the backup directory and that directory is kept.\<close>

lemma publication_keeps_old:
  assumes "old s = (\<lambda>_. None)" and "live s n = Some c"
    and "publish = replace_step_artifacts \<or> publish = replace_training_artifacts \<or> publish = replace_material_dirs"
    and "\<not> oc_published (publish k s)"
  shows "live (oc_site (publish k s)) n = Some c \<or>
    oc_retained (publish k s) \<and> old (oc_site (publish k s)) n = Some c"
  using assms(3)
proof (elim disjE)
  assume "publish = replace_step_artifacts"
  with step_pub.old_generation_kept [OF assms(1) _ assms(2)] assms(4) show ?thesis by blast
next
  assume "publish = replace_training_artifacts"
  with train_pub.old_generation_kept [OF assms(1) _ assms(2)] assms(4) show ?thesis by blast
next
  assume "publish = replace_material_dirs"
  with material_pub.old_generation_kept [OF assms(1) _ assms(2)] assms(4) show ?thesis by blast
qed

definition sample_site :: "nat site" where
  "sample_site = \<lparr>live = [''work'' \<mapsto> 1, ''steps.txt'' \<mapsto> 2], old = (\<lambda>_. None),
     staged = [''work'' \<mapsto> 3, ''steps.txt'' \<mapsto> 4]\<rparr>"

text \<open>The installation of the second artifact, the removal of the first and its restoration fail.\<close>

definition sample_kernel :: "nat publish_kernel" where
  "sample_kernel = \<lparr>pk_fails = (\<lambda>c. c = Call_install ''steps.txt'' \<or> c = Call_remove ''work''),
     pk_is_file = (\<lambda>n. n = ''steps.txt''), pk_left = (\<lambda>_. Some 3)\<rparr>"

lemma sample_fresh: "old sample_site = (\<lambda>_. None)" "live sample_site ''work'' = Some 1"
  by (simp_all add: sample_site_def)

lemma roll_back_unpublished: "\<not> oc_published (roll_back k installed moved s)"
  by (simp add: roll_back_def split: prod.splits)

lemma install_blocked:
  "pk_fails k (Call_install n) \<Longrightarrow> n \<in> set ns \<Longrightarrow> install k ns dn s = (s', dn', ok) \<Longrightarrow> \<not> ok"
  by (induction k ns dn s rule: install.induct) (auto simp: install_one_def split: if_splits option.splits)

lemma replace_blocked:
  assumes "pk_fails k (Call_install n)" and "n \<in> set names"
  shows "\<not> oc_published (replace_artifacts k names s)"
proof -
  obtain s1 moved ok1 where r: "retire k names [] s = (s1, moved, ok1)" by (cases "retire k names [] s") auto
  obtain s2 installed ok2 where i: "(if ok1 then install k names [] s1 else (s1, [], False)) = (s2, installed, ok2)"
    by (metis prod_cases3)
  have "\<not> ok2"
  proof (cases ok1)
    case True
    with i have "install k names [] s1 = (s2, installed, ok2)" by simp
    then show ?thesis by (rule install_blocked [OF assms])
  qed (use i in simp)
  then show ?thesis
    by (simp add: replace_artifacts_def r i Let_def prod.case roll_back_unpublished)
qed

lemma sample_fails: "\<not> oc_published (replace_step_artifacts sample_kernel sample_site)"
  unfolding replace_step_artifacts_def
  by (rule replace_blocked [of _ "''steps.txt''"]) (simp_all add: sample_kernel_def)

theorem publication_atomic_witness:
  "transaction [''work'', ''steps.txt''] [] sample_site (replace_step_artifacts sample_kernel sample_site)"
  using publication_atomic [OF sample_fresh(1)] by blast

theorem publication_keeps_old_witness:
  "live (oc_site (replace_step_artifacts sample_kernel sample_site)) ''work'' = Some 1 \<or>
   oc_retained (replace_step_artifacts sample_kernel sample_site) \<and>
     old (oc_site (replace_step_artifacts sample_kernel sample_site)) ''work'' = Some 1"
  using publication_keeps_old [OF sample_fresh, of replace_step_artifacts sample_kernel] sample_fails by simp

end
