(* ===== verification/Riff.thy ===== *)
theory Riff
  imports FileSystem
begin

text \<open>
  What the WAV readers and writers share (\<^verbatim>\<open>src/io/audio_io.cpp\<close>, \<^verbatim>\<open>src/io/bounded_audio_io.cpp\<close>):
  little-endian fields, checked 64-bit sums and products, the format chunk and its validation, and
  the arithmetic of samples.

  A file is read through a function from an offset and a length to the bytes there, \<^const>\<open>None\<close>
  when they cannot be had; \<open>file_reader\<close> is that of a file whose content does not change.  Sizes
  and offsets (\<^verbatim>\<open>std::uint64_t\<close>) are natural numbers whose sums are checked as the code does.

  A \<^verbatim>\<open>float\<close> is its 32-bit pattern.  The arithmetic of the processor on \<^verbatim>\<open>float\<close> and \<^verbatim>\<open>double\<close> is a
  parameter, \<open>float_unit\<close>: conversions, the sum, the quotient by the number of channels, and the
  scaling to 16 bits.
\<close>

section \<open>Fields\<close>

definition read_u16_le :: "bytes \<Rightarrow> u16" where
  "read_u16_le d = of_char (d ! 0) OR push_bit 8 (of_char (d ! 1))"

definition read_u32_le :: "bytes \<Rightarrow> u32" where
  "read_u32_le d = of_char (d ! 0) OR push_bit 8 (of_char (d ! 1)) OR
     push_bit 16 (of_char (d ! 2)) OR push_bit 24 (of_char (d ! 3))"

definition u16_le :: "u16 \<Rightarrow> bytes" where
  "u16_le v = [byte_of v, byte_of (drop_bit 8 v)]"

definition u32_le :: "u32 \<Rightarrow> bytes" where
  "u32_le v = [byte_of v, byte_of (drop_bit 8 v), byte_of (drop_bit 16 v), byte_of (drop_bit 24 v)]"

definition checked_sum :: "nat \<Rightarrow> nat \<Rightarrow> nat option" where
  "checked_sum a b = (if b > (2 ^ 64 - 1) - a then None else Some (a + b))"

definition checked_product :: "nat \<Rightarrow> nat \<Rightarrow> nat option" where
  "checked_product a b = (if a \<noteq> 0 \<and> b > (2 ^ 64 - 1) div a then None else Some (a * b))"

lemma length_u16_le [simp]: "length (u16_le v) = 2"
  by (simp add: u16_le_def)

lemma length_u32_le [simp]: "length (u32_le v) = 4"
  by (simp add: u32_le_def)

lemma read_u16_le_u16_le [codec]: "read_u16_le (u16_le v @ r) = v"
  unfolding read_u16_le_def u16_le_def by (rule bit_word_eqI) (auto simp: bit_simps)

lemma read_u32_le_u32_le [codec]: "read_u32_le (u32_le v @ r) = v"
proof (rule bit_word_eqI)
  fix n assume n: "n < LENGTH(32)"
  consider "n < 8" | "8 \<le> n" "n < 16" | "16 \<le> n" "n < 24" | "24 \<le> n" by linarith
  then show "bit (read_u32_le (u32_le v @ r)) n \<longleftrightarrow> bit v n"
    using n by cases (auto simp: read_u32_le_def u32_le_def bit_simps)
qed

lemma read_u16_le_u16_le_nil [codec]: "read_u16_le (u16_le v) = v"
  using read_u16_le_u16_le [of v "[]"] by simp

lemma read_u32_le_u32_le_nil [codec]: "read_u32_le (u32_le v) = v"
  using read_u32_le_u32_le [of v "[]"] by simp

lemma checked_sum_eq: "a + b < 2 ^ 64 \<Longrightarrow> checked_sum a b = Some (a + b)"
  by (simp add: checked_sum_def)

lemma checked_sum_SomeD: "checked_sum a b = Some c \<Longrightarrow> c = a + b"
  by (simp add: checked_sum_def split: if_splits)

lemma checked_product_SomeD: "checked_product a b = Some c \<Longrightarrow> c = a * b"
  by (simp add: checked_product_def split: if_splits)

lemma checked_product_eq: "a * b < 2 ^ 64 \<Longrightarrow> checked_product a b = Some (a * b)"
proof -
  assume h: "a * b < 2 ^ 64"
  have "b \<le> (2 ^ 64 - 1) div a" if "a \<noteq> 0"
    using h that by (simp add: less_eq_div_iff_mult_less_eq mult.commute)
  then show ?thesis by (auto simp: checked_product_def)
qed

lemma unat_u16_bound: "unat (v :: u16) \<le> 65535"
  using unsigned_less [where w = v and 'a = nat] by simp

lemma unat_u32_bound: "unat (v :: u32) \<le> 4294967295"
  using unsigned_less [where w = v and 'a = nat] by simp

section \<open>Reading a file\<close>

type_synonym reader = "nat \<Rightarrow> nat \<Rightarrow> bytes option"

definition file_reader :: "bytes \<Rightarrow> reader" where
  "file_reader f off n = (if off + n \<le> length f then Some (take n (drop off f)) else None)"

lemma file_reader_Some: "file_reader f off n = Some b \<Longrightarrow> length b = n \<and> off + n \<le> length f"
  by (auto simp: file_reader_def split: if_splits)

lemma file_reader_at [simp]:
  "off = length xs \<Longrightarrow> n = length ys \<Longrightarrow> file_reader (xs @ ys @ zs) off n = Some ys"
  by (simp add: file_reader_def)

section \<open>The format chunk\<close>

definition k_pcm :: u16 where "k_pcm = 1"
definition k_ieee_float :: u16 where "k_ieee_float = 3"
definition max_channels :: nat where "max_channels = 256"

record wav_format =
  wf_audio_format :: u16
  wf_channels :: u16
  wf_sample_rate :: u32
  wf_byte_rate :: u32
  wf_block_align :: u16
  wf_bits :: u16

definition parse_format :: "bytes \<Rightarrow> wav_format" where
  "parse_format b = \<lparr>wf_audio_format = read_u16_le b, wf_channels = read_u16_le (drop 2 b),
     wf_sample_rate = read_u32_le (drop 4 b), wf_byte_rate = read_u32_le (drop 8 b),
     wf_block_align = read_u16_le (drop 12 b), wf_bits = read_u16_le (drop 14 b)\<rparr>"

definition validate_format :: "wav_format \<Rightarrow> bool" where
  "validate_format f =
     (if wf_audio_format f \<noteq> k_pcm \<and> wf_audio_format f \<noteq> k_ieee_float \<or>
         wf_channels f = 0 \<or> unat (wf_channels f) > max_channels \<or>
         wf_sample_rate f = 0 \<or> unat (wf_sample_rate f) > 2 ^ 31 - 1 then False
      else if wf_audio_format f = k_pcm \<and> wf_bits f \<noteq> 16 \<or>
         wf_audio_format f = k_ieee_float \<and> wf_bits f \<noteq> 32 then False
      else case checked_product (unat (wf_channels f)) (unat (wf_bits f) div 8) of None \<Rightarrow> False
        | Some align \<Rightarrow>
          align \<le> 2 ^ 16 - 1 \<and> unat (wf_block_align f) = align \<and>
          (case checked_product (unat (wf_sample_rate f)) align of None \<Rightarrow> False
           | Some rate \<Rightarrow> rate \<le> 2 ^ 32 - 1 \<and> unat (wf_byte_rate f) = rate))"

lemma validate_formatD:
  assumes "validate_format f"
  shows "unat (wf_block_align f) = unat (wf_channels f) * (unat (wf_bits f) div 8)"
    and "wf_audio_format f = k_pcm \<and> wf_bits f = 16 \<or> wf_audio_format f = k_ieee_float \<and> wf_bits f = 32"
    and "0 < unat (wf_channels f)" and "unat (wf_channels f) \<le> 256"
    and "0 < unat (wf_sample_rate f)" and "unat (wf_sample_rate f) < 2 ^ 31"
    and "unat (wf_byte_rate f) = unat (wf_sample_rate f) * unat (wf_block_align f)"
  using assms
  by (auto simp: validate_format_def max_channels_def unat_gt_0 dest!: checked_product_SomeD
      split: if_splits option.splits)

lemma validate_format_align: "validate_format f \<Longrightarrow> 0 < unat (wf_block_align f)"
  using validate_formatD(1-3) [of f] by auto

section \<open>Samples\<close>

text \<open>\<open>'d\<close> stands for \<^verbatim>\<open>double\<close>; \<open>fu_quantize\<close> is the clamp, the scaling by 32767 and the
  conversion to 16 bits of the writers.\<close>

record 'd float_unit =
  fu_zero :: 'd
  fu_pcm :: "int \<Rightarrow> 'd"
  fu_wide :: "u32 \<Rightarrow> 'd"
  fu_add :: "'d \<Rightarrow> 'd \<Rightarrow> 'd"
  fu_over :: "'d \<Rightarrow> nat \<Rightarrow> 'd"
  fu_narrow :: "'d \<Rightarrow> u32"
  fu_quantize :: "u32 \<Rightarrow> u16"

definition is_finite :: "u32 \<Rightarrow> bool" where
  "is_finite b \<longleftrightarrow> drop_bit 23 b AND 255 \<noteq> 255"

text \<open>The 16-bit two's complement reading of the code.\<close>

definition pcm_value :: "u16 \<Rightarrow> int" where
  "pcm_value b = (if unat b \<ge> 0x8000 then int (unat b) - 0x10000 else int (unat b))"

lemma pcm_value_sint: "pcm_value b = sint b"
proof -
  define n where "n = unat b"
  have n: "n \<le> 65535" and u: "uint b = int n" using unat_u16_bound [of b] by (simp_all add: n_def)
  have "sint b = (int n + 32768) mod 65536 - 32768"
    by (simp add: sint_uint signed_take_bit_eq_take_bit_shift take_bit_eq_mod u del: uint_nat)
  also have "\<dots> = (if n \<ge> 32768 then int n - 65536 else int n)"
  proof (cases "n \<ge> 32768")
    case True
    have e: "int n + 32768 = (int n - 32768) + 1 * 65536" by simp
    have "(int n + 32768) mod 65536 = int n - 32768"
      unfolding e mod_mult_self1 using True n by simp
    with True show ?thesis by simp
  qed (use n in simp)
  finally show ?thesis by (simp add: pcm_value_def n_def)
qed

definition decode_sample :: "'d float_unit \<Rightarrow> u16 \<Rightarrow> bytes \<Rightarrow> 'd option" where
  "decode_sample fu format value =
     (if format = k_pcm then Some (fu_pcm fu (pcm_value (read_u16_le value)))
      else let bits = read_u32_le value in if is_finite bits then Some (fu_wide fu bits) else None)"

text \<open>The channels of a frame, in order; \<^const>\<open>None\<close> when one is not finite.\<close>

fun decode_frame :: "'d float_unit \<Rightarrow> u16 \<Rightarrow> nat \<Rightarrow> nat \<Rightarrow> bytes \<Rightarrow> 'd list option" where
  "decode_frame fu format width 0 b = Some []"
| "decode_frame fu format width (Suc n) b =
     (case decode_sample fu format b of None \<Rightarrow> None
      | Some d \<Rightarrow> map_option ((#) d) (decode_frame fu format width n (drop width b)))"

lemma decode_frame_length: "decode_frame fu fm w n b = Some ds \<Longrightarrow> length ds = n"
  by (induction n arbitrary: b ds) (auto split: option.splits)

end
