(* ===== verification/WavFile.thy ===== *)
theory WavFile
  imports Riff
begin

text \<open>
  WAV files in memory, as \<^verbatim>\<open>src/io/audio_io.cpp\<close> reads and writes them: the chunk walk, the decoding
  of frames to mono or stereo, the writer through a staging file that a rename publishes, and the
  linear resampler.

  The directory of the target is a map from names to contents.  What the kernel decides is the
  parameter \<open>wav_kernel\<close>.  The size tests against \<^verbatim>\<open>max_size()\<close> can never hold and are left out, as
  are failed allocations.
\<close>

section \<open>Reading\<close>

datatype sample_format = Int16 | Float32

text \<open>The \<^verbatim>\<open>has_fmt\<close> and \<^verbatim>\<open>has_data\<close> flags with what they guard.\<close>

record wav_scan =
  sc_format :: "wav_format option"
  sc_data :: "(nat \<times> nat) option"

definition scan_chunk :: "reader \<Rightarrow> bytes \<Rightarrow> nat \<Rightarrow> nat \<Rightarrow> wav_scan \<Rightarrow> wav_scan option" where
  "scan_chunk rd tag sz body w =
     (if tag = ''fmt '' then
        (if sc_format w \<noteq> None \<or> sz < 16 then None
         else case rd body 16 of None \<Rightarrow> None
           | Some b \<Rightarrow>
             let f = parse_format b
             in if \<not> validate_format f then None else Some (w\<lparr>sc_format := Some f\<rparr>))
      else if tag = ''data'' then
        (if sc_data w \<noteq> None then None else Some (w\<lparr>sc_data := Some (body, sz)\<rparr>))
      else Some w)"

text \<open>Where a chunk of \<open>sz\<close> bytes at \<open>body\<close> ends with its padding byte, inside \<open>riff_end\<close>.\<close>

definition chunk_end :: "nat \<Rightarrow> nat \<Rightarrow> nat \<Rightarrow> nat option" where
  "chunk_end riff_end body sz =
     (case checked_sum body sz of None \<Rightarrow> None
      | Some fin \<Rightarrow>
        if fin > riff_end then None
        else if odd sz then
          (case checked_sum fin 1 of None \<Rightarrow> None
           | Some padded \<Rightarrow> if padded > riff_end then None else Some padded)
        else Some fin)"

lemma chunk_end_SomeD: "chunk_end riff_end body sz = Some p \<Longrightarrow> body + sz \<le> p \<and> p \<le> riff_end"
  by (auto simp: chunk_end_def split: option.splits if_splits dest!: checked_sum_SomeD)

function scan_chunks :: "reader \<Rightarrow> nat \<Rightarrow> nat \<Rightarrow> wav_scan \<Rightarrow> (nat \<times> wav_scan) option" where
  "scan_chunks rd riff_end cursor w =
     (if \<not> cursor < riff_end then Some (cursor, w)
      else case checked_sum cursor 8 of None \<Rightarrow> None
      | Some body \<Rightarrow>
        if body > riff_end then None
        else case rd cursor 8 of None \<Rightarrow> None
        | Some header \<Rightarrow>
          (case chunk_end riff_end body (unat (read_u32_le (drop 4 header))) of None \<Rightarrow> None
           | Some padded \<Rightarrow>
             (case scan_chunk rd (take 4 header) (unat (read_u32_le (drop 4 header))) body w of None \<Rightarrow> None
              | Some w' \<Rightarrow> scan_chunks rd riff_end padded w')))"
  by pat_completeness auto
termination
  by (relation "measure (\<lambda>(rd, riff_end, cursor, w). riff_end - cursor)")
     (auto dest!: checked_sum_SomeD chunk_end_SomeD)

declare scan_chunks.simps [simp del]

definition read_header :: "reader \<Rightarrow> nat \<Rightarrow> bool \<Rightarrow> (wav_format \<times> nat \<times> nat) option" where
  "read_header rd file_size stereo =
     (if file_size < 12 then None
      else if stereo \<and> file_size > 256 * 2 ^ 20 then None
      else case rd 0 12 of None \<Rightarrow> None
      | Some riff \<Rightarrow>
        if take 4 riff \<noteq> ''RIFF'' \<or> drop 8 riff \<noteq> ''WAVE'' then None
        else let riff_size = unat (read_u32_le (drop 4 riff)) in
          if riff_size < 4 then None
          else case checked_sum 8 riff_size of None \<Rightarrow> None
          | Some riff_end \<Rightarrow>
            if riff_end > file_size then None
            else case scan_chunks rd riff_end 12 \<lparr>sc_format = None, sc_data = None\<rparr> of None \<Rightarrow> None
            | Some (cursor, w) \<Rightarrow>
              (case sc_format w of None \<Rightarrow> None
               | Some f \<Rightarrow>
                 (case sc_data w of None \<Rightarrow> None
                  | Some (off, n) \<Rightarrow>
                    if cursor \<noteq> riff_end \<or> n mod unat (wf_block_align f) \<noteq> 0 then None
                    else Some (f, off, n))))"

text \<open>What a frame adds to the samples: both channels (a single one twice), or their mean.\<close>

definition frame_samples :: "'d float_unit \<Rightarrow> nat \<Rightarrow> bool \<Rightarrow> 'd list \<Rightarrow> u32 list" where
  "frame_samples fu channels stereo ds =
     (if stereo then (if channels = 1 then map (fu_narrow fu) (ds @ ds) else map (fu_narrow fu) ds)
      else [fu_narrow fu (fu_over fu (foldl (fu_add fu) (fu_zero fu) ds) channels)])"

fun decode_frames :: "'d float_unit \<Rightarrow> wav_format \<Rightarrow> bool \<Rightarrow> nat \<Rightarrow> bytes \<Rightarrow> u32 list option" where
  "decode_frames fu f stereo 0 b = Some []"
| "decode_frames fu f stereo (Suc n) b =
     (case decode_frame fu (wf_audio_format f) (unat (wf_bits f) div 8) (unat (wf_channels f)) b of
        None \<Rightarrow> None
      | Some ds \<Rightarrow>
        map_option ((@) (frame_samples fu (unat (wf_channels f)) stereo ds))
          (decode_frames fu f stereo n (drop (unat (wf_block_align f)) b)))"

definition cleanup_float :: "wav_format \<Rightarrow> bool" where
  "cleanup_float f \<longleftrightarrow> wf_audio_format f = k_ieee_float \<and> wf_channels f = 2 \<and>
     wf_sample_rate f = 44100 \<and> wf_bits f = 32"

definition read_wav ::
    "'d float_unit \<Rightarrow> reader \<Rightarrow> nat \<Rightarrow> bool \<Rightarrow> (u32 list \<times> nat \<times> sample_format) option" where
  "read_wav fu rd file_size stereo =
     (case read_header rd file_size stereo of None \<Rightarrow> None
      | Some (f, off, n) \<Rightarrow>
        let frame_count = n div unat (wf_block_align f) in
        if stereo \<and> \<not> cleanup_float f \<and> file_size > 128 * 2 ^ 20 then None
        else if stereo \<and> (unat (wf_channels f) > 2 \<or> frame_count > unat (wf_sample_rate f) * 600) then None
        else case rd off n of None \<Rightarrow> None
        | Some encoded \<Rightarrow>
          map_option (\<lambda>samples. (samples, unat (wf_sample_rate f),
              if wf_audio_format f = k_pcm then Int16 else Float32))
            (decode_frames fu f stereo frame_count encoded))"

section \<open>Writing\<close>

text \<open>\<^verbatim>\<open>write_bytes\<close>: what reached the file, the answers left, whether all of it did.\<close>

fun write_bytes :: "reply list \<Rightarrow> bytes \<Rightarrow> bytes \<times> reply list \<times> bool" where
  "write_bytes rs [] = ([], rs, True)"
| "write_bytes [] data = (data, [], True)"
| "write_bytes (Interrupted # rs) data = write_bytes rs data"
| "write_bytes (Failed # rs) data = ([], rs, False)"
| "write_bytes (Moved n # rs) data =
     (if n = 0 then ([], rs, False)
      else let (out, rs', ok) = write_bytes rs (drop n data) in (take n data @ out, rs', ok))"

fun write_each :: "reply list \<Rightarrow> bytes list \<Rightarrow> bytes \<times> bool" where
  "write_each rs [] = ([], True)"
| "write_each rs (p # ps) =
     (let (out, rs', ok) = write_bytes rs p
      in if \<not> ok then (out, False) else let (more, ok') = write_each rs' ps in (out @ more, ok'))"

record wav_layout =
  wl_data_bytes :: u32
  wl_riff_size :: u32
  wl_byte_rate :: u32

definition validate_wav_output :: "u32 list \<Rightarrow> int \<Rightarrow> nat \<Rightarrow> bool \<Rightarrow> wav_layout option" where
  "validate_wav_output samples sample_rate channels float32 =
     (if sample_rate \<le> 0 then None
      else if \<not> list_all is_finite samples then None
      else let width = (if float32 then 4 else 2) in
        case checked_product (length samples) width of None \<Rightarrow> None
        | Some data_bytes \<Rightarrow>
          if data_bytes > 2 ^ 32 - 1 then None
          else case checked_sum 36 data_bytes of None \<Rightarrow> None
          | Some riff_size \<Rightarrow>
            if riff_size > 2 ^ 32 - 1 then None
            else let byte_rate = nat sample_rate * width * channels in
              if byte_rate > 2 ^ 32 - 1 then None
              else Some \<lparr>wl_data_bytes = of_nat data_bytes, wl_riff_size = of_nat riff_size,
                wl_byte_rate = of_nat byte_rate\<rparr>)"

definition header_pieces :: "wav_layout \<Rightarrow> int \<Rightarrow> nat \<Rightarrow> bool \<Rightarrow> bytes list" where
  "header_pieces l sample_rate channels float32 =
     [''RIFF'', u32_le (wl_riff_size l), ''WAVEfmt '', u32_le 16,
      u16_le (if float32 then k_ieee_float else k_pcm), u16_le (of_nat channels),
      u32_le (of_int sample_rate), u32_le (wl_byte_rate l),
      u16_le (of_nat (channels * (if float32 then 4 else 2))), u16_le (if float32 then 32 else 16),
      ''data'', u32_le (wl_data_bytes l)]"

definition encode_sample :: "'d float_unit \<Rightarrow> bool \<Rightarrow> u32 \<Rightarrow> bytes" where
  "encode_sample fu float32 b = (if float32 then u32_le b else u16_le (fu_quantize fu b))"

definition write_buffer_bytes :: nat where "write_buffer_bytes = 8192"

text \<open>The buffer is written when it is full, and what is left of it at the end.\<close>

fun body_pieces :: "'d float_unit \<Rightarrow> bool \<Rightarrow> bytes \<Rightarrow> u32 list \<Rightarrow> bytes list" where
  "body_pieces fu float32 encoded [] = [encoded]"
| "body_pieces fu float32 encoded (s # ss) =
     (let b = encoded @ encode_sample fu float32 s
      in if length b = write_buffer_bytes then b # body_pieces fu float32 [] ss
         else body_pieces fu float32 b ss)"

definition write_wav_contents ::
    "reply list \<Rightarrow> 'd float_unit \<Rightarrow> u32 list \<Rightarrow> int \<Rightarrow> wav_layout \<Rightarrow> nat \<Rightarrow> bool \<Rightarrow> bytes \<times> bool" where
  "write_wav_contents rs fu samples sample_rate l channels float32 =
     write_each rs (header_pieces l sample_rate channels float32 @ body_pieces fu float32 [] samples)"

section \<open>The staging file\<close>

text \<open>The open of attempt \<open>n\<close> fails for another reason than an existing file; the later calls fail.
  Interrupted calls are repeated by the code and have no other effect.\<close>

record wav_kernel =
  wk_pid :: nat
  wk_open_fails :: "nat \<Rightarrow> bool"
  wk_writes :: "reply list"
  wk_fsync_fails :: bool
  wk_close_fails :: bool
  wk_rename_fails :: bool
  wk_unlink_fails :: bool

type_synonym directory = "string \<Rightarrow> bytes option"

definition staging_attempts :: nat where "staging_attempts = 128"

definition staging_name :: "nat \<Rightarrow> nat \<Rightarrow> string" where
  "staging_name pid sequence = ''.resonantia-wav-'' @ dec pid @ ''-'' @ dec sequence @ ''.tmp''"

fun staged_file :: "wav_kernel \<Rightarrow> directory \<Rightarrow> nat \<Rightarrow> nat \<Rightarrow> string option" where
  "staged_file k d 0 sequence = None"
| "staged_file k d (Suc attempts) sequence =
     (let n = staging_name (wk_pid k) sequence
      in if d n \<noteq> None then staged_file k d attempts (Suc sequence)
         else if wk_open_fails k sequence then None
         else Some n)"

definition remove_staging :: "wav_kernel \<Rightarrow> string \<Rightarrow> directory \<Rightarrow> directory" where
  "remove_staging k n d = (if wk_unlink_fails k then d else d(n := None))"

definition commit_staged :: "wav_kernel \<Rightarrow> string \<Rightarrow> string \<Rightarrow> directory \<Rightarrow> directory \<times> bool" where
  "commit_staged k n target d =
     (if wk_fsync_fails k \<or> wk_close_fails k \<or> wk_rename_fails k then (remove_staging k n d, False)
      else (d(n := None, target := d n), True))"

definition file_name :: "string \<Rightarrow> string" where
  "file_name path = rev (takeWhile (\<lambda>c. c \<noteq> CHR ''/'') (rev path))"

definition write_wav ::
    "wav_kernel \<Rightarrow> nat \<Rightarrow> 'd float_unit \<Rightarrow> directory \<Rightarrow> string \<Rightarrow> u32 list \<Rightarrow> int \<Rightarrow> nat \<Rightarrow> bool \<Rightarrow>
      directory \<times> bool" where
  "write_wav k sequence fu d path samples sample_rate channels float32 =
     (if path = [] \<or> CHR 0x00 \<in> set path then (d, False)
      else case validate_wav_output samples sample_rate channels float32 of None \<Rightarrow> (d, False)
      | Some l \<Rightarrow>
        if file_name path = [] then (d, False)
        else case staged_file k d staging_attempts sequence of None \<Rightarrow> (d, False)
        | Some n \<Rightarrow>
          let (out, ok) = write_wav_contents (wk_writes k) fu samples sample_rate l channels float32
          in if \<not> ok then (remove_staging k n (d(n \<mapsto> out)), False)
             else commit_staged k n (file_name path) (d(n \<mapsto> out)))"

definition write_audio ::
    "wav_kernel \<Rightarrow> nat \<Rightarrow> 'd float_unit \<Rightarrow> directory \<Rightarrow> string \<Rightarrow> u32 list \<Rightarrow> int \<Rightarrow> string \<Rightarrow>
      directory \<times> bool" where
  "write_audio k sequence fu d path samples sample_rate format =
     (if format = ''wav'' then write_wav k sequence fu d path samples sample_rate 1 False else (d, False))"

definition write_stereo_audio ::
    "wav_kernel \<Rightarrow> nat \<Rightarrow> 'd float_unit \<Rightarrow> directory \<Rightarrow> string \<Rightarrow> u32 list \<Rightarrow> int \<Rightarrow> int \<Rightarrow> bool \<Rightarrow>
      directory \<times> bool" where
  "write_stereo_audio k sequence fu d path samples frames sample_rate float32 =
     (if sample_rate < 8000 \<or> sample_rate > 192000 \<or> frames < 0 \<or> frames > sample_rate * 600 \<or>
         frames > (2 ^ 31 - 1) div 2 then (d, False)
      else write_wav k sequence fu d path (take (nat (frames * 2)) samples) sample_rate 2 float32)"

section \<open>Resampling\<close>

text \<open>\<^verbatim>\<open>lerp a b p q\<close> stands for \<open>a (1 - p / q) + b (p / q)\<close> in \<^verbatim>\<open>long double\<close> arithmetic; the
  quotient \<^verbatim>\<open>i * src / dst\<close> of 31-bit rates and indices has its integer part exact there.\<close>

definition resample_linear ::
    "(u32 \<Rightarrow> u32 \<Rightarrow> nat \<Rightarrow> nat \<Rightarrow> u32) \<Rightarrow> u32 list \<Rightarrow> int \<Rightarrow> int \<Rightarrow> u32 list" where
  "resample_linear lerp input src_sr dst_sr =
     (if input = [] \<or> src_sr \<le> 0 \<or> dst_sr \<le> 0 then []
      else if src_sr = dst_sr then input
      else case checked_product (length input) (nat dst_sr) of None \<Rightarrow> []
      | Some scaled \<Rightarrow>
        let len = scaled div nat src_sr in
        if len = 0 \<or> len > 2 ^ 31 - 1 then []
        else map (\<lambda>i.
            let index0 = (i * nat src_sr) div nat dst_sr;
                index = (if index0 \<ge> length input then length input - 1 else index0)
            in if index + 1 < length input
               then lerp (input ! index) (input ! (index + 1)) (i * nat src_sr mod nat dst_sr) (nat dst_sr)
               else input ! index) [0..<len])"

definition read_audio ::
    "'d float_unit \<Rightarrow> (u32 \<Rightarrow> u32 \<Rightarrow> nat \<Rightarrow> nat \<Rightarrow> u32) \<Rightarrow> reader \<Rightarrow> nat \<Rightarrow> int \<Rightarrow>
      (u32 list \<times> nat \<times> sample_format) option" where
  "read_audio fu lerp rd file_size target_sr =
     (if target_sr \<le> 0 then None
      else case read_wav fu rd file_size False of None \<Rightarrow> None
      | Some (samples, native_sr, source_format) \<Rightarrow>
        if int native_sr = target_sr then Some (samples, native_sr, source_format)
        else let resampled = resample_linear lerp samples (int native_sr) target_sr
          in if samples \<noteq> [] \<and> resampled = [] then None
             else Some (resampled, nat target_sr, source_format))"

text \<open>Every second sample, from the first or the second on.\<close>

definition channel_of :: "nat \<Rightarrow> u32 list \<Rightarrow> u32 list" where
  "channel_of c samples = map (\<lambda>i. samples ! (2 * i + c)) [0..<length samples div 2]"

definition interleave :: "u32 list \<Rightarrow> u32 list \<Rightarrow> u32 list" where
  "interleave left right = concat (map (\<lambda>(l, r). [l, r]) (zip left right))"

definition read_stereo_audio ::
    "'d float_unit \<Rightarrow> (u32 \<Rightarrow> u32 \<Rightarrow> nat \<Rightarrow> nat \<Rightarrow> u32) \<Rightarrow> reader \<Rightarrow> nat \<Rightarrow> int \<Rightarrow>
      (u32 list \<times> nat) option" where
  "read_stereo_audio fu lerp rd file_size target_sr =
     (if target_sr < 8000 \<or> target_sr > 192000 then None
      else case read_wav fu rd file_size True of None \<Rightarrow> None
      | Some (samples, native_sr, _) \<Rightarrow>
        if int native_sr = target_sr \<or> samples = [] then Some (samples, nat target_sr)
        else let left = resample_linear lerp (channel_of 0 samples) (int native_sr) target_sr;
            right = resample_linear lerp (channel_of 1 samples) (int native_sr) target_sr
          in if left = [] \<or> length left \<noteq> length right then None
             else Some (interleave left right, nat target_sr))"

end
