(* ===== verification/WavStream.thy ===== *)
theory WavStream
  imports WavFile
begin

text \<open>
  The bounded audio files of \<^verbatim>\<open>src/io/bounded_audio_io.cpp\<close>: a WAV reader that decodes any window of
  frames of an open file (\<^verbatim>\<open>WavChunkReader\<close>), and a temporary file of raw samples with random reads
  (\<^verbatim>\<open>RawSampleSpoolStorage\<close>).

  The kernel's answers are parameters: \<open>fstat\<close> gives an identity or fails, each read or write is
  cut or refused by a script of replies.  A script that has run out lets every call succeed.
\<close>

section \<open>Identities\<close>

record file_identity =
  fi_device :: nat
  fi_inode :: nat
  fi_size :: int
  fi_mode :: nat
  fi_links :: nat
  fi_mtime :: "int \<times> int"
  fi_ctime :: "int \<times> int"

definition same_object :: "file_identity \<Rightarrow> file_identity \<Rightarrow> bool" where
  "same_object a b \<longleftrightarrow> fi_device a = fi_device b \<and> fi_inode a = fi_inode b"

definition same_identity :: "file_identity \<Rightarrow> file_identity \<Rightarrow> bool" where
  "same_identity a b \<longleftrightarrow> same_object a b \<and> fi_size a = fi_size b \<and> fi_mode a = fi_mode b \<and>
     fi_links a = fi_links b \<and> fi_mtime a = fi_mtime b \<and> fi_ctime a = fi_ctime b"

text \<open>\<^verbatim>\<open>S_ISREG\<close>.\<close>

definition is_regular :: "nat \<Rightarrow> bool" where
  "is_regular mode \<longleftrightarrow> mode AND 0xF000 = 0x8000"

definition capture_identity :: "file_identity option \<Rightarrow> file_identity option" where
  "capture_identity status =
     (case status of None \<Rightarrow> None
      | Some s \<Rightarrow> if fi_size s < 0 \<or> \<not> is_regular (fi_mode s) then None else Some s)"

lemma capture_SomeD: "capture_identity st = Some i \<Longrightarrow> st = Some i \<and> 0 \<le> fi_size i"
  by (auto simp: capture_identity_def split: option.splits if_splits)

lemma same_identity_refl [simp]: "same_identity i i" "same_object i i"
  by (simp_all add: same_identity_def same_object_def)

section \<open>Whole reads and writes\<close>

definition io_chunk_bytes :: nat where "io_chunk_bytes = 1024 * 1024"
definition off_max :: nat where "off_max = 2 ^ 63 - 1"

definition checked_file_range :: "nat \<Rightarrow> nat \<Rightarrow> bool" where
  "checked_file_range off n =
     (case checked_sum off n of None \<Rightarrow> False | Some e \<Rightarrow> off \<le> off_max \<and> e \<le> off_max)"

function pread_loop :: "bytes \<Rightarrow> reply list \<Rightarrow> nat \<Rightarrow> nat \<Rightarrow> bytes option" where
  "pread_loop f rs remaining off =
     (if remaining = 0 then Some []
      else let chunk = min remaining io_chunk_bytes in
        case rs of
          Interrupted # rs' \<Rightarrow> pread_loop f rs' remaining off
        | Failed # rs' \<Rightarrow> None
        | Moved n # rs' \<Rightarrow>
            (let got = take (min n chunk) (drop off f)
             in if got = [] then None
                else map_option ((@) got) (pread_loop f rs' (remaining - length got) (off + length got)))
        | [] \<Rightarrow>
            (let got = take chunk (drop off f)
             in if got = [] then None
                else map_option ((@) got) (pread_loop f [] (remaining - length got) (off + length got))))"
  by pat_completeness auto
termination
  by (relation "measure (\<lambda>(f, rs, remaining, off). length rs + remaining)") auto

declare pread_loop.simps [simp del]

definition pread_exact :: "bytes \<Rightarrow> reply list \<Rightarrow> nat \<Rightarrow> nat \<Rightarrow> bytes option" where
  "pread_exact f rs n off =
     (if n = 0 then Some []
      else if \<not> checked_file_range off n then None
      else pread_loop f rs n off)"

text \<open>\<^verbatim>\<open>pwrite\<close> of \<open>data\<close> at \<open>off\<close>; a gap reads as zeros.\<close>

definition put_at :: "bytes \<Rightarrow> nat \<Rightarrow> bytes \<Rightarrow> bytes" where
  "put_at f off data =
     take off (f @ replicate (off - length f) (CHR 0x00)) @ data @ drop (off + length data) f"

function pwrite_loop :: "bytes \<Rightarrow> reply list \<Rightarrow> bytes \<Rightarrow> nat \<Rightarrow> bytes \<times> bool" where
  "pwrite_loop f rs data off =
     (if data = [] then (f, True)
      else let chunk = min (length data) io_chunk_bytes in
        case rs of
          Interrupted # rs' \<Rightarrow> pwrite_loop f rs' data off
        | Failed # rs' \<Rightarrow> (f, False)
        | Moved n # rs' \<Rightarrow>
            (let put = min n chunk
             in if put = 0 then (f, False)
                else pwrite_loop (put_at f off (take put data)) rs' (drop put data) (off + put))
        | [] \<Rightarrow> pwrite_loop (put_at f off (take chunk data)) [] (drop chunk data) (off + chunk))"
  by pat_completeness auto
termination
  by (relation "measure (\<lambda>(f, rs, data, off). length rs + length data)") (auto simp: io_chunk_bytes_def)

declare pwrite_loop.simps [simp del]

definition pwrite_exact :: "bytes \<Rightarrow> reply list \<Rightarrow> bytes \<Rightarrow> nat \<Rightarrow> bytes \<times> bool" where
  "pwrite_exact f rs data off =
     (if data = [] then (f, True)
      else if \<not> checked_file_range off (length data) then (f, False)
      else pwrite_loop f rs data off)"

section \<open>The chunk reader\<close>

text \<open>What an operation finds behind its descriptor: the content, the answer of each \<^verbatim>\<open>fstat\<close> in
  order, and the replies to the reads at an offset.\<close>

record reader_kernel =
  rk_open_fails :: bool
  rk_file :: bytes
  rk_stat :: "nat \<Rightarrow> file_identity option"
  rk_reads :: "nat \<Rightarrow> reply list"

record chunk_reader =
  cr_identity :: file_identity
  cr_format :: wav_format
  cr_data_offset :: nat
  cr_data_bytes :: nat
  cr_frame_count :: nat

definition kernel_read :: "reader_kernel \<Rightarrow> reader" where
  "kernel_read k off n = pread_exact (rk_file k) (rk_reads k off) n off"

definition format_accepted :: "wav_format \<Rightarrow> bool" where
  "format_accepted f \<longleftrightarrow>
     \<not> (wf_audio_format f \<noteq> k_pcm \<and> wf_audio_format f \<noteq> k_ieee_float \<or>
        wf_channels f = 0 \<or> unat (wf_channels f) > max_channels \<or> wf_sample_rate f = 0 \<or>
        unat (wf_sample_rate f) > 2 ^ 31 - 1 \<or>
        wf_audio_format f = k_pcm \<and> wf_bits f \<noteq> 16 \<or>
        wf_audio_format f = k_ieee_float \<and> wf_bits f \<noteq> 32) \<and>
     (case checked_product (unat (wf_channels f)) (unat (wf_bits f) div 8) of None \<Rightarrow> False
      | Some align \<Rightarrow>
        \<not> align > 2 ^ 16 - 1 \<and> unat (wf_block_align f) = align \<and>
        (case checked_product (unat (wf_sample_rate f)) align of None \<Rightarrow> False
         | Some rate \<Rightarrow> \<not> rate > 2 ^ 32 - 1 \<and> unat (wf_byte_rate f) = rate))"

definition open_chunk :: "reader \<Rightarrow> bytes \<Rightarrow> nat \<Rightarrow> nat \<Rightarrow> wav_scan \<Rightarrow> wav_scan option" where
  "open_chunk rd tag sz body w =
     (if tag = ''fmt '' then
        (if sc_format w \<noteq> None \<or> sz < 16 then None
         else case rd body 16 of None \<Rightarrow> None
           | Some b \<Rightarrow>
             if format_accepted (parse_format b) then Some (w\<lparr>sc_format := Some (parse_format b)\<rparr>) else None)
      else if tag = ''data'' then
        (if sc_data w \<noteq> None then None else Some (w\<lparr>sc_data := Some (body, sz)\<rparr>))
      else Some w)"

function open_chunks :: "reader \<Rightarrow> nat \<Rightarrow> nat \<Rightarrow> wav_scan \<Rightarrow> (nat \<times> wav_scan) option" where
  "open_chunks rd riff_end cursor w =
     (if \<not> cursor < riff_end then Some (cursor, w)
      else case checked_sum cursor 8 of None \<Rightarrow> None
      | Some body \<Rightarrow>
        if body > riff_end then None
        else case rd cursor 8 of None \<Rightarrow> None
        | Some header \<Rightarrow>
          (case chunk_end riff_end body (unat (read_u32_le (drop 4 header))) of None \<Rightarrow> None
           | Some padded \<Rightarrow>
             (case open_chunk rd (take 4 header) (unat (read_u32_le (drop 4 header))) body w of None \<Rightarrow> None
              | Some w' \<Rightarrow> open_chunks rd riff_end padded w')))"
  by pat_completeness auto
termination
  by (relation "measure (\<lambda>(rd, riff_end, cursor, w). riff_end - cursor)")
     (auto dest!: checked_sum_SomeD chunk_end_SomeD)

declare open_chunks.simps [simp del]

definition open_reader :: "reader_kernel \<Rightarrow> string \<Rightarrow> chunk_reader option" where
  "open_reader k path =
     (if path = [] \<or> CHR 0x00 \<in> set path then None
      else if rk_open_fails k then None
      else case capture_identity (rk_stat k 0) of None \<Rightarrow> None
      | Some identity \<Rightarrow>
        if fi_size identity < 12 then None
        else case kernel_read k 0 12 of None \<Rightarrow> None
        | Some riff \<Rightarrow>
          if take 4 riff \<noteq> ''RIFF'' \<or> drop 8 riff \<noteq> ''WAVE'' then None
          else let riff_size = unat (read_u32_le (drop 4 riff)) in
            if riff_size < 4 then None
            else case checked_sum 8 riff_size of None \<Rightarrow> None
            | Some riff_end \<Rightarrow>
              if riff_end > nat (fi_size identity) then None
              else case open_chunks (kernel_read k) riff_end 12 \<lparr>sc_format = None, sc_data = None\<rparr> of
                None \<Rightarrow> None
              | Some (cursor, w) \<Rightarrow>
                (case sc_format w of None \<Rightarrow> None
                 | Some f \<Rightarrow>
                   (case sc_data w of None \<Rightarrow> None
                    | Some (off, n) \<Rightarrow>
                      if cursor \<noteq> riff_end \<or> unat (wf_block_align f) = 0 \<or>
                         n mod unat (wf_block_align f) \<noteq> 0 then None
                      else case capture_identity (rk_stat k 1) of None \<Rightarrow> None
                      | Some after \<Rightarrow>
                        if \<not> same_identity identity after then None
                        else Some \<lparr>cr_identity = identity, cr_format = f, cr_data_offset = off,
                          cr_data_bytes = n, cr_frame_count = n div unat (wf_block_align f)\<rparr>)))"

text \<open>\<^verbatim>\<open>verify_unchanged\<close> with the answer of \<^verbatim>\<open>fstat\<close>; a closed reader is \<^const>\<open>None\<close>.\<close>

definition verify_unchanged :: "file_identity option \<Rightarrow> chunk_reader option \<Rightarrow> chunk_reader option \<times> bool" where
  "verify_unchanged status st =
     (case st of None \<Rightarrow> (None, False)
      | Some r \<Rightarrow>
        (case capture_identity status of None \<Rightarrow> (None, False)
         | Some current \<Rightarrow>
           if same_identity (cr_identity r) current then (Some r, True) else (None, False)))"

definition decode_buffer_bytes :: nat where "decode_buffer_bytes = 64 * 1024"

text \<open>The frames of one read, downmixed; \<^const>\<open>None\<close> when a sample or a mean is not finite.\<close>

fun mix_frames :: "'d float_unit \<Rightarrow> wav_format \<Rightarrow> nat \<Rightarrow> bytes \<Rightarrow> u32 list option" where
  "mix_frames fu f 0 b = Some []"
| "mix_frames fu f (Suc n) b =
     (case decode_frame fu (wf_audio_format f) (unat (wf_bits f) div 8) (unat (wf_channels f)) b of
        None \<Rightarrow> None
      | Some ds \<Rightarrow>
        let mixed = fu_narrow fu (fu_over fu (foldl (fu_add fu) (fu_zero fu) ds) (unat (wf_channels f)))
        in if \<not> is_finite mixed then None
           else map_option ((#) mixed) (mix_frames fu f n (drop (unat (wf_block_align f)) b)))"

datatype window_result = Window "u32 list" | Window_overflow | Window_refused | Window_closed

function window_loop ::
    "reader_kernel \<Rightarrow> 'd float_unit \<Rightarrow> chunk_reader \<Rightarrow> nat \<Rightarrow> nat \<Rightarrow> nat \<Rightarrow> u32 list \<Rightarrow> window_result" where
  "window_loop k fu r first frame_count completed out =
     (if \<not> completed < frame_count then Window out
      else let align = unat (wf_block_align (cr_format r));
          frames = min (frame_count - completed) (max 1 (decode_buffer_bytes div align)) in
        case checked_sum first completed of None \<Rightarrow> Window_overflow
        | Some native \<Rightarrow>
          (case checked_product native align of None \<Rightarrow> Window_overflow
           | Some byte_offset \<Rightarrow>
             (case checked_sum (cr_data_offset r) byte_offset of None \<Rightarrow> Window_overflow
              | Some off \<Rightarrow>
                (case checked_product frames align of None \<Rightarrow> Window_overflow
                 | Some n \<Rightarrow>
                   if n > decode_buffer_bytes then Window_overflow
                   else case kernel_read k off n of None \<Rightarrow> Window_closed
                   | Some encoded \<Rightarrow>
                     (case mix_frames fu (cr_format r) frames encoded of None \<Rightarrow> Window_refused
                      | Some mixed \<Rightarrow>
                        window_loop k fu r first frame_count (completed + frames) (out @ mixed))))))"
  by pat_completeness auto
termination
  by (relation "measure (\<lambda>(k, fu, r, first, frame_count, completed, out). frame_count - completed)")
     (auto simp: Let_def)

declare window_loop.simps [simp del]

definition read_mono_frames ::
    "reader_kernel \<Rightarrow> 'd float_unit \<Rightarrow> chunk_reader option \<Rightarrow> nat \<Rightarrow> nat \<Rightarrow> chunk_reader option \<times> u32 list option" where
  "read_mono_frames k fu st first frame_count =
     (case verify_unchanged (rk_stat k 0) st of
        (Some r, True) \<Rightarrow>
          (case checked_sum first frame_count of None \<Rightarrow> (Some r, None)
           | Some end_frame \<Rightarrow>
             if end_frame > cr_frame_count r then (Some r, None)
             else case (if frame_count = 0 then Window [] else window_loop k fu r first frame_count 0 []) of
               Window out \<Rightarrow>
                 (let (st', ok) = verify_unchanged (rk_stat k 1) (Some r) in (st', if ok then Some out else None))
             | Window_closed \<Rightarrow> (None, None)
             | Window_overflow \<Rightarrow> (Some r, None)
             | Window_refused \<Rightarrow> (fst (verify_unchanged (rk_stat k 1) (Some r)), None))
      | (st', _) \<Rightarrow> (st', None))"

section \<open>The sample spool\<close>

text \<open>The state of an open spool with the content of its file.\<close>

record spool =
  sp_element :: nat
  sp_identity :: file_identity
  sp_count :: nat
  sp_failed :: bool
  sp_file :: bytes

record spool_kernel =
  sk_before :: "file_identity option"
  sk_after :: "file_identity option"
  sk_replies :: "reply list"

text \<open>\<^verbatim>\<open>create_storage\<close> once the file has been created; \<open>status\<close> answers its \<^verbatim>\<open>fstat\<close>.\<close>

definition create_spool :: "nat \<Rightarrow> file_identity option \<Rightarrow> spool option" where
  "create_spool element status =
     (if element \<noteq> 4 \<and> element \<noteq> 8 then None
      else case capture_identity status of None \<Rightarrow> None
      | Some identity \<Rightarrow>
        if fi_size identity \<noteq> 0 then None
        else Some \<lparr>sp_element = element, sp_identity = identity, sp_count = 0, sp_failed = False, sp_file = []\<rparr>)"

definition spool_stale :: "spool \<Rightarrow> file_identity option \<Rightarrow> bool" where
  "spool_stale s status =
     (case capture_identity status of None \<Rightarrow> True | Some before \<Rightarrow> \<not> same_identity (sp_identity s) before)"

definition spool_room :: "spool \<Rightarrow> nat \<Rightarrow> (nat \<times> nat \<times> nat) option" where
  "spool_room s count =
     (case checked_sum (sp_count s) count of None \<Rightarrow> None
      | Some new_count \<Rightarrow>
        (case checked_product count (sp_element s) of None \<Rightarrow> None
         | Some append_bytes \<Rightarrow>
           (case checked_product new_count (sp_element s) of None \<Rightarrow> None
            | Some new_bytes \<Rightarrow> if new_bytes > off_max then None else Some (new_count, append_bytes, new_bytes))))"

text \<open>\<open>data\<close> is the memory of the \<open>count\<close> samples.\<close>

definition append_spool :: "spool_kernel \<Rightarrow> bytes \<Rightarrow> nat \<Rightarrow> spool \<Rightarrow> spool \<times> bool" where
  "append_spool k data count s =
     (if sp_failed s then (s, False)
      else if count = 0 then (s, True)
      else case checked_product (sp_count s) (sp_element s) of None \<Rightarrow> (s\<lparr>sp_failed := True\<rparr>, False)
      | Some expected \<Rightarrow>
        if spool_stale s (sk_before k) \<or> int expected \<noteq> fi_size (sp_identity s) then (s\<lparr>sp_failed := True\<rparr>, False)
        else case spool_room s count of None \<Rightarrow> (s\<lparr>sp_failed := True\<rparr>, False)
        | Some (new_count, append_bytes, new_bytes) \<Rightarrow>
          let (file, ok) = pwrite_exact (sp_file s) (sk_replies k) (take append_bytes data) expected;
              s1 = s\<lparr>sp_file := file\<rparr> in
          if \<not> ok then (s1\<lparr>sp_failed := True\<rparr>, False)
          else case capture_identity (sk_after k) of None \<Rightarrow> (s1\<lparr>sp_failed := True\<rparr>, False)
          | Some after \<Rightarrow>
            if \<not> same_object (sp_identity s) after \<or> fi_size after \<noteq> int new_bytes
            then (s1\<lparr>sp_failed := True\<rparr>, False)
            else (s1\<lparr>sp_identity := after, sp_count := new_count\<rparr>, True))"

definition read_spool :: "spool_kernel \<Rightarrow> nat \<Rightarrow> nat \<Rightarrow> spool \<Rightarrow> spool \<times> bytes option" where
  "read_spool k first count s =
     (if sp_failed s then (s, None)
      else case checked_sum first count of None \<Rightarrow> (s, None)
      | Some end_sample \<Rightarrow>
        if end_sample > sp_count s then (s, None)
        else if spool_stale s (sk_before k) then (s\<lparr>sp_failed := True\<rparr>, None)
        else case checked_product first (sp_element s) of None \<Rightarrow> (s\<lparr>sp_failed := True\<rparr>, None)
        | Some off \<Rightarrow>
          (case checked_product count (sp_element s) of None \<Rightarrow> (s\<lparr>sp_failed := True\<rparr>, None)
           | Some n \<Rightarrow>
             (case pread_exact (sp_file s) (sk_replies k) n off of None \<Rightarrow> (s\<lparr>sp_failed := True\<rparr>, None)
              | Some out \<Rightarrow>
                if spool_stale s (sk_after k) then (s\<lparr>sp_failed := True\<rparr>, None) else (s, Some out))))"

end
