(* ===== verification/WavContract.thy ===== *)
theory WavContract
  imports WavFile
begin

text \<open>
  What the WAV writer and the readers promise together: a written file is read back, the target is
  replaced only by a complete file, and the resampler stays inside its input.
\<close>

section \<open>The image of a file\<close>

definition wav_width :: "bool \<Rightarrow> nat" where
  "wav_width float32 = (if float32 then 4 else 2)"

definition written_format :: "int \<Rightarrow> nat \<Rightarrow> bool \<Rightarrow> wav_layout \<Rightarrow> wav_format" where
  "written_format rate channels float32 l =
     \<lparr>wf_audio_format = (if float32 then k_ieee_float else k_pcm), wf_channels = of_nat channels,
      wf_sample_rate = of_int rate, wf_byte_rate = wl_byte_rate l,
      wf_block_align = of_nat (channels * (if float32 then 4 else 2)), wf_bits = (if float32 then 32 else 16)\<rparr>"

definition format_bytes :: "wav_format \<Rightarrow> bytes" where
  "format_bytes f = u16_le (wf_audio_format f) @ u16_le (wf_channels f) @ u32_le (wf_sample_rate f) @
     u32_le (wf_byte_rate f) @ u16_le (wf_block_align f) @ u16_le (wf_bits f)"

definition wav_image :: "u32 \<Rightarrow> wav_format \<Rightarrow> u32 \<Rightarrow> bytes \<Rightarrow> bytes" where
  "wav_image riff_size f data_bytes body =
     (''RIFF'' @ u32_le riff_size @ ''WAVE'') @ (''fmt '' @ u32_le 16) @ format_bytes f @
     (''data'' @ u32_le data_bytes) @ body"

lemma length_format_bytes [simp]: "length (format_bytes f) = 16"
  by (simp add: format_bytes_def)

lemma length_wav_image [simp]: "length (wav_image r f n body) = 44 + length body"
  by (simp add: wav_image_def)

lemma drop_u16_le [simp]: "drop 2 (u16_le v @ r) = r"
  by (simp add: u16_le_def)

lemma drop_u32_le [simp]: "drop 4 (u32_le v @ r) = r"
  by (simp add: u32_le_def)

lemma parse_format_bytes [codec]: "parse_format (format_bytes f) = f"
proof -
  let ?a = "u16_le (wf_audio_format f)" and ?c = "u16_le (wf_channels f)" and ?s = "u32_le (wf_sample_rate f)"
  let ?b = "u32_le (wf_byte_rate f)" and ?g = "u16_le (wf_block_align f)" and ?w = "u16_le (wf_bits f)"
  have d: "drop 2 (format_bytes f) = ?c @ ?s @ ?b @ ?g @ ?w" by (simp add: format_bytes_def)
  have "drop 4 (format_bytes f) = drop 2 (drop 2 (format_bytes f))" by simp
  also have "\<dots> = ?s @ ?b @ ?g @ ?w" unfolding d by simp
  finally have e: "drop 4 (format_bytes f) = ?s @ ?b @ ?g @ ?w" .
  have "drop 8 (format_bytes f) = drop 4 (drop 4 (format_bytes f))" by simp
  also have "\<dots> = ?b @ ?g @ ?w" unfolding e by simp
  finally have h: "drop 8 (format_bytes f) = ?b @ ?g @ ?w" .
  have "drop 12 (format_bytes f) = drop 4 (drop 8 (format_bytes f))" by simp
  also have "\<dots> = ?g @ ?w" unfolding h by simp
  finally have i: "drop 12 (format_bytes f) = ?g @ ?w" .
  have "drop 14 (format_bytes f) = drop 2 (drop 12 (format_bytes f))" by simp
  also have "\<dots> = ?w" unfolding i by simp
  finally have j: "drop 14 (format_bytes f) = ?w" .
  have "read_u16_le (format_bytes f) = wf_audio_format f" by (simp add: format_bytes_def codec)
  then show ?thesis by (simp add: parse_format_def d e h i j codec)
qed

lemma file_reader_split:
  "f = xs @ ys @ zs \<Longrightarrow> off = length xs \<Longrightarrow> n = length ys \<Longrightarrow> file_reader f off n = Some ys"
  by simp

lemma image_reads:
  fixes r :: u32 and f :: wav_format and n :: u32 and body :: bytes
  defines "img \<equiv> wav_image r f n body"
  shows "file_reader img 0 12 = Some (''RIFF'' @ u32_le r @ ''WAVE'')"
    and "file_reader img 12 8 = Some (''fmt '' @ u32_le 16)"
    and "file_reader img 20 16 = Some (format_bytes f)"
    and "file_reader img 36 8 = Some (''data'' @ u32_le n)"
    and "m = length body \<Longrightarrow> file_reader img 44 m = Some body"
proof -
  let ?h = "''RIFF'' @ u32_le r @ ''WAVE''" and ?t = "''fmt '' @ u32_le 16" and ?d = "''data'' @ u32_le n"
  show "file_reader img 0 12 = Some ?h"
    by (rule file_reader_split [of _ "[]" _ "?t @ format_bytes f @ ?d @ body"]) (simp_all add: img_def wav_image_def)
  show "file_reader img 12 8 = Some ?t"
    by (rule file_reader_split [of _ "?h" _ "format_bytes f @ ?d @ body"]) (simp_all add: img_def wav_image_def)
  show "file_reader img 20 16 = Some (format_bytes f)"
    by (rule file_reader_split [of _ "?h @ ?t" _ "?d @ body"]) (simp_all add: img_def wav_image_def)
  show "file_reader img 36 8 = Some ?d"
    by (rule file_reader_split [of _ "?h @ ?t @ format_bytes f" _ "body"]) (simp_all add: img_def wav_image_def)
  show "m = length body \<Longrightarrow> file_reader img 44 m = Some body"
    by (rule file_reader_split [of _ "?h @ ?t @ format_bytes f @ ?d" _ "[]"]) (simp_all add: img_def wav_image_def)
qed

lemma chunk_end_even: "even n \<Longrightarrow> body + n \<le> e \<Longrightarrow> e < 2 ^ 64 \<Longrightarrow> chunk_end e body n = Some (body + n)"
  by (simp add: chunk_end_def checked_sum_eq)

lemma scan_image:
  assumes n: "unat n = length body" "even (length body)" and v: "validate_format f"
  shows "scan_chunks (file_reader (wav_image r f n body)) (44 + length body) 12
      \<lparr>sc_format = None, sc_data = None\<rparr>
    = Some (44 + length body, \<lparr>sc_format = Some f, sc_data = Some (44, length body)\<rparr>)"
proof -
  let ?rd = "file_reader (wav_image r f n body)" and ?e = "44 + length body"
  have e: "?e < 2 ^ 64" using unat_u32_bound [of n] n(1) by simp
  have c: "chunk_end ?e 20 16 = Some 36" using chunk_end_even [of 16 20 ?e] e by simp
  have one: "scan_chunks ?rd ?e 12 \<lparr>sc_format = None, sc_data = None\<rparr>
      = scan_chunks ?rd ?e 36 \<lparr>sc_format = Some f, sc_data = None\<rparr>"
    by (subst scan_chunks.simps)
       (simp add: checked_sum_eq image_reads codec c scan_chunk_def v)
  have c2: "chunk_end ?e 44 (length body) = Some ?e" using chunk_end_even [of "length body" 44 ?e] e n(2) by simp
  have two: "scan_chunks ?rd ?e 36 \<lparr>sc_format = Some f, sc_data = None\<rparr>
      = scan_chunks ?rd ?e ?e \<lparr>sc_format = Some f, sc_data = Some (44, length body)\<rparr>"
    by (subst scan_chunks.simps)
       (simp add: checked_sum_eq image_reads codec c2 scan_chunk_def n)
  have three: "scan_chunks ?rd ?e ?e w = Some (?e, w)" for w
    by (subst scan_chunks.simps) simp
  show ?thesis by (simp only: one two three)
qed

lemma read_header_image:
  assumes n: "unat n = length body" "even (length body)" and v: "validate_format f"
    and r: "unat r = 36 + length body" and m: "length body mod unat (wf_block_align f) = 0"
    and s: "stereo \<Longrightarrow> 44 + length body \<le> 256 * 2 ^ 20"
  shows "read_header (file_reader (wav_image r f n body)) (44 + length body) stereo
    = Some (f, 44, length body)"
proof -
  have "\<not> (stereo \<and> 44 + length body > 256 * 2 ^ 20)" using s by auto
  moreover have "length body \<le> 4294967259" using unat_u32_bound [of r] r by simp
  ultimately show ?thesis
    by (simp add: read_header_def image_reads codec checked_sum_eq scan_image [OF n v, of r] m r)
qed

section \<open>The writer\<close>

lemma write_bytes_ok: "write_bytes rs data = (out, rs', True) \<Longrightarrow> out = data"
  by (induction rs data arbitrary: out rs' rule: write_bytes.induct) (auto split: if_splits prod.splits)

lemma write_each_ok: "write_each rs ps = (out, True) \<Longrightarrow> out = concat ps"
  by (induction ps arbitrary: rs out) (auto split: if_splits prod.splits dest: write_bytes_ok)

lemma body_pieces_concat:
  "concat (body_pieces fu float32 encoded ss) = encoded @ concat (map (encode_sample fu float32) ss)"
  by (induction fu float32 encoded ss rule: body_pieces.induct) (auto simp: Let_def)

definition body_bytes :: "'d float_unit \<Rightarrow> bool \<Rightarrow> u32 list \<Rightarrow> bytes" where
  "body_bytes fu float32 ss = concat (map (encode_sample fu float32) ss)"

lemma length_encode_sample [simp]: "length (encode_sample fu float32 s) = wav_width float32"
  by (simp add: encode_sample_def wav_width_def)

lemma length_body_bytes [simp]: "length (body_bytes fu float32 ss) = length ss * wav_width float32"
  by (induction ss) (simp_all add: body_bytes_def length_encode_sample)

lemma contents_image:
  assumes "write_wav_contents rs fu ss rate l channels float32 = (out, True)"
  shows "out = wav_image (wl_riff_size l) (written_format rate channels float32 l) (wl_data_bytes l)
    (body_bytes fu float32 ss)"
proof -
  have w: "''WAVEfmt '' = ''WAVE'' @ ''fmt ''" by simp
  have "out = concat (header_pieces l rate channels float32) @ body_bytes fu float32 ss"
    using write_each_ok [OF assms [unfolded write_wav_contents_def]]
    by (simp add: body_pieces_concat body_bytes_def)
  then show ?thesis
    unfolding header_pieces_def wav_image_def format_bytes_def written_format_def w
    by (simp only: concat.simps append_assoc append_Nil append_Nil2 wav_format.simps)
qed

lemma unat_u32_of_nat: "x < 2 ^ 32 \<Longrightarrow> unat (of_nat x :: u32) = x"
  by (simp add: unat_of_nat)

text \<open>What a validated layout says.\<close>

lemma validate_outputD:
  assumes "validate_wav_output ss rate channels float32 = Some l"
  shows "0 < rate" and "list_all is_finite ss"
    and "unat (wl_data_bytes l) = length ss * wav_width float32"
    and "unat (wl_riff_size l) = 36 + length ss * wav_width float32"
    and "unat (wl_byte_rate l) = nat rate * wav_width float32 * channels"
    and "nat rate * wav_width float32 * channels < 2 ^ 32"
proof -
  define d r where "d = length ss * wav_width float32" and "r = nat rate * wav_width float32 * channels"
  have h: "0 < rate \<and> list_all is_finite ss \<and> d < 2 ^ 32 \<and> 36 + d < 2 ^ 32 \<and> r < 2 ^ 32 \<and>
      l = \<lparr>wl_data_bytes = of_nat d, wl_riff_size = of_nat (36 + d), wl_byte_rate = of_nat r\<rparr>"
    using assms
    by (auto simp: validate_wav_output_def d_def r_def wav_width_def Let_def not_less mult.commute
        simp del: of_nat_mult of_nat_add dest!: checked_sum_SomeD checked_product_SomeD
        split: option.splits if_splits)
  then show "0 < rate" and "list_all is_finite ss" and "unat (wl_data_bytes l) = d"
    and "unat (wl_riff_size l) = 36 + d" and "unat (wl_byte_rate l) = r" and "r < 2 ^ 32"
    by (simp_all add: unat_u32_of_nat del: of_nat_add)
qed

lemma written_format_valid:
  assumes l: "validate_wav_output ss rate channels float32 = Some l" and c: "channels \<in> {1, 2}"
  shows "validate_format (written_format rate channels float32 l)"
    and "unat (wf_sample_rate (written_format rate channels float32 l)) = nat rate"
    and "unat (wf_block_align (written_format rate channels float32 l)) = channels * wav_width float32"
    and "unat (wf_channels (written_format rate channels float32 l)) = channels"
proof -
  note D = validate_outputD [OF l]
  have b: "nat rate < 2 ^ 31"
  proof -
    have "2 \<le> wav_width float32 * channels" using c by (auto simp: wav_width_def)
    then have "nat rate * 2 \<le> nat rate * (wav_width float32 * channels)" by (rule mult_le_mono2)
    also have "\<dots> < 2 ^ 32" using D(6) by (simp only: mult.assoc)
    finally show ?thesis by simp
  qed
  have r: "unat (of_int rate :: u32) = nat rate"
  proof -
    have "(of_int rate :: u32) = of_nat (nat rate)" using D(1) by simp
    then show ?thesis using b by (simp only: unat_of_nat) simp
  qed
  then show "unat (wf_sample_rate (written_format rate channels float32 l)) = nat rate"
    by (simp add: written_format_def)
  show a: "unat (wf_block_align (written_format rate channels float32 l)) = channels * wav_width float32"
    and ch: "unat (wf_channels (written_format rate channels float32 l)) = channels"
    using c by (auto simp: written_format_def wav_width_def)
  have z: "(of_int rate :: u32) \<noteq> 0" using r D(1) by (auto simp: unat_eq_0 [symmetric])
  show "validate_format (written_format rate channels float32 l)"
    using c r D b z
    by (auto simp: validate_format_def written_format_def checked_product_eq wav_width_def max_channels_def
        k_pcm_def k_ieee_float_def mult.commute mult.left_commute)
qed

section \<open>Frames\<close>

text \<open>The value a reader finds for a written sample.\<close>

definition stored_value :: "'d float_unit \<Rightarrow> bool \<Rightarrow> u32 \<Rightarrow> 'd" where
  "stored_value fu float32 b = (if float32 then fu_wide fu b else fu_pcm fu (sint (fu_quantize fu b)))"

definition mono_value :: "'d float_unit \<Rightarrow> 'd \<Rightarrow> u32" where
  "mono_value fu d = fu_narrow fu (fu_over fu (fu_add fu (fu_zero fu) d) 1)"

lemma decode_encoded [codec]:
  "is_finite b \<Longrightarrow>
     decode_sample fu (if float32 then k_ieee_float else k_pcm) (encode_sample fu float32 b @ r)
       = Some (stored_value fu float32 b)"
  by (simp add: decode_sample_def encode_sample_def stored_value_def codec pcm_value_sint Let_def
      k_pcm_def k_ieee_float_def)

lemma drop_encoded [simp]: "drop (wav_width float32) (encode_sample fu float32 b @ r) = r"
  by (simp add: length_encode_sample)

lemma body_bytes_Cons [simp]: "body_bytes fu float32 (s # ss) = encode_sample fu float32 s @ body_bytes fu float32 ss"
  by (simp add: body_bytes_def)

lemma written_fields:
  "wf_audio_format (written_format rate channels float32 l) = (if float32 then k_ieee_float else k_pcm)"
  "unat (wf_bits (written_format rate channels float32 l)) div 8 = wav_width float32"
  by (simp_all add: written_format_def wav_width_def)

lemma decode_mono:
  "f = written_format rate 1 float32 l \<Longrightarrow> list_all is_finite ss \<Longrightarrow>
     decode_frames fu f False (length ss) (body_bytes fu float32 ss)
       = Some (map (\<lambda>b. mono_value fu (stored_value fu float32 b)) ss)"
proof (induction ss)
  case (Cons s ss)
  then have "unat (wf_channels f) = Suc 0" "unat (wf_block_align f) = wav_width float32"
    by (simp_all add: written_format_def wav_width_def)
  with Cons show ?case
    by (simp add: written_fields codec frame_samples_def mono_value_def)
qed simp

lemma decode_stereo:
  "f = written_format rate 2 float32 l \<Longrightarrow> list_all is_finite ss \<Longrightarrow> length ss = 2 * n \<Longrightarrow>
     decode_frames fu f True n (body_bytes fu float32 ss)
       = Some (map (\<lambda>b. fu_narrow fu (stored_value fu float32 b)) ss)"
proof (induction n arbitrary: ss)
  case (Suc n)
  then obtain x y zs where ss: "ss = x # y # zs"
    by (cases ss; cases "tl ss") auto
  have "unat (wf_channels f) = 2" "unat (wf_block_align f) = 2 * wav_width float32"
    using Suc.prems(1) by (simp_all add: written_format_def wav_width_def)
  then have c: "unat (wf_channels f) = Suc (Suc 0)" "unat (wf_block_align f) = wav_width float32 + wav_width float32"
    by simp_all
  have "decode_frames fu f True n (body_bytes fu float32 zs)
      = Some (map (\<lambda>b. fu_narrow fu (stored_value fu float32 b)) zs)"
    using Suc.prems by (intro Suc.IH) (auto simp: ss)
  moreover have "wf_audio_format f = (if float32 then k_ieee_float else k_pcm)" "unat (wf_bits f) div 8 = wav_width float32"
    using Suc.prems(1) by (simp_all add: written_fields)
  moreover have "is_finite x" "is_finite y" using Suc.prems(2) by (simp_all add: ss)
  ultimately show ?case
    by (simp add: ss c codec frame_samples_def del: if_split)
qed simp

section \<open>Published files\<close>

lemma staged_fileD: "staged_file k d a sq = Some n \<Longrightarrow> d n = None"
  by (induction k d a sq rule: staged_file.induct) (auto simp: Let_def split: if_splits)

lemma write_wav_cases:
  assumes "write_wav k sq fu d path ss rate channels float32 = (d', ok)"
  obtains (ok) l where "ok" "validate_wav_output ss rate channels float32 = Some l"
      "d' = d(file_name path \<mapsto> wav_image (wl_riff_size l) (written_format rate channels float32 l)
         (wl_data_bytes l) (body_bytes fu float32 ss))"
    | (failed) "\<not> ok" "d' = d"
    | (left) n x where "\<not> ok" "wk_unlink_fails k" "d n = None" "d' = d(n \<mapsto> x)"
proof (cases "path = [] \<or> CHR 0x00 \<in> set path \<or> validate_wav_output ss rate channels float32 = None \<or>
    file_name path = [] \<or> staged_file k d staging_attempts sq = None")
  case True
  with assms show ?thesis by (intro failed) (auto simp: write_wav_def split: option.splits if_splits)
next
  case False
  then obtain l n where l: "validate_wav_output ss rate channels float32 = Some l"
    and n: "staged_file k d staging_attempts sq = Some n" by auto
  obtain out b where w: "write_wav_contents (wk_writes k) fu ss rate l channels float32 = (out, b)"
    by (cases "write_wav_contents (wk_writes k) fu ss rate l channels float32")
  have fresh: "d n = None" by (rule staged_fileD [OF n])
  then have same: "d(n := None) = d" by auto
  let ?r = "if \<not> b then (remove_staging k n (d(n \<mapsto> out)), False)
      else commit_staged k n (file_name path) (d(n \<mapsto> out))"
  have r: "(d', ok) = ?r" using assms False l n w by (auto simp: write_wav_def)
  consider "ok" | "\<not> ok" "wk_unlink_fails k" | "\<not> ok" "\<not> wk_unlink_fails k" by blast
  then show ?thesis
  proof cases
    case 1
    with r have b and d': "d' = d(file_name path \<mapsto> out)"
      by (auto simp: commit_staged_def same split: if_splits)
    with contents_image [of "wk_writes k" fu ss rate l channels float32 out] w 1 l show ?thesis
      by (intro ok) auto
  next
    case 2
    with r have "d' = d(n \<mapsto> out)" by (auto simp: commit_staged_def remove_staging_def split: if_splits)
    with 2 fresh show ?thesis by (intro left)
  next
    case 3
    with r have "d' = d" by (auto simp: commit_staged_def remove_staging_def same split: if_splits)
    with 3 show ?thesis by (intro failed)
  qed
qed

lemma read_wav_written:
  assumes l: "validate_wav_output ss rate channels float32 = Some l" and c: "channels \<in> {1, 2}"
    and m: "length ss mod channels = 0" and s: "stereo \<Longrightarrow> 44 + length ss * wav_width float32 \<le> 256 * 2 ^ 20"
  shows "read_header (file_reader (wav_image (wl_riff_size l) (written_format rate channels float32 l)
      (wl_data_bytes l) (body_bytes fu float32 ss))) (44 + length ss * wav_width float32) stereo
    = Some (written_format rate channels float32 l, 44, length ss * wav_width float32)"
proof -
  note D = validate_outputD [OF l] and V = written_format_valid [OF l c]
  have e: "even (length ss * wav_width float32)" by (simp add: wav_width_def)
  have "length ss * wav_width float32 mod (channels * wav_width float32) = 0"
    using m by (simp add: mod_mult_mult2)
  with read_header_image [of "wl_data_bytes l" "body_bytes fu float32 ss", OF _ _ V(1), of "wl_riff_size l" stereo]
    D e s V(3) show ?thesis by simp
qed

text \<open>What every header that is accepted says.\<close>

definition scan_ok :: "nat \<Rightarrow> wav_scan \<Rightarrow> bool" where
  "scan_ok e w \<longleftrightarrow> (\<forall>f. sc_format w = Some f \<longrightarrow> validate_format f) \<and>
     (\<forall>off n. sc_data w = Some (off, n) \<longrightarrow> n < 2 ^ 32 \<and> off + n \<le> e)"

lemma scan_chunk_ok:
  "scan_chunk rd tag sz body w = Some w' \<Longrightarrow> scan_ok e w \<Longrightarrow> sz < 2 ^ 32 \<Longrightarrow> body + sz \<le> e \<Longrightarrow> scan_ok e w'"
  by (auto simp: scan_chunk_def scan_ok_def Let_def split: if_splits option.splits)

lemma scan_chunks_ok: "scan_chunks rd e cursor w = Some (c, w') \<Longrightarrow> scan_ok e w \<Longrightarrow> scan_ok e w'"
proof (induction rd e cursor w rule: scan_chunks.induct)
  case (1 rd e cursor w)
  show ?case
  proof (cases "cursor < e")
    case False
    with "1.prems" show ?thesis by (subst (asm) scan_chunks.simps) simp
  next
    case True
    with "1.prems"(1) obtain body h p w2 where b: "checked_sum cursor 8 = Some body" "\<not> body > e" "rd cursor 8 = Some h"
      and p: "chunk_end e body (unat (read_u32_le (drop 4 h))) = Some p"
      and w2: "scan_chunk rd (take 4 h) (unat (read_u32_le (drop 4 h))) body w = Some w2"
      and r: "scan_chunks rd e p w2 = Some (c, w')"
      by (subst (asm) scan_chunks.simps) (auto split: option.splits if_splits)
    have "scan_ok e w2"
    proof (rule scan_chunk_ok [OF w2 "1.prems"(2)])
      show "unat (read_u32_le (drop 4 h)) < 2 ^ 32" using unat_u32_bound [of "read_u32_le (drop 4 h)"] by simp
      show "body + unat (read_u32_le (drop 4 h)) \<le> e" using chunk_end_SomeD [OF p] by simp
    qed
    with "1.IH" [OF _ b(1,2,3) p w2 r] True show ?thesis by blast
  qed
qed

lemma read_header_ok:
  assumes "read_header rd sz stereo = Some (f, off, n)"
  shows "validate_format f" and "n < 2 ^ 32" and "off + n \<le> sz" and "n mod unat (wf_block_align f) = 0"
proof -
  obtain e c w where s: "scan_chunks rd e 12 \<lparr>sc_format = None, sc_data = None\<rparr> = Some (c, w)"
    and w: "sc_format w = Some f" "sc_data w = Some (off, n)" and e: "e \<le> sz"
    and m: "n mod unat (wf_block_align f) = 0"
    using assms by (auto simp: read_header_def Let_def split: if_splits option.splits)
  have "scan_ok e w" by (rule scan_chunks_ok [OF s]) (simp add: scan_ok_def)
  with w e show "validate_format f" and "n < 2 ^ 32" and "off + n \<le> sz" by (auto simp: scan_ok_def)
  show "n mod unat (wf_block_align f) = 0" by (rule m)
qed

lemma decode_frames_length:
  "decode_frames fu f stereo n b = Some ss \<Longrightarrow> unat (wf_channels f) \<le> 2 \<or> \<not> stereo \<Longrightarrow> 0 < unat (wf_channels f) \<Longrightarrow>
     length ss = n * (if stereo then 2 else 1)"
  by (induction n arbitrary: b ss)
     (auto simp: frame_samples_def split: option.splits if_splits dest!: decode_frame_length)

lemma read_wav_step:
  assumes "read_header rd sz stereo = Some (f, off, n)" and "rd off n = Some enc"
    and "decode_frames fu f stereo (n div unat (wf_block_align f)) enc = Some ss"
    and "stereo \<Longrightarrow> cleanup_float f \<and> unat (wf_channels f) \<le> 2 \<and>
      n div unat (wf_block_align f) \<le> unat (wf_sample_rate f) * 600"
  shows "read_wav fu rd sz stereo
    = Some (ss, unat (wf_sample_rate f), if wf_audio_format f = k_pcm then Int16 else Float32)"
  using assms by (auto simp: read_wav_def Let_def)

lemma read_wav_parts:
  assumes "read_wav fu rd sz stereo = Some (ss, rate, format)"
  obtains f off n enc where "read_header rd sz stereo = Some (f, off, n)" and "rd off n = Some enc"
    and "decode_frames fu f stereo (n div unat (wf_block_align f)) enc = Some ss"
    and "rate = unat (wf_sample_rate f)"
    and "stereo \<Longrightarrow> unat (wf_channels f) \<le> 2 \<and> n div unat (wf_block_align f) \<le> unat (wf_sample_rate f) * 600"
  using assms by (auto simp: read_wav_def Let_def split: option.splits if_splits)

lemma read_mono_written:
  assumes l: "validate_wav_output ss rate 1 False = Some l"
    and f: "f = wav_image (wl_riff_size l) (written_format rate 1 False l) (wl_data_bytes l) (body_bytes fu False ss)"
  shows "read_wav fu (file_reader f) (length f) False
    = Some (map (\<lambda>b. mono_value fu (stored_value fu False b)) ss, nat rate, Int16)"
proof -
  let ?F = "written_format rate 1 False l"
  let ?f = "wav_image (wl_riff_size l) ?F (wl_data_bytes l) (body_bytes fu False ss)"
  note D = validate_outputD [OF l] and V = written_format_valid [OF l, simplified]
  have len: "length ?f = 44 + length ss * wav_width False" by simp
  have w2: "wav_width False = 2" by (simp add: wav_width_def)
  have h: "read_header (file_reader ?f) (length ?f) False = Some (?F, 44, length ss * wav_width False)"
    unfolding len by (rule read_wav_written [OF l]) simp_all
  have b: "file_reader ?f 44 (length ss * wav_width False) = Some (body_bytes fu False ss)"
    by (rule image_reads(5)) simp
  have a: "wf_audio_format ?F = k_pcm" by (simp add: written_format_def)
  have "unat (wf_block_align ?F) = 2" using V(3) by (simp add: w2)
  then have n: "length ss * wav_width False div unat (wf_block_align ?F) = length ss" by (simp add: w2)
  from read_wav_step [OF h b, unfolded n, OF decode_mono [OF refl D(2)]]
  show "read_wav fu (file_reader f) (length f) False
      = Some (map (\<lambda>b. mono_value fu (stored_value fu False b)) ss, nat rate, Int16)"
    using V(2) a unfolding f by (simp del: length_wav_image)
qed

section \<open>Properties\<close>

text \<open>C17: What \<^verbatim>\<open>write_audio\<close> reports as written is read back by \<^verbatim>\<open>read_audio\<close> at its own rate: as
  many samples as were written, each the 16-bit value the writer stored for it, read as a signed number.\<close>

theorem wav_roundtrip:
  assumes "write_audio k sq fu d path ss rate ''wav'' = (d', True)"
  shows "\<exists>f. d' (file_name path) = Some f \<and> read_audio fu lerp (file_reader f) (length f) rate
    = Some (map (\<lambda>b. mono_value fu (fu_pcm fu (sint (fu_quantize fu b)))) ss, nat rate, Int16)"
proof -
  have w: "write_wav k sq fu d path ss rate 1 False = (d', True)" using assms by (simp add: write_audio_def)
  then obtain l where l: "validate_wav_output ss rate 1 False = Some l"
    and d': "d' = d(file_name path \<mapsto> wav_image (wl_riff_size l) (written_format rate 1 False l)
        (wl_data_bytes l) (body_bytes fu False ss))"
    by (cases rule: write_wav_cases) auto
  let ?F = "written_format rate 1 False l"
  let ?f = "wav_image (wl_riff_size l) ?F (wl_data_bytes l) (body_bytes fu False ss)"
  note D = validate_outputD [OF l] and R = read_mono_written [OF l refl, of fu]
  from R have "read_audio fu lerp (file_reader ?f) (length ?f) rate
      = Some (map (\<lambda>b. mono_value fu (fu_pcm fu (sint (fu_quantize fu b)))) ss, nat rate, Int16)"
    using D(1) by (simp add: read_audio_def stored_value_def)
  with d' show ?thesis by auto
qed

text \<open>The stereo intermediates of the cleanup stages are exact: float samples written at 44.1 kHz are
  read back bit for bit, up to the ten minutes the writer accepts.\<close>

lemma stereo_intermediate_exact:
  assumes "write_stereo_audio k sq fu d path ss frames 44100 True = (d', True)" and "int (length ss) = 2 * frames"
    and exact: "\<forall>b. is_finite b \<longrightarrow> fu_narrow fu (fu_wide fu b) = b"
  shows "\<exists>f. d' (file_name path) = Some f \<and>
    read_stereo_audio fu lerp (file_reader f) (length f) 44100 = Some (ss, 44100)"
proof -
  have fr: "0 \<le> frames" "frames \<le> 44100 * 600" using assms(1) by (auto simp: write_stereo_audio_def split: if_splits)
  have ss: "length ss = 2 * nat frames" using assms(2) fr by simp
  have w: "write_wav k sq fu d path ss 44100 2 True = (d', True)"
    using assms(1) fr ss by (auto simp: write_stereo_audio_def mult.commute nat_mult_distrib split: if_splits)
  then obtain l where l: "validate_wav_output ss 44100 2 True = Some l"
    and d': "d' = d(file_name path \<mapsto> wav_image (wl_riff_size l) (written_format 44100 2 True l)
        (wl_data_bytes l) (body_bytes fu True ss))"
    by (cases rule: write_wav_cases) auto
  let ?F = "written_format 44100 2 True l"
  let ?f = "wav_image (wl_riff_size l) ?F (wl_data_bytes l) (body_bytes fu True ss)"
  note D = validate_outputD [OF l] and V = written_format_valid [OF l, simplified]
  have len: "length ?f = 44 + length ss * wav_width True" by simp
  have w4: "wav_width True = 4" by (simp add: wav_width_def)
  have small: "nat frames \<le> 26460000" using fr by simp
  have h: "read_header (file_reader ?f) (length ?f) True = Some (?F, 44, length ss * wav_width True)"
    unfolding len by (rule read_wav_written [OF l]) (use ss small in \<open>simp_all add: w4\<close>)
  have b: "file_reader ?f 44 (length ss * wav_width True) = Some (body_bytes fu True ss)"
    by (rule image_reads(5)) simp
  have c: "cleanup_float ?F" by (simp add: cleanup_float_def written_format_def)
  have a: "wf_audio_format ?F \<noteq> k_pcm" by (simp add: written_format_def k_pcm_def k_ieee_float_def)
  have "unat (wf_block_align ?F) = 8" using V(3) by (simp add: w4)
  then have n: "length ss * wav_width True div unat (wf_block_align ?F) = nat frames" by (simp add: ss w4)
  have same: "map (\<lambda>b. fu_narrow fu (stored_value fu True b)) ss = ss"
    using D(2) exact by (intro map_idI) (simp add: stored_value_def list_all_iff)
  from read_wav_step [OF h b, unfolded n, OF decode_stereo [OF refl D(2) ss]]
  have "read_wav fu (file_reader ?f) (length ?f) True = Some (ss, 44100, Float32)"
    using V(2,4) c small by (simp add: a same del: length_wav_image)
  with d' show ?thesis by (auto simp: read_stereo_audio_def)
qed

text \<open>C18: A write either replaces exactly the target by a complete file of the announced size, or leaves
  every file as it was; a staging file under a new name is left only when it cannot be removed.\<close>

theorem wav_write_atomic:
  assumes "write_wav k sq fu d path ss rate channels float32 = (d', ok)"
  shows "if ok
    then \<exists>f. d' = d(file_name path \<mapsto> f) \<and> length f = 44 + length ss * (if float32 then 4 else 2)
    else d' = d \<or> wk_unlink_fails k \<and> (\<exists>n x. d n = None \<and> d' = d(n \<mapsto> x))"
  using assms by (cases rule: write_wav_cases) (auto simp: wav_width_def)

text \<open>The number of samples a reader returns always fits the \<^verbatim>\<open>int\<close> the resampler takes, and stereo
  input never exceeds ten minutes.\<close>

lemma wav_samples_bounded:
  assumes "read_wav fu rd sz stereo = Some (ss, rate, format)"
  shows "length ss \<le> (if stereo then min (2 * 600 * rate) (2 ^ 28) else 2 ^ 31 - 1) \<and> 0 < rate \<and> rate < 2 ^ 31"
proof -
  from assms obtain f off n enc where h: "read_header rd sz stereo = Some (f, off, n)"
    and d: "decode_frames fu f stereo (n div unat (wf_block_align f)) enc = Some ss"
    and r: "rate = unat (wf_sample_rate f)"
    and s: "stereo \<Longrightarrow> unat (wf_channels f) \<le> 2 \<and> n div unat (wf_block_align f) \<le> unat (wf_sample_rate f) * 600"
    by (rule read_wav_parts) blast
  note H = read_header_ok [OF h] and V = validate_formatD [OF read_header_ok(1) [OF h]]
  have al: "2 \<le> unat (wf_block_align f)" using V(1-3) by auto
  have "n div unat (wf_block_align f) * 2 \<le> n div unat (wf_block_align f) * unat (wf_block_align f)"
    using al by (rule mult_le_mono2)
  then have n: "n div unat (wf_block_align f) * 2 \<le> n" using H(4) by (metis div_times_less_eq_dividend le_trans)
  have len: "length ss = n div unat (wf_block_align f) * (if stereo then 2 else 1)"
    using decode_frames_length [OF d _ V(3)] s by blast
  have "stereo \<Longrightarrow> sz \<le> 2 ^ 28" using h by (auto simp: read_header_def split: if_splits)
  then show ?thesis using n len s H(2,3) V(5,6) r by auto
qed

section \<open>Examples\<close>

text \<open>A processor whose wide format is the bit pattern itself.\<close>

definition bits_unit :: "u32 float_unit" where
  "bits_unit = \<lparr>fu_zero = 0, fu_pcm = of_int, fu_wide = (\<lambda>b. b), fu_add = (+), fu_over = (\<lambda>d n. d),
     fu_narrow = (\<lambda>b. b), fu_quantize = (\<lambda>b. of_nat (unat b))\<rparr>"

definition calm_wav :: wav_kernel where
  "calm_wav = \<lparr>wk_pid = 1, wk_open_fails = (\<lambda>_. False), wk_writes = [Interrupted], wk_fsync_fails = False,
     wk_close_fails = False, wk_rename_fails = False, wk_unlink_fails = False\<rparr>"

lemma write_each_calm: "snd (write_each [] ps)"
proof (induction ps)
  case (Cons p ps)
  then show ?case by (cases p) (auto split: prod.splits)
qed simp

lemma write_wav_calm:
  assumes "validate_wav_output ss rate channels float32 = Some l" and "path \<noteq> []" and "CHR 0x00 \<notin> set path"
    and "file_name path \<noteq> []"
  shows "\<exists>d'. write_wav calm_wav 0 fu (\<lambda>_. None) path ss rate channels float32 = (d', True)"
proof -
  have st: "staging_attempts = Suc 127" by (simp add: staging_attempts_def)
  have n: "staged_file calm_wav (\<lambda>_. None) staging_attempts 0 = Some (staging_name 1 0)"
    unfolding st staged_file.simps by (simp add: calm_wav_def)
  have "snd (write_wav_contents [Interrupted] fu ss rate l channels float32)"
  proof -
    obtain p ps where "header_pieces l rate channels float32 @ body_pieces fu float32 [] ss = p # ps" "p \<noteq> []"
      by (simp add: header_pieces_def)
    then show ?thesis using write_each_calm [of ps] by (cases p) (auto simp: write_wav_contents_def split: prod.splits)
  qed
  with n assms show ?thesis
    by (auto simp: write_wav_def commit_staged_def calm_wav_def split: prod.splits)
qed

lemma sample_layout: "\<exists>l. validate_wav_output [1, 2] 8000 1 False = Some l"
  "\<exists>l. validate_wav_output [1, 2] 44100 2 True = Some l"
  by (simp_all add: validate_wav_output_def is_finite_def checked_sum_eq checked_product_eq)

lemma sample_name: "file_name ''a'' = ''a''"
  by (simp add: file_name_def)

theorem wav_roundtrip_witness:
  "\<exists>f. fst (write_audio calm_wav 0 bits_unit (\<lambda>_. None) ''a'' [1, 2] 8000 ''wav'') ''a'' = Some f \<and>
     read_audio bits_unit (\<lambda>a b p q. a) (file_reader f) (length f) 8000 = Some ([1, 2], 8000, Int16)"
proof -
  obtain d' where w: "write_audio calm_wav 0 bits_unit (\<lambda>_. None) ''a'' [1, 2] 8000 ''wav'' = (d', True)"
    using sample_layout(1) write_wav_calm [of "[1, 2]" 8000 1 False _ "''a''" bits_unit]
    by (auto simp: write_audio_def sample_name)
  have v: "map (\<lambda>b. mono_value bits_unit (fu_pcm bits_unit (sint (fu_quantize bits_unit b)))) [1, 2] = [1, 2]"
    by (simp add: bits_unit_def mono_value_def)
  from wav_roundtrip [OF w, of "\<lambda>a b p q. a"] show ?thesis
    by (simp only: v w sample_name fst_conv nat_numeral)
qed

theorem stereo_intermediate_exact_witness:
  "\<exists>f. fst (write_stereo_audio calm_wav 0 bits_unit (\<lambda>_. None) ''a'' [1, 2] 1 44100 True) ''a'' = Some f \<and>
     read_stereo_audio bits_unit (\<lambda>a b p q. a) (file_reader f) (length f) 44100 = Some ([1, 2], 44100)"
proof -
  obtain d' where w: "write_stereo_audio calm_wav 0 bits_unit (\<lambda>_. None) ''a'' [1, 2] 1 44100 True = (d', True)"
    using sample_layout(2) write_wav_calm [of "[1, 2]" 44100 2 True _ "''a''" bits_unit]
    by (auto simp: write_stereo_audio_def sample_name)
  have e: "int (length [1, 2 :: u32]) = 2 * 1" "\<forall>b. is_finite b \<longrightarrow> fu_narrow bits_unit (fu_wide bits_unit b) = b"
    by (simp_all add: bits_unit_def)
  from stereo_intermediate_exact [OF w e, of "\<lambda>a b p q. a"] show ?thesis
    by (simp only: w sample_name fst_conv)
qed

theorem wav_write_atomic_witness:
  "\<exists>f. fst (write_wav calm_wav 0 bits_unit (\<lambda>_. None) ''a'' [1, 2] 8000 1 False) = (\<lambda>_. None)(''a'' \<mapsto> f) \<and> length f = 48"
proof -
  obtain d' where w: "write_wav calm_wav 0 bits_unit (\<lambda>_. None) ''a'' [1, 2] 8000 1 False = (d', True)"
    using sample_layout(1) write_wav_calm [of "[1, 2]" 8000 1 False _ "''a''" bits_unit] by (auto simp: sample_name)
  from wav_write_atomic [OF w] have "\<exists>f. d' = (\<lambda>_. None)(''a'' \<mapsto> f) \<and> length f = 48" by (simp add: sample_name)
  then show ?thesis by (simp only: w fst_conv)
qed

theorem wav_samples_bounded_witness:
  "\<exists>f ss. read_wav bits_unit (file_reader f) (length f) False = Some (ss, 8000, Int16) \<and> length ss \<le> 2 ^ 31 - 1"
proof -
  obtain l where l: "validate_wav_output [1, 2] 8000 1 False = Some l" using sample_layout(1) by blast
  from read_mono_written [OF l refl, of bits_unit]
  obtain f ss where r: "read_wav bits_unit (file_reader f) (length f) False = Some (ss, nat 8000, Int16)" by blast
  from wav_samples_bounded [OF r] r show ?thesis by auto
qed

end
