(* ===== verification/WavStreamContract.thy ===== *)
theory WavStreamContract
  imports WavStream WavContract
begin

text \<open>
  The bounded reader agrees with the reader of whole files, window by window, and the sample spool is
  a list of samples.
\<close>

section \<open>Whole reads\<close>

lemma take_split: "take a xs @ take (n - a) (drop a xs) = take n xs" if "a \<le> n"
  using that by (metis le_add_diff_inverse take_add)

lemma take_got:
  assumes "got = take m (drop off f)" and "m \<le> n"
  shows "got @ take (n - length got) (drop (off + length got) f) = take n (drop off f)"
proof -
  have "got = take (length got) (drop off f)" using assms(1) by (metis take_length_take)
  moreover have "length got \<le> n" using assms by simp
  ultimately show ?thesis
    using take_split [of "length got" n "drop off f"] by (simp add: add.commute)
qed

lemma pread_step:
  assumes b: "map_option ((@) got) (pread_loop f rs (n - length got) (off + length got)) = Some b"
    and IH: "\<And>b'. pread_loop f rs (n - length got) (off + length got) = Some b' \<Longrightarrow>
      b' = take (n - length got) (drop (off + length got) f) \<and>
      (n - length got = 0 \<or> off + length got + (n - length got) \<le> length f)"
    and got: "got = take m (drop off f)" "m \<le> n" "got \<noteq> []"
  shows "b = take n (drop off f) \<and> (n = 0 \<or> off + n \<le> length f)"
proof -
  from b obtain b' where b': "pread_loop f rs (n - length got) (off + length got) = Some b'" "b = got @ b'" by auto
  have "b = take n (drop off f)" using IH [OF b'(1)] b'(2) take_got [OF got(1,2)] by simp
  moreover have "off + n \<le> length f"
  proof (cases "n = length got")
    case True
    have "off < length f" using got(1,3) by auto
    moreover have "length got \<le> length f - off" using got(1) by simp
    ultimately show ?thesis using True by simp
  next
    case False
    moreover have "length got \<le> n" using got(1,2) by simp
    ultimately show ?thesis using IH [OF b'(1)] by simp
  qed
  ultimately show ?thesis by simp
qed

lemma pread_loop_sound:
  "pread_loop f rs n off = Some b \<Longrightarrow> b = take n (drop off f) \<and> (n = 0 \<or> off + n \<le> length f)"
proof (induction f rs n off arbitrary: b rule: pread_loop.induct)
  case (1 f rs n off)
  show ?case
  proof (cases "n = 0")
    case True
    with "1.prems" show ?thesis by (subst (asm) pread_loop.simps) simp
  next
    case n: False
    let ?chunk = "min n io_chunk_bytes"
    show ?thesis
    proof (cases rs)
      case Nil
      let ?got = "take ?chunk (drop off f)"
      from "1.prems" n Nil have got: "?got \<noteq> []"
        and b: "map_option ((@) ?got) (pread_loop f [] (n - length ?got) (off + length ?got)) = Some b"
        by (subst (asm) pread_loop.simps, simp add: Let_def split: if_splits)+
      show ?thesis
        by (rule pread_step [OF b "1.IH"(1) [OF n refl Nil refl got] refl min.cobounded1 got])
    next
      case (Cons r rs')
      show ?thesis
      proof (cases r)
        case (Moved m)
        let ?got = "take (min m ?chunk) (drop off f)"
        from "1.prems" n Cons Moved have got: "?got \<noteq> []"
          and b: "map_option ((@) ?got) (pread_loop f rs' (n - length ?got) (off + length ?got)) = Some b"
          by (subst (asm) pread_loop.simps, simp add: Let_def split: if_splits)+
        show ?thesis
          by (rule pread_step [OF b "1.IH"(2) [OF n refl Cons Moved refl got] refl _ got])
             (assumption | intro min.coboundedI2 min.cobounded1)+
      next
        case Interrupted
        with "1.prems" n Cons have "pread_loop f rs' n off = Some b"
          by (subst (asm) pread_loop.simps) simp
        with "1.IH"(3) [OF n refl Cons Interrupted] show ?thesis by blast
      next
        case Failed
        with "1.prems" n Cons show ?thesis by (subst (asm) pread_loop.simps) simp
      qed
    qed
  qed
qed

lemma pread_loop_calm: "off + n \<le> length f \<Longrightarrow> pread_loop f [] n off = Some (take n (drop off f))"
proof (induction n arbitrary: off rule: less_induct)
  case (less n)
  show ?case
  proof (cases "n = 0")
    case False
    let ?got = "take (min n io_chunk_bytes) (drop off f)"
    have g: "length ?got = min n io_chunk_bytes" "0 < min n io_chunk_bytes"
      using less.prems False by (auto simp: io_chunk_bytes_def)
    then have ne: "?got \<noteq> []" by auto
    have r: "pread_loop f [] (n - length ?got) (off + length ?got)
        = Some (take (n - length ?got) (drop (off + length ?got) f))"
      by (rule less.IH) (use less.prems g False in auto)
    show ?thesis
      by (subst pread_loop.simps)
         (simp only: False Let_def if_False list.case ne r option.map take_got [OF refl min.cobounded1])
  qed (subst pread_loop.simps, simp)
qed

lemma pread_exact_sound:
  "pread_exact f rs n off = Some b \<Longrightarrow> 0 < n \<Longrightarrow> file_reader f off n = Some b"
  by (auto simp: pread_exact_def file_reader_def split: if_splits dest!: pread_loop_sound)

lemma pread_exact_calm:
  "off + n \<le> length f \<Longrightarrow> length f < 2 ^ 63 \<Longrightarrow> pread_exact f [] n off = Some (take n (drop off f))"
  by (simp add: pread_exact_def checked_file_range_def checked_sum_eq off_max_def pread_loop_calm)

section \<open>Readers of one file\<close>

lemma format_accepted_validate: "format_accepted f = validate_format f"
  unfolding format_accepted_def validate_format_def by (simp only: not_less if_bool_eq_conj) (simp split: option.split; blast)

lemma open_chunk_scan: "open_chunk rd tag sz body w = scan_chunk rd tag sz body w"
  by (simp add: open_chunk_def scan_chunk_def Let_def format_accepted_validate split: option.split)

lemma open_chunks_scan: "open_chunks rd e cursor w = scan_chunks rd e cursor w"
proof (induction rd e cursor w rule: scan_chunks.induct)
  case (1 rd e cursor w)
  show ?case
    by (subst open_chunks.simps, subst scan_chunks.simps)
       (simp add: open_chunk_scan 1 split: option.split)
qed

text \<open>A reader that, whenever it answers a nonempty read, gives the bytes another one gives.\<close>

locale weaker_reader =
  fixes rd rd' :: reader
  assumes answers: "rd off n = Some b \<Longrightarrow> 0 < n \<Longrightarrow> rd' off n = Some b"
begin

lemma chunk_agrees: "scan_chunk rd tag sz body w = Some w' \<Longrightarrow> scan_chunk rd' tag sz body w = Some w'"
  using answers [of body 16] by (cases "rd body 16") (auto simp: scan_chunk_def Let_def split: if_splits)

lemma chunks_agree: "scan_chunks rd e cursor w = Some r \<Longrightarrow> scan_chunks rd' e cursor w = Some r"
proof (induction "e - cursor" arbitrary: cursor w rule: less_induct)
  case less
  show ?case
  proof (cases "cursor < e")
    case False
    with less.prems show ?thesis by (subst scan_chunks.simps, subst (asm) scan_chunks.simps) simp
  next
    case True
    with less.prems obtain body h p w2 where b: "checked_sum cursor 8 = Some body" "\<not> body > e"
      and h: "rd cursor 8 = Some h"
      and p: "chunk_end e body (unat (read_u32_le (drop 4 h))) = Some p"
      and w2: "scan_chunk rd (take 4 h) (unat (read_u32_le (drop 4 h))) body w = Some w2"
      and r: "scan_chunks rd e p w2 = Some r"
      by (subst (asm) scan_chunks.simps) (auto split: option.splits if_splits)
    have "cursor < p" using checked_sum_SomeD [OF b(1)] chunk_end_SomeD [OF p] by simp
    then have "scan_chunks rd' e p w2 = Some r" using True by (intro less.hyps [OF _ r]) simp
    then show ?thesis using True b p answers [OF h] chunk_agrees [OF w2] by (subst scan_chunks.simps) simp
  qed
qed

end

interpretation kernel_reader: weaker_reader "kernel_read k" "file_reader (rk_file k)" for k
  by unfold_locales (simp add: kernel_read_def pread_exact_sound)

lemma open_reader_header:
  assumes "open_reader k path = Some r" and "fi_size (cr_identity r) = int (length (rk_file k))"
  shows "read_header (file_reader (rk_file k)) (length (rk_file k)) False
    = Some (cr_format r, cr_data_offset r, cr_data_bytes r)"
    and "cr_frame_count r = cr_data_bytes r div unat (wf_block_align (cr_format r))"
proof -
  from assms(1) obtain riff e cursor w where r: "kernel_read k 0 12 = Some riff" "take 4 riff = ''RIFF''" "drop 8 riff = ''WAVE''"
    "\<not> unat (read_u32_le (drop 4 riff)) < 4" "checked_sum 8 (unat (read_u32_le (drop 4 riff))) = Some e"
    "\<not> e > nat (fi_size (cr_identity r))" "\<not> fi_size (cr_identity r) < 12"
    and s: "open_chunks (kernel_read k) e 12 \<lparr>sc_format = None, sc_data = None\<rparr> = Some (cursor, w)"
    and w: "sc_format w = Some (cr_format r)" "sc_data w = Some (cr_data_offset r, cr_data_bytes r)"
    "cursor = e" "cr_data_bytes r mod unat (wf_block_align (cr_format r)) = 0"
    and c: "cr_frame_count r = cr_data_bytes r div unat (wf_block_align (cr_format r))"
    by (auto simp: open_reader_def Let_def split: option.splits if_splits)
  have "\<not> length (rk_file k) < 12" "\<not> e > length (rk_file k)" using r(6,7) assms(2) by simp_all
  with r(1-5) s w show "read_header (file_reader (rk_file k)) (length (rk_file k)) False
      = Some (cr_format r, cr_data_offset r, cr_data_bytes r)"
    by (simp add: read_header_def kernel_reader.answers kernel_reader.chunks_agree open_chunks_scan)
  show "cr_frame_count r = cr_data_bytes r div unat (wf_block_align (cr_format r))" by (rule c)
qed

section \<open>Windows\<close>

lemma decode_frame_take:
  assumes "fm = k_pcm \<and> w = 2 \<or> fm \<noteq> k_pcm \<and> w = 4"
  shows "n * w \<le> m \<Longrightarrow> decode_frame fu fm w n (take m b) = decode_frame fu fm w n b"
proof (induction n arbitrary: m b)
  case (Suc n)
  then have "decode_sample fu fm (take m b) = decode_sample fu fm b"
    using assms by (auto simp: decode_sample_def read_u16_le_def read_u32_le_def)
  moreover have "decode_frame fu fm w n (drop w (take m b)) = decode_frame fu fm w n (drop w b)"
    using Suc.IH [of "m - w" "drop w b"] Suc.prems by (simp add: drop_take)
  ultimately show ?case by (simp split: option.split)
qed simp

lemma valid_format_width:
  assumes "validate_format f"
  shows "wf_audio_format f = k_pcm \<and> unat (wf_bits f) div 8 = 2 \<or>
      wf_audio_format f \<noteq> k_pcm \<and> unat (wf_bits f) div 8 = 4"
    and "unat (wf_channels f) * (unat (wf_bits f) div 8) = unat (wf_block_align f)"
  using validate_formatD(1,2) [OF assms] by (auto simp: k_pcm_def k_ieee_float_def)

lemma decode_frames_take:
  assumes "validate_format f"
  shows "n * unat (wf_block_align f) \<le> m \<Longrightarrow> decode_frames fu f stereo n (take m b) = decode_frames fu f stereo n b"
proof (induction n arbitrary: m b)
  case (Suc n)
  have "decode_frame fu (wf_audio_format f) (unat (wf_bits f) div 8) (unat (wf_channels f)) (take m b)
      = decode_frame fu (wf_audio_format f) (unat (wf_bits f) div 8) (unat (wf_channels f)) b"
    by (rule decode_frame_take) (use valid_format_width [OF assms] Suc.prems in auto)
  moreover have "decode_frames fu f stereo n (drop (unat (wf_block_align f)) (take m b))
      = decode_frames fu f stereo n (drop (unat (wf_block_align f)) b)"
    using Suc.IH [of "m - unat (wf_block_align f)" "drop (unat (wf_block_align f)) b"] Suc.prems
    by (simp add: drop_take)
  ultimately show ?case by (simp split: option.split)
qed simp

lemma decode_frames_drop:
  "decode_frames fu f False (i + n) b = Some ss \<Longrightarrow>
     decode_frames fu f False n (drop (i * unat (wf_block_align f)) b) = Some (drop i ss)"
proof (induction i arbitrary: b ss)
  case (Suc i)
  then obtain x ss' where x: "ss = x # ss'"
    and d: "decode_frames fu f False (i + n) (drop (unat (wf_block_align f)) b) = Some ss'"
    by (auto simp: frame_samples_def split: option.splits)
  from Suc.IH [OF d] x show ?case by (simp add: add.commute)
qed simp

lemma decode_frames_prefix:
  "decode_frames fu f False (n + i) b = Some ss \<Longrightarrow> decode_frames fu f False n b = Some (take n ss)"
  by (induction n arbitrary: b ss) (auto simp: frame_samples_def split: option.splits)

lemma mix_frames_decode: "mix_frames fu f n b = Some m \<Longrightarrow> decode_frames fu f False n b = Some m"
  by (induction n arbitrary: b m) (auto simp: frame_samples_def Let_def split: option.splits if_splits)

lemma mix_frames_finite:
  "decode_frames fu f False n b = Some m \<Longrightarrow> list_all is_finite m \<Longrightarrow> mix_frames fu f n b = Some m"
  by (induction n arbitrary: b m) (auto simp: frame_samples_def Let_def split: option.splits)

lemma decode_window:
  assumes v: "validate_format f" and d: "decode_frames fu f False tot (take (tot * unat (wf_block_align f)) data) = Some ss"
    and i: "i + n \<le> tot"
  shows "decode_frames fu f False n (take (n * unat (wf_block_align f)) (drop (i * unat (wf_block_align f)) data))
    = Some (take n (drop i ss))"
proof -
  have "decode_frames fu f False (i + (tot - i)) data = Some ss"
    using d [unfolded decode_frames_take [OF v order_refl]] i by simp
  then have "decode_frames fu f False (n + (tot - i - n)) (drop (i * unat (wf_block_align f)) data) = Some (drop i ss)"
    using decode_frames_drop i by fastforce
  then have "decode_frames fu f False n (drop (i * unat (wf_block_align f)) data) = Some (take n (drop i ss))"
    by (rule decode_frames_prefix)
  then show ?thesis by (simp only: decode_frames_take [OF v order_refl])
qed

text \<open>What an open reader knows, with the file it was opened on.\<close>

definition reads_file :: "chunk_reader \<Rightarrow> bytes \<Rightarrow> bool" where
  "reads_file r f \<longleftrightarrow> read_header (file_reader f) (length f) False
      = Some (cr_format r, cr_data_offset r, cr_data_bytes r) \<and>
     cr_frame_count r = cr_data_bytes r div unat (wf_block_align (cr_format r))"

lemma reads_fileD:
  assumes "reads_file r f"
  shows "validate_format (cr_format r)" and "cr_data_offset r + cr_data_bytes r \<le> length f"
    and "cr_data_bytes r = cr_frame_count r * unat (wf_block_align (cr_format r))" and "cr_data_bytes r < 2 ^ 32"
proof -
  from assms have h: "read_header (file_reader f) (length f) False
      = Some (cr_format r, cr_data_offset r, cr_data_bytes r)" by (simp add: reads_file_def)
  note H = read_header_ok [OF h]
  show "validate_format (cr_format r)" "cr_data_offset r + cr_data_bytes r \<le> length f" "cr_data_bytes r < 2 ^ 32"
    using H by simp_all
  from H(4) assms show "cr_data_bytes r = cr_frame_count r * unat (wf_block_align (cr_format r))"
    by (metis reads_file_def mod_0_imp_dvd dvd_div_mult_self)
qed

lemma window_loop_sound:
  assumes rf: "reads_file r (rk_file k)" and n: "first + frame_count \<le> cr_frame_count r"
    and d: "decode_frames fu (cr_format r) False (cr_frame_count r)
      (take (cr_data_bytes r) (drop (cr_data_offset r) (rk_file k))) = Some ss"
  shows "window_loop k fu r first frame_count completed out = Window res \<Longrightarrow> completed \<le> frame_count \<Longrightarrow>
    res = out @ take (frame_count - completed) (drop (first + completed) ss)"
proof (induction "frame_count - completed" arbitrary: completed out rule: less_induct)
  case less
  let ?al = "unat (wf_block_align (cr_format r))"
  note V = reads_fileD [OF rf]
  show ?case
  proof (cases "completed < frame_count")
    case False
    with less.prems show ?thesis by (subst (asm) window_loop.simps) simp
  next
    case True
    define frames where "frames = min (frame_count - completed) (max 1 (decode_buffer_bytes div ?al))"
    from less.prems(1) True obtain native bo off nb enc mixed where
      c: "checked_sum first completed = Some native" "checked_product native ?al = Some bo"
        "checked_sum (cr_data_offset r) bo = Some off" "checked_product frames ?al = Some nb"
      and e: "kernel_read k off nb = Some enc" and m: "mix_frames fu (cr_format r) frames enc = Some mixed"
      and w: "window_loop k fu r first frame_count (completed + frames) (out @ mixed) = Window res"
      by (subst (asm) window_loop.simps) (auto simp: Let_def frames_def split: option.splits if_splits)
    have fr: "0 < frames" "frames \<le> frame_count - completed" using True by (auto simp: frames_def)
    have al: "0 < ?al" by (rule validate_format_align [OF V(1)])
    have eqs: "off = cr_data_offset r + (first + completed) * ?al" "nb = frames * ?al"
      using c by (auto dest!: checked_sum_SomeD checked_product_SomeD)
    have "0 < nb" using fr(1) al eqs(2) by simp
    with kernel_reader.answers [OF e] have enc: "enc = take nb (drop off (rk_file k))"
      by (auto simp: file_reader_def split: if_splits)
    have i: "(first + completed) + frames \<le> cr_frame_count r" using n fr(2) True by simp
    have "decode_frames fu (cr_format r) False frames (take (frames * ?al)
        (drop ((first + completed) * ?al) (drop (cr_data_offset r) (rk_file k)))) = Some (take frames (drop (first + completed) ss))"
      by (rule decode_window [OF V(1) _ i]) (use d V(3) in simp)
    moreover have "drop ((first + completed) * ?al) (drop (cr_data_offset r) (rk_file k)) = drop off (rk_file k)"
      by (simp add: eqs(1) add.commute)
    ultimately have mixed: "mixed = take frames (drop (first + completed) ss)"
      using mix_frames_decode [OF m] enc eqs(2) by simp
    have "res = (out @ mixed) @ take (frame_count - (completed + frames)) (drop (first + (completed + frames)) ss)"
      by (rule less.hyps [OF _ w]) (use True fr in auto)
    then show ?thesis
      using take_split [of frames "frame_count - completed" "drop (first + completed) ss"] fr(2) mixed
      by (simp add: add.assoc add.left_commute add.commute)
  qed
qed

text \<open>Nothing fails and the file stays as it is.\<close>

definition calm_reader :: "chunk_reader \<Rightarrow> bytes \<Rightarrow> reader_kernel" where
  "calm_reader r f = \<lparr>rk_open_fails = False, rk_file = f, rk_stat = (\<lambda>_. Some (cr_identity r)), rk_reads = (\<lambda>_. [])\<rparr>"

lemma kernel_read_calm:
  "off + n \<le> length f \<Longrightarrow> length f < 2 ^ 63 \<Longrightarrow> kernel_read (calm_reader r f) off n = Some (take n (drop off f))"
  by (simp add: kernel_read_def calm_reader_def pread_exact_calm)

text \<open>The short file keeps every offset in range; then an undisturbed kernel answers every read.\<close>

interpretation calm_reads: weaker_reader "file_reader (if length f < 2 ^ 63 then f else [])" "kernel_read (calm_reader r f)"
  for f r
  by unfold_locales (auto simp: file_reader_def kernel_read_calm split: if_splits)

lemma frames_fit_buffer:
  assumes "0 < align" and "align \<le> decode_buffer_bytes"
  shows "min c (max 1 (decode_buffer_bytes div align)) * align \<le> decode_buffer_bytes"
proof -
  have "max 1 (decode_buffer_bytes div align) = decode_buffer_bytes div align"
    using assms div_le_mono [of align decode_buffer_bytes align] by simp
  then have "min c (max 1 (decode_buffer_bytes div align)) * align \<le> decode_buffer_bytes div align * align"
    by (intro mult_le_mono1) simp
  also have "\<dots> \<le> decode_buffer_bytes" by (rule div_times_less_eq_dividend)
  finally show ?thesis .
qed

lemma window_loop_calm:
  assumes rf: "reads_file r f" and n: "first + frame_count \<le> cr_frame_count r" and len: "length f < 2 ^ 63"
    and d: "decode_frames fu (cr_format r) False (cr_frame_count r)
      (take (cr_data_bytes r) (drop (cr_data_offset r) f)) = Some ss"
    and fin: "list_all is_finite ss"
  shows "completed \<le> frame_count \<Longrightarrow> \<exists>res. window_loop (calm_reader r f) fu r first frame_count completed out = Window res"
proof (induction "frame_count - completed" arbitrary: completed out rule: less_induct)
  case less
  let ?al = "unat (wf_block_align (cr_format r))" and ?k = "calm_reader r f"
  note V = reads_fileD [OF rf]
  show ?case
  proof (cases "completed < frame_count")
    case False
    then show ?thesis by (subst window_loop.simps) simp
  next
    case True
    define frames where "frames = min (frame_count - completed) (max 1 (decode_buffer_bytes div ?al))"
    define off where "off = cr_data_offset r + (first + completed) * ?al"
    have al: "0 < ?al" "?al \<le> decode_buffer_bytes"
      using validate_format_align [OF V(1)] unat_u16_bound [of "wf_block_align (cr_format r)"]
      by (simp_all add: decode_buffer_bytes_def)
    have fr: "0 < frames" "frames \<le> frame_count - completed" "frames * ?al \<le> decode_buffer_bytes"
      using True frames_fit_buffer [OF al] by (auto simp: frames_def)
    have i: "first + completed + frames \<le> cr_frame_count r" using n fr(2) True by simp
    then have "(first + completed + frames) * ?al \<le> cr_data_bytes r" unfolding V(3) by (rule mult_le_mono1)
    then have room: "off + frames * ?al \<le> length f" using V(2) by (simp add: off_def add_mult_distrib)
    have c: "checked_sum first completed = Some (first + completed)"
      "checked_product (first + completed) ?al = Some ((first + completed) * ?al)"
      "checked_sum (cr_data_offset r) ((first + completed) * ?al) = Some off"
      "checked_product frames ?al = Some (frames * ?al)"
    proof -
      have le: "first + completed \<le> (first + completed) * ?al" using al(1) by (metis mult_le_mono2 nat_mult_1_right Suc_leI One_nat_def)
      have b: "(first + completed) * ?al < 2 ^ 64" "off < 2 ^ 64" "frames * ?al < 2 ^ 64"
        using room len by (simp_all add: off_def)
      have "first + completed < 2 ^ 64" by (rule le_less_trans [OF le b(1)])
      with b
      show "checked_sum first completed = Some (first + completed)"
        "checked_product (first + completed) ?al = Some ((first + completed) * ?al)"
        "checked_sum (cr_data_offset r) ((first + completed) * ?al) = Some off"
        "checked_product frames ?al = Some (frames * ?al)"
        by (simp_all add: checked_sum_eq checked_product_eq off_def)
    qed
    have e: "kernel_read ?k off (frames * ?al) = Some (take (frames * ?al) (drop off f))"
      by (rule kernel_read_calm [OF room len])
    have "decode_frames fu (cr_format r) False frames (take (frames * ?al)
        (drop ((first + completed) * ?al) (drop (cr_data_offset r) f))) = Some (take frames (drop (first + completed) ss))"
      by (rule decode_window [OF V(1) _ i]) (use d V(3) in simp)
    moreover have "drop ((first + completed) * ?al) (drop (cr_data_offset r) f) = drop off f"
      by (simp add: off_def add.commute)
    moreover have "list_all is_finite (take frames (drop (first + completed) ss))"
      using fin by (auto simp: list_all_iff dest!: in_set_takeD in_set_dropD)
    ultimately have m: "mix_frames fu (cr_format r) frames (take (frames * ?al) (drop off f))
        = Some (take frames (drop (first + completed) ss))"
      by (intro mix_frames_finite) simp_all
    obtain res where "window_loop ?k fu r first frame_count (completed + frames)
        (out @ take frames (drop (first + completed) ss)) = Window res"
      using less.hyps [of "completed + frames"] True fr by fastforce
    then have "window_loop ?k fu r first frame_count completed out = Window res"
      using True fr(3) c e m by (subst window_loop.simps, unfold Let_def frames_def [symmetric]) simp
    then show ?thesis ..
  qed
qed

lemma verify_cases: "verify_unchanged st (Some r) = (None, False) \<or> verify_unchanged st (Some r) = (Some r, True)"
  by (auto simp: verify_unchanged_def split: option.splits)

lemma read_mono_parts:
  assumes "read_mono_frames k fu (Some r) first n = (st, Some out)"
  shows "first + n \<le> cr_frame_count r"
    and "n = 0 \<and> out = [] \<or> window_loop k fu r first n 0 [] = Window out"
proof -
  have v: "verify_unchanged (rk_stat k 0) (Some r) = (Some r, True)"
    using verify_cases [of "rk_stat k 0" r] assms by (auto simp: read_mono_frames_def)
  obtain e where e: "checked_sum first n = Some e" "\<not> e > cr_frame_count r"
    using assms by (cases "checked_sum first n") (auto simp: read_mono_frames_def v split: if_splits)
  with assms have w: "(case (if n = 0 then Window [] else window_loop k fu r first n 0 []) of
      Window res \<Rightarrow> (let (st', ok) = verify_unchanged (rk_stat k 1) (Some r) in (st', if ok then Some res else None))
    | Window_closed \<Rightarrow> (None, None) | Window_overflow \<Rightarrow> (Some r, None)
    | Window_refused \<Rightarrow> (fst (verify_unchanged (rk_stat k 1) (Some r)), None)) = (st, Some out)"
    by (simp add: read_mono_frames_def v)
  show "first + n \<le> cr_frame_count r" using e by (auto dest: checked_sum_SomeD)
  show "n = 0 \<and> out = [] \<or> window_loop k fu r first n 0 [] = Window out"
    using w verify_cases [of "rk_stat k 1" r]
    by (cases "if n = 0 then Window [] else window_loop k fu r first n 0 []") (auto split: if_splits)
qed

lemma read_wav_decodes:
  assumes rf: "reads_file r f" and w: "read_wav fu (file_reader f) (length f) False = Some (ss, rate, fmt)"
  shows "decode_frames fu (cr_format r) False (cr_frame_count r)
      (take (cr_data_bytes r) (drop (cr_data_offset r) f)) = Some ss"
    and "rate = unat (wf_sample_rate (cr_format r))"
  using w rf by (auto simp: read_wav_def reads_file_def file_reader_def Let_def split: option.splits if_splits)

lemma capture_again: "capture_identity st = Some i \<Longrightarrow> capture_identity (Some i) = Some i"
  by (auto simp: capture_identity_def split: option.splits if_splits)

lemma open_reader_identity: "open_reader k path = Some r \<Longrightarrow> capture_identity (rk_stat k 0) = Some (cr_identity r)"
  by (auto simp: open_reader_def Let_def split: option.splits if_splits)

section \<open>Properties\<close>

text \<open>C19: Every window the bounded reader returns is that part of what the reader of whole files decodes
  from the same file, whatever the kernel answers; and when nothing fails and the samples are finite,
  every window inside the file is returned and the reader stays open.\<close>

theorem window_is_slice:
  assumes "open_reader k path = Some r" and "fi_size (cr_identity r) = int (length (rk_file k))"
    and "read_wav fu (file_reader (rk_file k)) (length (rk_file k)) False = Some (ss, rate, fmt)"
  shows "(\<forall>k' st out. rk_file k' = rk_file k \<and> read_mono_frames k' fu (Some r) first n = (st, Some out) \<longrightarrow>
      out = take n (drop first ss) \<and> first + n \<le> length ss) \<and>
    (list_all is_finite ss \<and> length (rk_file k) < 2 ^ 63 \<and> first + n \<le> length ss \<longrightarrow>
      read_mono_frames (calm_reader r (rk_file k)) fu (Some r) first n = (Some r, Some (take n (drop first ss))))"
proof (intro conjI allI impI)
  have rf: "reads_file r (rk_file k)" using open_reader_header [OF assms(1,2)] by (simp add: reads_file_def)
  note V = reads_fileD [OF rf] and D = read_wav_decodes [OF rf assms(3)]
  have len: "length ss = cr_frame_count r"
    using decode_frames_length [OF D(1)] validate_formatD(3) [OF V(1)] by simp
  fix k' st out
  assume h: "rk_file k' = rk_file k \<and> read_mono_frames k' fu (Some r) first n = (st, Some out)"
  then have rf': "reads_file r (rk_file k')" using rf by simp
  note P = read_mono_parts [OF conjunct2 [OF h]]
  show le: "first + n \<le> length ss" using P(1) len by simp
  show "out = take n (drop first ss)"
    using P(2) window_loop_sound [OF rf' P(1), of fu ss 0 "[]" out] D(1) h by auto
next
  have rf: "reads_file r (rk_file k)" using open_reader_header [OF assms(1,2)] by (simp add: reads_file_def)
  note V = reads_fileD [OF rf] and D = read_wav_decodes [OF rf assms(3)]
  have len: "length ss = cr_frame_count r"
    using decode_frames_length [OF D(1)] validate_formatD(3) [OF V(1)] by simp
  assume h: "list_all is_finite ss \<and> length (rk_file k) < 2 ^ 63 \<and> first + n \<le> length ss"
  then have n: "first + n \<le> cr_frame_count r" by (simp add: len)
  let ?k = "calm_reader r (rk_file k)"
  obtain res where w: "window_loop ?k fu r first n 0 [] = Window res"
    using window_loop_calm [OF rf n conjunct1 [OF conjunct2 [OF h]] D(1) conjunct1 [OF h]] by blast
  have res: "res = take n (drop first ss)"
    using window_loop_sound [of r ?k first n fu ss 0 "[]" res] rf n D(1) w by (simp add: calm_reader_def)
  have "capture_identity (Some (cr_identity r)) = Some (cr_identity r)"
    by (rule capture_again [OF open_reader_identity [OF assms(1)]])
  then have v: "verify_unchanged (rk_stat ?k i) (Some r) = (Some r, True)" for i
    by (simp add: verify_unchanged_def calm_reader_def)
  have "cr_frame_count r \<le> cr_data_bytes r"
    using validate_format_align [OF V(1)] unfolding V(3) by simp
  then have "first + n < 2 ^ 64" using n V(4) by simp
  then show "read_mono_frames ?k fu (Some r) first n = (Some r, Some (take n (drop first ss)))"
    using n w res by (auto simp: read_mono_frames_def v checked_sum_eq)
qed

section \<open>The spool\<close>

text \<open>The file of a spool is the concatenation of its samples.\<close>

definition spool_rep :: "spool \<Rightarrow> bytes list \<Rightarrow> bool" where
  "spool_rep s xs \<longleftrightarrow> \<not> sp_failed s \<and> 0 < sp_element s \<and> sp_file s = concat xs \<and> sp_count s = length xs \<and>
     (\<forall>x \<in> set xs. length x = sp_element s)"

lemma length_concat_samples: "\<forall>x \<in> set xs. length x = e \<Longrightarrow> length (concat xs) = length xs * e"
  by (induction xs) auto

lemma take_concat_samples: "\<forall>x \<in> set xs. length x = e \<Longrightarrow> take (n * e) (concat xs) = concat (take n xs)"
proof (induction n arbitrary: xs)
  case (Suc n)
  then show ?case by (cases xs) auto
qed simp

lemma drop_concat_samples: "\<forall>x \<in> set xs. length x = e \<Longrightarrow> drop (n * e) (concat xs) = concat (drop n xs)"
proof (induction n arbitrary: xs)
  case (Suc n)
  then show ?case by (cases xs) auto
qed simp

lemma put_at_end: "off = length f \<Longrightarrow> put_at f off data = f @ data"
  by (simp add: put_at_def)

lemma put_at_twice:
  "off \<le> length f \<Longrightarrow> put_at (put_at f off a) (off + length a) b = put_at f off (a @ b)"
  by (simp add: put_at_def add.commute add.left_commute)

lemma put_at_inside: "off \<le> length f \<Longrightarrow> off + length a \<le> length (put_at f off a)"
  by (simp add: put_at_def)

lemma put_at_nil: "off \<le> length f \<Longrightarrow> put_at f off [] = f"
  by (simp add: put_at_def)

lemma pwrite_loop_put:
  "pwrite_loop f rs data off = (f', True) \<Longrightarrow> off \<le> length f \<Longrightarrow> f' = put_at f off data"
proof (induction f rs data off arbitrary: f' rule: pwrite_loop.induct)
  case (1 f rs data off)
  show ?case
  proof (cases "data = []")
    case True
    with "1.prems" show ?thesis by (subst (asm) pwrite_loop.simps) (simp add: put_at_nil)
  next
    case d: False
    let ?chunk = "min (length data) io_chunk_bytes"
    have step: "f' = put_at f off data"
      if "m \<le> length data" and "off + m \<le> length (put_at f off (take m data)) \<Longrightarrow>
        f' = put_at (put_at f off (take m data)) (off + m) (drop m data)" for m
      using that(2) put_at_inside [OF "1.prems"(2), of "take m data"]
        put_at_twice [OF "1.prems"(2), of "take m data" "drop m data"] that(1) by simp
    show ?thesis
    proof (cases rs)
      case Nil
      with "1.prems" d have "pwrite_loop (put_at f off (take ?chunk data)) [] (drop ?chunk data) (off + ?chunk) = (f', True)"
        by (subst (asm) pwrite_loop.simps) (simp add: Let_def)
      from "1.IH"(1) [OF d refl Nil this] show ?thesis by (rule step [OF min.cobounded1])
    next
      case (Cons r rs')
      show ?thesis
      proof (cases r)
        case (Moved m)
        with "1.prems" d Cons have z: "min m ?chunk \<noteq> 0"
          and p: "pwrite_loop (put_at f off (take (min m ?chunk) data)) rs' (drop (min m ?chunk) data) (off + min m ?chunk) = (f', True)"
          by (subst (asm) pwrite_loop.simps, simp add: Let_def split: if_splits)+
        have le: "min m ?chunk \<le> length data" by (intro min.coboundedI2 min.cobounded1)
        from "1.IH"(2) [OF d refl Cons Moved refl z p] show ?thesis by (rule step [OF le])
      next
        case Interrupted
        with "1.prems" d Cons have "pwrite_loop f rs' data off = (f', True)"
          by (subst (asm) pwrite_loop.simps) simp
        with "1.IH"(3) [OF d refl Cons Interrupted] "1.prems"(2) show ?thesis by blast
      next
        case Failed
        with "1.prems" d Cons show ?thesis by (subst (asm) pwrite_loop.simps) simp
      qed
    qed
  qed
qed

lemma pwrite_exact_put: "pwrite_exact f rs data off = (f', True) \<Longrightarrow> off \<le> length f \<Longrightarrow> f' = put_at f off data"
  by (auto simp: pwrite_exact_def put_at_nil split: if_splits dest: pwrite_loop_put)

lemma pwrite_exact_append: "pwrite_exact f rs data off = (f', True) \<Longrightarrow> off = length f \<Longrightarrow> f' = f @ data"
  using pwrite_exact_put [of f rs data off f'] by (simp add: put_at_end)

lemma append_spool_rep:
  assumes r: "spool_rep s xs" and ys: "\<forall>y \<in> set ys. length y = sp_element s"
    and a: "append_spool k (concat ys) (length ys) s = (s', ok)"
  shows "if ok then spool_rep s' (xs @ ys) else sp_failed s'"
proof (cases "ys = []")
  case True
  with r a show ?thesis by (auto simp: append_spool_def spool_rep_def)
next
  case False
  show ?thesis
  proof (cases ok)
    case False
    with a r \<open>ys \<noteq> []\<close> show ?thesis
      by (auto simp: append_spool_def spool_rep_def Let_def split: option.splits if_splits prod.splits)
  next
    case True
    with a r \<open>ys \<noteq> []\<close> obtain expected nc ab nb f where e: "checked_product (sp_count s) (sp_element s) = Some expected"
      and room: "spool_room s (length ys) = Some (nc, ab, nb)"
      and w: "pwrite_exact (sp_file s) (sk_replies k) (take ab (concat ys)) expected = (f, True)"
      and s': "sp_file s' = f" "sp_count s' = nc" "\<not> sp_failed s'" "sp_element s' = sp_element s"
      by (auto simp: append_spool_def spool_rep_def Let_def split: option.splits if_splits prod.splits)
    from room have n: "nc = length xs + length ys" "ab = length ys * sp_element s"
      using r by (auto simp: spool_room_def spool_rep_def split: option.splits if_splits
          dest!: checked_sum_SomeD checked_product_SomeD)
    have all: "take ab (concat ys) = concat ys" using length_concat_samples [OF ys] n(2) by simp
    have off: "expected = length (sp_file s)"
      using checked_product_SomeD [OF e] r length_concat_samples [of xs "sp_element s"] by (simp add: spool_rep_def)
    have "f = sp_file s @ concat ys" using pwrite_exact_append [OF w off] all by simp
    with r ys s' n True show ?thesis by (auto simp: spool_rep_def)
  qed
qed

lemma read_spool_rep:
  assumes r: "spool_rep s xs" and a: "read_spool k first count s = (s', out)"
  shows "case out of None \<Rightarrow> s' = s \<or> sp_failed s'
    | Some b \<Rightarrow> s' = s \<and> first + count \<le> length xs \<and> b = concat (take count (drop first xs))"
proof (cases out)
  case None
  with a show ?thesis by (auto simp: read_spool_def split: option.splits if_splits)
next
  case (Some b)
  with a r obtain off n where s': "s' = s" and le: "first + count \<le> length xs"
    and e: "off = first * sp_element s" "n = count * sp_element s"
    and p: "pread_exact (sp_file s) (sk_replies k) n off = Some b"
    by (auto simp: read_spool_def spool_rep_def split: option.splits if_splits
        dest!: checked_sum_SomeD checked_product_SomeD)
  have xs: "\<forall>x \<in> set xs. length x = sp_element s" "sp_file s = concat xs" using r by (simp_all add: spool_rep_def)
  then have dxs: "\<forall>x \<in> set (drop first xs). length x = sp_element s" by (meson in_set_dropD)
  have "b = take n (drop off (sp_file s))"
  proof (cases "n = 0")
    case False
    with pread_exact_sound [OF p] show ?thesis by (auto simp: file_reader_def split: if_splits)
  qed (use p in \<open>simp add: pread_exact_def\<close>)
  also have "\<dots> = concat (take count (drop first xs))"
    by (simp add: e xs(2) drop_concat_samples [OF xs(1)] take_concat_samples [OF dxs])
  finally show ?thesis using Some s' le by simp
qed

text \<open>C20: The spool is a list of samples under any answers of the kernel: an append that succeeds adds its
  samples at the end and one that fails closes the spool, a read gives exactly the samples asked for or
  nothing, and never changes what is stored.\<close>

theorem spool_is_list:
  assumes "spool_rep s xs" and "\<forall>y \<in> set ys. length y = sp_element s"
    and "append_spool k (concat ys) (length ys) s = (s1, ok)" and "read_spool k' first count s = (s2, out)"
  shows "(if ok then spool_rep s1 (xs @ ys) else sp_failed s1) \<and>
    (case out of None \<Rightarrow> s2 = s \<or> sp_failed s2
     | Some b \<Rightarrow> s2 = s \<and> first + count \<le> length xs \<and> b = concat (take count (drop first xs)))"
  using append_spool_rep [OF assms(1-3)] read_spool_rep [OF assms(1,4)] by blast

section \<open>Examples\<close>

definition sample_identity :: "int \<Rightarrow> file_identity" where
  "sample_identity n = \<lparr>fi_device = 1, fi_inode = 2, fi_size = n, fi_mode = 0x8180, fi_links = 1,
     fi_mtime = (0, 0), fi_ctime = (0, 0)\<rparr>"

lemma sample_captured: "0 \<le> n \<Longrightarrow> capture_identity (Some (sample_identity n)) = Some (sample_identity n)"
  by (simp add: capture_identity_def sample_identity_def is_regular_def)

definition sample_spool :: spool where
  "sample_spool = \<lparr>sp_element = 4, sp_identity = sample_identity 4, sp_count = 1, sp_failed = False, sp_file = ''abcd''\<rparr>"

definition sample_appends :: spool_kernel where
  "sample_appends = \<lparr>sk_before = Some (sample_identity 4), sk_after = Some (sample_identity 8),
     sk_replies = [Moved 2, Interrupted]\<rparr>"

definition sample_reads :: spool_kernel where
  "sample_reads = \<lparr>sk_before = Some (sample_identity 4), sk_after = Some (sample_identity 4), sk_replies = []\<rparr>"

lemma sample_spool_rep: "spool_rep sample_spool [''abcd'']"
  by (simp add: spool_rep_def sample_spool_def)

lemma sample_write: "pwrite_exact ''abcd'' [Moved 2, Interrupted] ''efgh'' 4 = (''abcdefgh'', True)"
  by (simp add: pwrite_exact_def checked_file_range_def checked_sum_eq off_max_def put_at_def io_chunk_bytes_def
      pwrite_loop.simps)

lemma sample_append_ok: "snd (append_spool sample_appends ''efgh'' 1 sample_spool)"
  by (simp add: append_spool_def sample_appends_def sample_spool_def checked_product_eq checked_sum_eq
      spool_stale_def spool_room_def sample_captured off_max_def sample_write)
    (simp add: sample_identity_def same_object_def)

lemma sample_read: "read_spool sample_reads 0 1 sample_spool = (sample_spool, Some ''abcd'')"
  by (simp add: read_spool_def sample_reads_def sample_spool_def checked_product_eq checked_sum_eq
      spool_stale_def sample_captured pread_exact_calm)

theorem spool_is_list_witness:
  "spool_rep (fst (append_spool sample_appends ''efgh'' 1 sample_spool)) [''abcd'', ''efgh'']"
proof -
  obtain s1 where a: "append_spool sample_appends ''efgh'' 1 sample_spool = (s1, True)"
    using sample_append_ok by (cases "append_spool sample_appends ''efgh'' 1 sample_spool") auto
  have "append_spool sample_appends (concat [''efgh'']) (length [''efgh'']) sample_spool = (s1, True)"
    "\<forall>y \<in> set [''efgh'']. length y = sp_element sample_spool"
    using a by (simp_all add: sample_spool_def)
  from spool_is_list [OF sample_spool_rep this(2,1) sample_read] show ?thesis by (simp add: a [simplified])
qed

definition sample_reader :: "bytes \<Rightarrow> reader_kernel" where
  "sample_reader f = \<lparr>rk_open_fails = False, rk_file = f, rk_stat = (\<lambda>_. Some (sample_identity (int (length f)))),
     rk_reads = (\<lambda>_. [])\<rparr>"

lemma sample_opens:
  assumes l: "validate_wav_output [1, 2] 8000 1 False = Some l"
    and f: "f = wav_image (wl_riff_size l) (written_format 8000 1 False l) (wl_data_bytes l) (body_bytes bits_unit False [1, 2])"
  shows "\<exists>r. open_reader (sample_reader f) ''a'' = Some r \<and> cr_identity r = sample_identity (int (length f))"
proof -
  let ?F = "written_format 8000 1 False l" and ?b = "body_bytes bits_unit False [1, 2]"
  let ?w0 = "\<lparr>sc_format = None, sc_data = None\<rparr>" and ?w1 = "\<lparr>sc_format = Some ?F, sc_data = Some (44, length ?b)\<rparr>"
  note D = validate_outputD [OF l] and V = written_format_valid [OF l, simplified]
  have wd: "wav_width False = 2" "length ?b = 4" by (simp_all add: wav_width_def)
  have len: "length f = 48" by (simp add: f wd)
  have k: "sample_reader f = calm_reader \<lparr>cr_identity = sample_identity (int (length f)), cr_format = ?F,
      cr_data_offset = 0, cr_data_bytes = 0, cr_frame_count = 0\<rparr> f" (is "_ = calm_reader ?r f")
    by (simp add: sample_reader_def calm_reader_def)
  have "scan_chunks (file_reader f) (44 + length ?b) 12 ?w0 = Some (44 + length ?b, ?w1)"
    unfolding f by (rule scan_image) (use D V in \<open>simp_all add: wd\<close>)
  then have s: "scan_chunks (kernel_read (sample_reader f)) 48 12 ?w0 = Some (48, ?w1)"
    using calm_reads.chunks_agree [of f 48 12 ?w0 _ ?r] len by (simp add: wd k)
  have h: "kernel_read (sample_reader f) 0 12 = Some (''RIFF'' @ u32_le (wl_riff_size l) @ ''WAVE'')"
  proof -
    have "file_reader f 0 12 = Some (''RIFF'' @ u32_le (wl_riff_size l) @ ''WAVE'')" unfolding f by (rule image_reads(1))
    with len have "file_reader (if length f < 2 ^ 63 then f else []) 0 12 = Some (''RIFF'' @ u32_le (wl_riff_size l) @ ''WAVE'')"
      by simp
    then show ?thesis unfolding k by (rule calm_reads.answers) simp
  qed
  have r: "unat (wl_riff_size l) = 40" using D by (simp add: wd)
  have al: "unat (wf_block_align ?F) = 2" using V(3) by (simp add: wd)
  have c: "capture_identity (rk_stat (sample_reader f) i) = Some (sample_identity 48)" for i
    by (simp add: sample_reader_def sample_captured len)
  have i: "fi_size (sample_identity 48) = 48" by (simp add: sample_identity_def)
  have o: "\<not> rk_open_fails (sample_reader f)" by (simp add: sample_reader_def)
  show ?thesis
    by (simp add: open_reader_def o c i h r s [simplified] al [simplified] len checked_sum_eq open_chunks_scan codec wd)
qed

theorem window_is_slice_witness:
  "\<exists>f r. open_reader (sample_reader f) ''a'' = Some r \<and>
     read_mono_frames (calm_reader r f) bits_unit (Some r) 1 1 = (Some r, Some [2])"
proof -
  obtain l where l: "validate_wav_output [1, 2] 8000 1 False = Some l" using sample_layout(1) by blast
  define f where "f = wav_image (wl_riff_size l) (written_format 8000 1 False l) (wl_data_bytes l) (body_bytes bits_unit False [1, 2])"
  obtain r where r: "open_reader (sample_reader f) ''a'' = Some r" "cr_identity r = sample_identity (int (length f))"
    using sample_opens [OF l f_def] by blast
  have sz: "fi_size (cr_identity r) = int (length (rk_file (sample_reader f)))"
    by (simp add: r(2) sample_identity_def sample_reader_def)
  have v: "map (\<lambda>b. mono_value bits_unit (stored_value bits_unit False b)) [1, 2] = [1, 2]"
    by (simp add: bits_unit_def mono_value_def stored_value_def)
  have w: "read_wav bits_unit (file_reader (rk_file (sample_reader f))) (length (rk_file (sample_reader f))) False
      = Some ([1, 2], nat 8000, Int16)"
    using read_mono_written [OF l f_def] unfolding v by (simp add: sample_reader_def)
  have "list_all is_finite [1, 2] \<and> length (rk_file (sample_reader f)) < 2 ^ 63 \<and> 1 + 1 \<le> length [1, 2 :: u32]"
    by (simp add: is_finite_def sample_reader_def f_def wav_width_def)
  with window_is_slice [OF r(1) sz w, of 1 1]
  have "read_mono_frames (calm_reader r f) bits_unit (Some r) 1 1 = (Some r, Some (take 1 (drop 1 [1, 2])))"
    by (simp only: sample_reader_def reader_kernel.simps HOL.simp_thms)
  then show ?thesis using r(1) by auto
qed

end
