(* ===== verification/WavWriter.thy ===== *)
theory WavWriter
  imports WavStreamContract
begin

text \<open>
  The incremental writer of \<^verbatim>\<open>src/io/bounded_audio_io.cpp\<close> (\<^verbatim>\<open>AtomicWavStreamWriter\<close>): a staging file in
  the directory of the target, appends that are checked against the announced number of samples and
  the size of the file, and a commit that writes the final header and renames.

  The staging file is the entry of its name in the directory; its identity and that of the name are
  answers of the kernel.  Opening the directory and allocations are not modelled to fail.
\<close>

section \<open>State and kernel\<close>

record 'd pcm_unit = "'d float_unit" +
  pu_is_pcm16 :: "u32 \<Rightarrow> bool" \<comment> \<open>in \<open>[-1, 32767/32768]\<close> and a multiple of \<open>1/32768\<close>\<close>
  pu_exact :: "u32 \<Rightarrow> u16"

record stream_writer =
  sw_staging :: string
  sw_target :: string
  sw_identity :: file_identity
  sw_layout :: wav_layout
  sw_rate :: int
  sw_expected :: nat
  sw_written :: nat
  sw_failed :: bool

record stream_kernel =
  vk_pid :: nat
  vk_sequence :: nat
  vk_open_fails :: "nat \<Rightarrow> bool"
  vk_before :: "file_identity option"
  vk_after :: "file_identity option"
  vk_named :: "file_identity option" \<comment> \<open>\<^verbatim>\<open>fstatat\<close> of the staging name\<close>
  vk_replies :: "nat \<Rightarrow> reply list"
  vk_fsync_fails :: bool
  vk_close_fails :: bool
  vk_rename_fails :: bool
  vk_unlink_fails :: bool

definition no_identity :: file_identity where
  "no_identity = \<lparr>fi_device = 0, fi_inode = 0, fi_size = 0, fi_mode = 0, fi_links = 0, fi_mtime = (0, 0), fi_ctime = (0, 0)\<rparr>"

definition path_matches :: "stream_kernel \<Rightarrow> file_identity \<Rightarrow> bool" where
  "path_matches k identity = (case vk_named k of None \<Rightarrow> False | Some s \<Rightarrow> same_object s identity)"

text \<open>The destructor of the state.\<close>

definition drop_staging :: "stream_kernel \<Rightarrow> string \<Rightarrow> file_identity \<Rightarrow> directory \<Rightarrow> directory" where
  "drop_staging k name identity d =
     (if path_matches k identity \<and> \<not> vk_unlink_fails k then d(name := None) else d)"

definition abort_stream :: "stream_kernel \<Rightarrow> stream_writer option \<Rightarrow> directory \<Rightarrow> directory" where
  "abort_stream k st d = (case st of None \<Rightarrow> d | Some w \<Rightarrow> drop_staging k (sw_staging w) (sw_identity w) d)"

section \<open>Layout and header\<close>

definition header_bytes :: nat where "header_bytes = 44"

definition wav_output_layout :: "int \<Rightarrow> nat \<Rightarrow> wav_layout option" where
  "wav_output_layout sample_rate samples =
     (if sample_rate \<le> 0 then None
      else let byte_rate = nat sample_rate * 2 in
        case checked_product samples 2 of None \<Rightarrow> None
        | Some data_bytes \<Rightarrow>
          (case checked_sum 36 data_bytes of None \<Rightarrow> None
           | Some riff_size \<Rightarrow>
             if data_bytes > 2 ^ 32 - 1 \<or> riff_size > 2 ^ 32 - 1 \<or> byte_rate > 2 ^ 32 - 1 then None
             else Some \<lparr>wl_data_bytes = of_nat data_bytes, wl_riff_size = of_nat riff_size,
               wl_byte_rate = of_nat byte_rate\<rparr>))"

definition make_wav_header :: "int \<Rightarrow> wav_layout \<Rightarrow> bool \<Rightarrow> bytes" where
  "make_wav_header sample_rate l final_sizes =
     (let h = replicate header_bytes (CHR 0x00);
          h = blit h 0 ''RIFF'';
          h = blit h 4 (u32_le (if final_sizes then wl_riff_size l else 0));
          h = blit h 8 ''WAVEfmt '';
          h = blit h 16 (u32_le 16);
          h = blit h 20 (u16_le k_pcm);
          h = blit h 22 (u16_le 1);
          h = blit h 24 (u32_le (of_int sample_rate));
          h = blit h 28 (u32_le (wl_byte_rate l));
          h = blit h 32 (u16_le 2);
          h = blit h 34 (u16_le 16);
          h = blit h 36 ''data''
      in blit h 40 (u32_le (if final_sizes then wl_data_bytes l else 0)))"

section \<open>Operations\<close>

definition stream_name :: "nat \<Rightarrow> nat \<Rightarrow> string" where
  "stream_name pid sequence = ''.resonantia-wav-stream-'' @ dec pid @ ''-'' @ dec sequence @ ''.tmp''"

definition temporary_attempts :: nat where "temporary_attempts = 128"

fun stream_staging :: "stream_kernel \<Rightarrow> directory \<Rightarrow> nat \<Rightarrow> nat \<Rightarrow> string option" where
  "stream_staging k d 0 sequence = None"
| "stream_staging k d (Suc attempts) sequence =
     (let n = stream_name (vk_pid k) sequence
      in if d n \<noteq> None then stream_staging k d attempts (Suc sequence)
         else if vk_open_fails k sequence then None
         else Some n)"

definition open_stream ::
    "stream_kernel \<Rightarrow> stream_writer option \<Rightarrow> directory \<Rightarrow> string \<Rightarrow> int \<Rightarrow> nat \<Rightarrow> stream_writer option \<times> directory" where
  "open_stream k old d0 target sample_rate expected =
     (let d = abort_stream k old d0 in
      if target = [] \<or> CHR 0x00 \<in> set target \<or> file_name target = [] then (None, d)
      else case wav_output_layout sample_rate expected of None \<Rightarrow> (None, d)
      | Some l \<Rightarrow>
        (case stream_staging k d temporary_attempts (vk_sequence k) of None \<Rightarrow> (None, d)
         | Some n \<Rightarrow>
           let (f, ok) = pwrite_exact [] (vk_replies k 0) (make_wav_header sample_rate l False) 0;
               d1 = d(n \<mapsto> f) in
           if \<not> ok then (None, drop_staging k n no_identity d1)
           else case capture_identity (vk_after k) of None \<Rightarrow> (None, drop_staging k n no_identity d1)
           | Some identity \<Rightarrow>
             if fi_size identity \<noteq> int header_bytes then (None, drop_staging k n identity d1)
             else (Some \<lparr>sw_staging = n, sw_target = file_name target, sw_identity = identity, sw_layout = l,
                 sw_rate = sample_rate, sw_expected = expected, sw_written = 0, sw_failed = False\<rparr>, d1)))"

definition sample_code :: "('d, 'm) pcm_unit_scheme \<Rightarrow> bool \<Rightarrow> u32 \<Rightarrow> u16" where
  "sample_code fu exact b = (if exact then pu_exact fu b else fu_quantize fu b)"

definition sample_allowed :: "('d, 'm) pcm_unit_scheme \<Rightarrow> bool \<Rightarrow> u32 \<Rightarrow> bool" where
  "sample_allowed fu exact b \<longleftrightarrow> is_finite b \<and> (\<not> exact \<or> pu_is_pcm16 fu b)"

definition pcm_buffer_bytes :: nat where "pcm_buffer_bytes = 8192"

text \<open>The encoding buffer is flushed at the write offset when it is full, and at the end.\<close>

fun append_loop ::
    "stream_kernel \<Rightarrow> ('d, 'm) pcm_unit_scheme \<Rightarrow> bool \<Rightarrow> bytes \<Rightarrow> bytes \<Rightarrow> nat \<Rightarrow> u32 list \<Rightarrow> bytes \<times> bool" where
  "append_loop k fu exact f encoded off [] =
     (if encoded = [] then (f, True) else pwrite_exact f (vk_replies k off) encoded off)"
| "append_loop k fu exact f encoded off (s # ss) =
     (let b = encoded @ u16_le (sample_code fu exact s)
      in if length b = pcm_buffer_bytes then
           (let (f', ok) = pwrite_exact f (vk_replies k off) b off
            in if \<not> ok then (f', False) else append_loop k fu exact f' [] (off + length b) ss)
         else append_loop k fu exact f b off ss)"

definition stream_sizes :: "stream_writer \<Rightarrow> nat \<Rightarrow> (nat \<times> nat \<times> nat) option" where
  "stream_sizes w count =
     (case checked_sum (sw_written w) count of None \<Rightarrow> None
      | Some new_count \<Rightarrow>
        if new_count > sw_expected w then None
        else case checked_product (sw_written w) 2 of None \<Rightarrow> None
        | Some current \<Rightarrow>
          (case checked_sum header_bytes current of None \<Rightarrow> None
           | Some expected_size \<Rightarrow>
             (case checked_product new_count 2 of None \<Rightarrow> None
              | Some final_data \<Rightarrow>
                (case checked_sum header_bytes final_data of None \<Rightarrow> None
                 | Some final_size \<Rightarrow> Some (new_count, expected_size, final_size)))))"

definition stream_current :: "stream_writer \<Rightarrow> file_identity option \<Rightarrow> nat \<Rightarrow> bool" where
  "stream_current w status sz =
     (case capture_identity status of None \<Rightarrow> False
      | Some s \<Rightarrow> same_identity (sw_identity w) s \<and> fi_size s = int sz)"

definition append_stream ::
    "stream_kernel \<Rightarrow> ('d, 'm) pcm_unit_scheme \<Rightarrow> bool \<Rightarrow> u32 list \<Rightarrow> stream_writer \<Rightarrow> directory \<Rightarrow>
      stream_writer \<times> directory \<times> bool" where
  "append_stream k fu exact samples w d =
     (if sw_failed w then (w, d, False)
      else if samples = [] then (w, d, True)
      else if \<not> list_all (sample_allowed fu exact) samples then (w\<lparr>sw_failed := True\<rparr>, d, False)
      else case stream_sizes w (length samples) of None \<Rightarrow> (w\<lparr>sw_failed := True\<rparr>, d, False)
      | Some (new_count, expected_size, final_size) \<Rightarrow>
        if \<not> stream_current w (vk_before k) expected_size then (w\<lparr>sw_failed := True\<rparr>, d, False)
        else let (f, ok) = append_loop k fu exact (the (d (sw_staging w))) [] expected_size samples;
            d1 = d(sw_staging w \<mapsto> f) in
          if \<not> ok then (w\<lparr>sw_failed := True\<rparr>, d1, False)
          else case capture_identity (vk_after k) of None \<Rightarrow> (w\<lparr>sw_failed := True\<rparr>, d1, False)
          | Some after \<Rightarrow>
            if \<not> same_object (sw_identity w) after \<or> fi_size after \<noteq> int final_size
            then (w\<lparr>sw_failed := True\<rparr>, d1, False)
            else (w\<lparr>sw_identity := after, sw_written := new_count\<rparr>, d1, True))"

text \<open>The result says whether the target was replaced; the state is always gone afterwards.\<close>

definition commit_stream :: "stream_kernel \<Rightarrow> stream_writer option \<Rightarrow> directory \<Rightarrow> directory \<times> bool" where
  "commit_stream k st d =
     (case st of None \<Rightarrow> (abort_stream k st d, False)
      | Some w \<Rightarrow>
        if sw_failed w \<or> sw_written w \<noteq> sw_expected w then (abort_stream k st d, False)
        else case checked_sum header_bytes (unat (wl_data_bytes (sw_layout w))) of
          None \<Rightarrow> (abort_stream k st d, False)
        | Some expected_size \<Rightarrow>
          if \<not> stream_current w (vk_before k) expected_size then (abort_stream k st d, False)
          else let (f, ok) = pwrite_exact (the (d (sw_staging w))) (vk_replies k 0)
                (make_wav_header (sw_rate w) (sw_layout w) True) 0;
              d1 = d(sw_staging w \<mapsto> f) in
            if \<not> ok then (abort_stream k st d1, False)
            else case capture_identity (vk_after k) of None \<Rightarrow> (abort_stream k st d1, False)
            | Some after \<Rightarrow>
              if \<not> same_object (sw_identity w) after \<or> fi_size after \<noteq> int expected_size \<or>
                 vk_fsync_fails k \<or> vk_close_fails k then (abort_stream k st d1, False)
              else if \<not> path_matches k after \<or> vk_rename_fails k
              then (abort_stream k (Some (w\<lparr>sw_identity := after\<rparr>)) d1, False)
              else (d1(sw_staging w := None, sw_target w := d1 (sw_staging w)), True))"

section \<open>The header\<close>

definition padded :: "bytes \<Rightarrow> nat \<Rightarrow> bytes" where
  "padded xs n = xs @ replicate n (CHR 0x00)"

lemma blit_padded: "p = length xs \<Longrightarrow> blit (padded xs n) p ys = padded (xs @ ys) (n - length ys)"
  by (simp add: padded_def blit_at_end)

lemma make_wav_header_pieces:
  "make_wav_header rate l final = ''RIFF'' @ u32_le (if final then wl_riff_size l else 0) @ ''WAVEfmt '' @ u32_le 16 @
     u16_le k_pcm @ u16_le 1 @ u32_le (of_int rate) @ u32_le (wl_byte_rate l) @ u16_le 2 @ u16_le 16 @ ''data'' @
     u32_le (if final then wl_data_bytes l else 0)"
proof -
  have z: "replicate header_bytes (CHR 0x00) = padded [] 44" by (simp add: padded_def header_bytes_def)
  show ?thesis
    unfolding make_wav_header_def Let_def z by (simp add: blit_padded) (simp add: padded_def)
qed

lemma length_make_wav_header [simp]: "length (make_wav_header rate l final) = 44"
  by (simp add: make_wav_header_pieces)

lemma make_wav_header_image:
  "make_wav_header rate l True @ body = wav_image (wl_riff_size l) (written_format rate 1 False l) (wl_data_bytes l) body"
  by (simp add: make_wav_header_pieces wav_image_def format_bytes_def written_format_def)

section \<open>Appending\<close>

definition code_bytes :: "u16 list \<Rightarrow> bytes" where
  "code_bytes cs = concat (map u16_le cs)"

lemma code_bytes_append [simp]: "code_bytes (cs @ ds) = code_bytes cs @ code_bytes ds"
  by (simp add: code_bytes_def)

lemma code_bytes_Nil [simp]: "code_bytes [] = []"
  by (simp add: code_bytes_def)

lemma length_code_bytes [simp]: "length (code_bytes cs) = 2 * length cs"
  by (induction cs) (simp_all add: code_bytes_def)

lemma append_loop_ok:
  "append_loop k fu exact f encoded off ss = (f', True) \<Longrightarrow> off = length f \<Longrightarrow>
     f' = f @ encoded @ code_bytes (map (sample_code fu exact) ss)"
proof (induction k fu exact f encoded off ss arbitrary: f' rule: append_loop.induct)
  case (1 k fu exact f encoded off)
  then show ?case
    by (auto simp: code_bytes_def split: if_splits dest: pwrite_exact_append)
next
  case (2 k fu exact f encoded off s ss)
  let ?b = "encoded @ u16_le (sample_code fu exact s)"
  show ?case
  proof (cases "length ?b = pcm_buffer_bytes")
    case True
    obtain f1 ok where p: "pwrite_exact f (vk_replies k off) ?b off = (f1, ok)"
      by (cases "pwrite_exact f (vk_replies k off) ?b off")
    with True "2.prems"(1) have ok and r: "append_loop k fu exact f1 [] (off + length ?b) ss = (f', True)"
      by (auto simp: Let_def split: if_splits)
    have "pwrite_exact f (vk_replies k off) ?b off = (f1, True)" using p \<open>ok\<close> by simp
    then have f1: "f1 = f @ ?b" by (rule pwrite_exact_append [OF _ "2.prems"(2)])
    from "2.IH"(1) [OF refl True p [symmetric] refl _ r] \<open>ok\<close> f1 "2.prems"(2)
    show ?thesis by (simp add: code_bytes_def)
  next
    case False
    with "2.prems"(1) have "append_loop k fu exact f ?b off ss = (f', True)" by (simp add: Let_def)
    from "2.IH"(2) [OF refl False this "2.prems"(2)] show ?thesis by (simp add: code_bytes_def)
  qed
qed

lemma stream_stagingD: "stream_staging k d a sq = Some n \<Longrightarrow> d n = None"
  by (induction k d a sq rule: stream_staging.induct) (auto simp: Let_def split: if_splits)

text \<open>The staging file of an open stream over the directory it was opened in, with the values appended
  so far.\<close>

definition stream_inv :: "directory \<Rightarrow> stream_writer \<Rightarrow> directory \<Rightarrow> u16 list \<Rightarrow> bool" where
  "stream_inv d0 w d codes \<longleftrightarrow> d0 (sw_staging w) = None \<and> (\<exists>x. d = d0(sw_staging w \<mapsto> x)) \<and>
     wav_output_layout (sw_rate w) (sw_expected w) = Some (sw_layout w) \<and>
     (\<not> sw_failed w \<longrightarrow> sw_written w = length codes \<and>
        d (sw_staging w) = Some (make_wav_header (sw_rate w) (sw_layout w) False @ code_bytes codes))"

lemma open_stream_cases:
  assumes "open_stream k None d0 target rate expected = (st, d)"
  shows "case st of
      None \<Rightarrow> d = d0 \<or> (\<exists>n x. d0 n = None \<and> d = d0(n \<mapsto> x))
    | Some w \<Rightarrow> stream_inv d0 w d [] \<and> sw_target w = file_name target \<and> sw_rate w = rate \<and> sw_expected w = expected"
proof (cases "target = [] \<or> CHR 0x00 \<in> set target \<or> file_name target = [] \<or>
    wav_output_layout rate expected = None \<or> stream_staging k d0 temporary_attempts (vk_sequence k) = None")
  case True
  with assms show ?thesis by (auto simp: open_stream_def abort_stream_def Let_def split: option.splits)
next
  case False
  then obtain l n where l: "wav_output_layout rate expected = Some l"
    and n: "stream_staging k d0 temporary_attempts (vk_sequence k) = Some n" by auto
  obtain f ok where p: "pwrite_exact [] (vk_replies k 0) (make_wav_header rate l False) 0 = (f, ok)"
    by (cases "pwrite_exact [] (vk_replies k 0) (make_wav_header rate l False) 0")
  have fresh: "d0 n = None" by (rule stream_stagingD [OF n])
  have gone: "drop_staging k n i (d0(n \<mapsto> f)) = d0 \<or> drop_staging k n i (d0(n \<mapsto> f)) = d0(n \<mapsto> f)" for i
    using fresh by (auto simp: drop_staging_def fun_eq_iff)
  have h: "ok \<Longrightarrow> f = make_wav_header rate l False" using pwrite_exact_append [of "[]"] p by simp
  have r: "open_stream k None d0 target rate expected =
      (if \<not> ok then (None, drop_staging k n no_identity (d0(n \<mapsto> f)))
       else case capture_identity (vk_after k) of None \<Rightarrow> (None, drop_staging k n no_identity (d0(n \<mapsto> f)))
       | Some identity \<Rightarrow>
         if fi_size identity \<noteq> int header_bytes then (None, drop_staging k n identity (d0(n \<mapsto> f)))
         else (Some \<lparr>sw_staging = n, sw_target = file_name target, sw_identity = identity, sw_layout = l,
             sw_rate = rate, sw_expected = expected, sw_written = 0, sw_failed = False\<rparr>, d0(n \<mapsto> f)))"
    using False by (simp add: open_stream_def abort_stream_def Let_def l n p)
  show ?thesis
  proof (cases st)
    case None
    with assms r have "\<exists>i. d = drop_staging k n i (d0(n \<mapsto> f))" by (auto split: if_splits option.splits)
    with gone fresh None show ?thesis by auto
  next
    case (Some w)
    with assms r fresh l h show ?thesis
      by (auto simp: stream_inv_def code_bytes_def split: if_splits option.splits)
  qed
qed

lemma stream_sizesD:
  "stream_sizes w n = Some (nc, es, fs) \<Longrightarrow>
     nc = sw_written w + n \<and> nc \<le> sw_expected w \<and> es = 44 + 2 * sw_written w \<and> fs = 44 + 2 * nc"
  by (auto simp: stream_sizes_def header_bytes_def split: option.splits if_splits
      dest!: checked_sum_SomeD checked_product_SomeD)

lemma append_stream_inv:
  assumes i: "stream_inv d0 w d codes" and a: "append_stream k fu exact ss w d = (w', d', ok)"
  shows "stream_inv d0 w' d' (codes @ map (sample_code fu exact) ss) \<and> (ok \<or> sw_failed w') \<and>
    (sw_failed w \<longrightarrow> sw_failed w') \<and> sw_target w' = sw_target w \<and> sw_expected w' = sw_expected w \<and>
    sw_rate w' = sw_rate w \<and> sw_layout w' = sw_layout w"
proof (cases "sw_failed w \<or> ss = [] \<or> \<not> list_all (sample_allowed fu exact) ss \<or> stream_sizes w (length ss) = None")
  case True
  with i a show ?thesis by (auto simp: append_stream_def stream_inv_def split: if_splits option.splits)
next
  case False
  then obtain nc es fs where z: "stream_sizes w (length ss) = Some (nc, es, fs)" by auto
  obtain f ok1 where p: "append_loop k fu exact (the (d (sw_staging w))) [] es ss = (f, ok1)"
    by (cases "append_loop k fu exact (the (d (sw_staging w))) [] es ss")
  have c: "d (sw_staging w) = Some (make_wav_header (sw_rate w) (sw_layout w) False @ code_bytes codes)"
    "sw_written w = length codes" and d0: "d0 (sw_staging w) = None" "\<exists>x. d = d0(sw_staging w \<mapsto> x)"
    and lay: "wav_output_layout (sw_rate w) (sw_expected w) = Some (sw_layout w)"
    using i False by (auto simp: stream_inv_def)
  have f: "ok1 \<Longrightarrow> f = make_wav_header (sw_rate w) (sw_layout w) False @ code_bytes (codes @ map (sample_code fu exact) ss)"
    using append_loop_ok [of k fu exact "the (d (sw_staging w))" "[]" es ss f] p c stream_sizesD [OF z] by simp
  have d1: "d(sw_staging w \<mapsto> f) = d0(sw_staging w \<mapsto> f)" using d0(2) by auto
  have r: "(w', d', ok) = (if \<not> stream_current w (vk_before k) es then (w\<lparr>sw_failed := True\<rparr>, d, False)
      else if \<not> ok1 then (w\<lparr>sw_failed := True\<rparr>, d0(sw_staging w \<mapsto> f), False)
      else case capture_identity (vk_after k) of None \<Rightarrow> (w\<lparr>sw_failed := True\<rparr>, d0(sw_staging w \<mapsto> f), False)
      | Some after \<Rightarrow>
        if \<not> same_object (sw_identity w) after \<or> fi_size after \<noteq> int fs
        then (w\<lparr>sw_failed := True\<rparr>, d0(sw_staging w \<mapsto> f), False)
        else (w\<lparr>sw_identity := after, sw_written := nc\<rparr>, d0(sw_staging w \<mapsto> f), True))"
    using a False by (simp add: append_stream_def z p d1 Let_def cong: if_cong option.case_cong)
  consider "w' = w\<lparr>sw_failed := True\<rparr>" "\<exists>x. d' = d0(sw_staging w \<mapsto> x)"
    | after where "ok1" "w' = w\<lparr>sw_identity := after, sw_written := nc\<rparr>" "d' = d0(sw_staging w \<mapsto> f)" "ok"
    using r d0(2) by (auto split: if_splits option.splits)
  then show ?thesis
  proof cases
    case 1
    with d0 lay show ?thesis by (auto simp: stream_inv_def)
  next
    case 2
    with d0 lay f c stream_sizesD [OF z] False show ?thesis by (auto simp: stream_inv_def)
  qed
qed

text \<open>A sequence of appends, each with its kernel, its mode and its samples.\<close>

fun append_all ::
    "('d, 'm) pcm_unit_scheme \<Rightarrow> (stream_kernel \<times> bool \<times> u32 list) list \<Rightarrow> stream_writer \<Rightarrow> directory \<Rightarrow>
      stream_writer \<times> directory" where
  "append_all fu [] w d = (w, d)"
| "append_all fu ((k, exact, ss) # ops) w d =
     (let (w', d', ok) = append_stream k fu exact ss w d in append_all fu ops w' d')"

definition all_codes :: "('d, 'm) pcm_unit_scheme \<Rightarrow> (stream_kernel \<times> bool \<times> u32 list) list \<Rightarrow> u16 list" where
  "all_codes fu ops = concat (map (\<lambda>(k, exact, ss). map (sample_code fu exact) ss) ops)"

lemma append_all_inv:
  "append_all fu ops w d = (w', d') \<Longrightarrow> stream_inv d0 w d codes \<Longrightarrow>
     stream_inv d0 w' d' (codes @ all_codes fu ops) \<and> sw_target w' = sw_target w \<and> sw_expected w' = sw_expected w \<and>
     sw_rate w' = sw_rate w \<and> sw_layout w' = sw_layout w"
proof (induction fu ops w d arbitrary: codes rule: append_all.induct)
  case (2 fu k exact ss ops w d)
  obtain w1 d1 ok where a: "append_stream k fu exact ss w d = (w1, d1, ok)"
    by (cases "append_stream k fu exact ss w d")
  note I = append_stream_inv [OF "2.prems"(2) a]
  from "2.prems"(1) a have "append_all fu ops w1 d1 = (w', d')" by simp
  from "2.IH" [OF a [symmetric] refl refl this conjunct1 [OF I]] I show ?case by (simp add: all_codes_def)
qed (simp add: all_codes_def)

lemma commit_cases:
  assumes i: "stream_inv d0 w d codes" and c: "commit_stream k (Some w) d = (d', ok)"
  shows "if ok then length codes = sw_expected w \<and>
      d' = d0(sw_target w \<mapsto> wav_image (wl_riff_size (sw_layout w)) (written_format (sw_rate w) 1 False (sw_layout w))
        (wl_data_bytes (sw_layout w)) (code_bytes codes))
    else d' = d0 \<or> (\<exists>x. d' = d0(sw_staging w \<mapsto> x))"
proof -
  have d0: "d0 (sw_staging w) = None" "\<exists>x. d = d0(sw_staging w \<mapsto> x)" using i by (auto simp: stream_inv_def)
  have gone: "abort_stream k (Some w2) d2 = d0 \<or> (\<exists>x. abort_stream k (Some w2) d2 = d0(sw_staging w \<mapsto> x))"
    if "sw_staging w2 = sw_staging w" "\<exists>x. d2 = d0(sw_staging w \<mapsto> x)" for w2 d2
    using that d0(1) by (auto simp: abort_stream_def drop_staging_def fun_eq_iff)
  show ?thesis
  proof (cases "sw_failed w \<or> sw_written w \<noteq> sw_expected w \<or>
      checked_sum header_bytes (unat (wl_data_bytes (sw_layout w))) = None")
    case True
    then have "d' = abort_stream k (Some w) d \<and> \<not> ok" using c by (auto simp: commit_stream_def split: option.splits)
    with gone [OF refl d0(2)] show ?thesis by auto
  next
    case False
    then obtain es where es: "checked_sum header_bytes (unat (wl_data_bytes (sw_layout w))) = Some es" by auto
    let ?h = "make_wav_header (sw_rate w) (sw_layout w)"
    obtain f ok1 where p: "pwrite_exact (the (d (sw_staging w))) (vk_replies k 0) (?h True) 0 = (f, ok1)"
      by (cases "pwrite_exact (the (d (sw_staging w))) (vk_replies k 0) (?h True) 0")
    have cur: "d (sw_staging w) = Some (?h False @ code_bytes codes)" "sw_written w = length codes"
      using i False by (auto simp: stream_inv_def)
    have f: "ok1 \<Longrightarrow> f = ?h True @ code_bytes codes"
      using pwrite_exact_put [of "the (d (sw_staging w))" "vk_replies k 0" "?h True" 0 f] p cur(1)
      by (simp add: put_at_def)
    have d1: "d(sw_staging w \<mapsto> f) = d0(sw_staging w \<mapsto> f)" using d0(2) by auto
    have d2: "d(sw_staging w := None) = d0(sw_staging w := None)" using d0(2) by auto
    have r: "(d', ok) = (if \<not> stream_current w (vk_before k) es then (abort_stream k (Some w) d, False)
        else if \<not> ok1 then (abort_stream k (Some w) (d0(sw_staging w \<mapsto> f)), False)
        else case capture_identity (vk_after k) of None \<Rightarrow> (abort_stream k (Some w) (d0(sw_staging w \<mapsto> f)), False)
        | Some after \<Rightarrow>
          if \<not> same_object (sw_identity w) after \<or> fi_size after \<noteq> int es \<or> vk_fsync_fails k \<or> vk_close_fails k
          then (abort_stream k (Some w) (d0(sw_staging w \<mapsto> f)), False)
          else if \<not> path_matches k after \<or> vk_rename_fails k
          then (abort_stream k (Some (w\<lparr>sw_identity := after\<rparr>)) (d0(sw_staging w \<mapsto> f)), False)
          else (d0(sw_staging w := None, sw_target w \<mapsto> f), True))"
      using c False by (simp add: commit_stream_def es p d1 d2 Let_def cong: if_cong option.case_cong)
    have same: "d0(sw_staging w := None) = d0" using d0(1) by auto
    define safe where "safe e \<longleftrightarrow> e = d0 \<or> (\<exists>x. e = d0(sw_staging w \<mapsto> x))" for e
    have g: "safe (abort_stream k (Some w) d)" "safe (abort_stream k (Some w) (d0(sw_staging w \<mapsto> f)))"
      "safe (abort_stream k (Some (w\<lparr>sw_identity := i\<rparr>)) (d0(sw_staging w \<mapsto> f)))" for i
      unfolding safe_def by (rule gone [OF _ d0(2)], simp) (rule gone; auto)+
    consider "\<not> ok" "safe d'" | "ok" "ok1" "d' = d0(sw_target w \<mapsto> f)"
      using r g same by (auto split: if_splits option.splits)
    then show ?thesis
    proof cases
      case 1
      then show ?thesis by (simp add: safe_def)
    next
      case 2
      with f False cur(2) show ?thesis by (simp add: make_wav_header_image)
    qed
  qed
qed

section \<open>Reading the published file\<close>

lemma decode_codes:
  "f = written_format rate 1 False l \<Longrightarrow> decode_frames fu f False (length cs) (code_bytes cs)
     = Some (map (\<lambda>c. mono_value fu (fu_pcm fu (sint c))) cs)"
proof (induction cs)
  case (Cons c cs)
  then have "unat (wf_channels f) = Suc 0" "unat (wf_block_align f) = 2" "wf_audio_format f = k_pcm" "unat (wf_bits f) div 8 = 2"
    by (simp_all add: written_format_def)
  with Cons show ?case
    by (simp add: code_bytes_def decode_sample_def codec pcm_value_sint frame_samples_def mono_value_def)
qed simp

lemma layout_validated: "wav_output_layout rate n = Some l \<Longrightarrow> validate_wav_output (replicate n 0) rate 1 False = Some l"
  by (auto simp: wav_output_layout_def validate_wav_output_def Let_def list_all_iff is_finite_def
      split: option.splits if_splits)

lemma read_codes:
  assumes l: "wav_output_layout rate (length cs) = Some l"
    and f: "f = wav_image (wl_riff_size l) (written_format rate 1 False l) (wl_data_bytes l) (code_bytes cs)"
  shows "read_wav fu (file_reader f) (length f) False
    = Some (map (\<lambda>c. mono_value fu (fu_pcm fu (sint c))) cs, nat rate, Int16)"
proof -
  let ?F = "written_format rate 1 False l"
  note D = validate_outputD [OF layout_validated [OF l]] and V = written_format_valid [OF layout_validated [OF l], simplified]
  have al: "unat (wf_block_align ?F) = 2" using V(3) by (simp add: wav_width_def)
  have h: "read_header (file_reader f) (length f) False = Some (?F, 44, 2 * length cs)"
    using read_header_image [of "wl_data_bytes l" "code_bytes cs" ?F "wl_riff_size l" False] D V al
    by (simp add: f wav_width_def mult.commute)
  have b: "file_reader f 44 (2 * length cs) = Some (code_bytes cs)" unfolding f by (rule image_reads(5)) simp
  have n: "2 * length cs div unat (wf_block_align ?F) = length cs" unfolding al by simp
  have a: "wf_audio_format ?F = k_pcm" by (simp add: written_format_def)
  from read_wav_step [OF h b, unfolded n, OF decode_codes [OF refl]] show ?thesis using V(2) a by simp
qed

section \<open>Properties\<close>

text \<open>C21: A stream is published all or not at all, whatever the kernel answers: a commit that succeeds
  changes exactly the target, to a WAV file that reads back as the announced number of samples in the
  order of the appends; in every other case, and at every moment before, every file that was there is
  as it was.\<close>

theorem stream_publication:
  assumes "open_stream k0 None d0 target rate expected = (Some w0, d1)"
    and "append_all fu ops w0 d1 = (w, d2)" and "commit_stream k (Some w) d2 = (d3, ok)"
  shows "(if ok
      then length (all_codes fu ops) = expected \<and>
        (\<exists>f. d3 = d0(file_name target \<mapsto> f) \<and> read_wav fu' (file_reader f) (length f) False
          = Some (map (\<lambda>c. mono_value fu' (fu_pcm fu' (sint c))) (all_codes fu ops), nat rate, Int16))
      else \<forall>n c. d0 n = Some c \<longrightarrow> d3 n = Some c) \<and>
    (\<forall>n c. d0 n = Some c \<longrightarrow> d1 n = Some c \<and> d2 n = Some c)"
proof -
  have O: "stream_inv d0 w0 d1 []" "sw_target w0 = file_name target" "sw_rate w0 = rate" "sw_expected w0 = expected"
    using open_stream_cases [OF assms(1)] by simp_all
  have A: "stream_inv d0 w d2 (all_codes fu ops)" "sw_target w = file_name target" "sw_expected w = expected"
    "sw_rate w = rate"
    using append_all_inv [OF assms(2) O(1)] O by simp_all
  have l: "wav_output_layout rate expected = Some (sw_layout w)" and st: "d0 (sw_staging w) = None"
    using A by (auto simp: stream_inv_def)
  note C = commit_cases [OF A(1) assms(3)]
  have before: "\<forall>n c. d0 n = Some c \<longrightarrow> d1 n = Some c \<and> d2 n = Some c"
    using O(1) A(1) by (auto simp: stream_inv_def)
  show ?thesis
  proof (cases ok)
    case True
    with C A l read_codes [of rate "all_codes fu ops" "sw_layout w" _ fu'] before show ?thesis by auto
  next
    case False
    with C st before show ?thesis by auto
  qed
qed

section \<open>A staging file that stays\<close>

text \<open>When the first write of \<^verbatim>\<open>open\<close> fails, the identity of the staging file has not been captured yet,
  so the destructor does not recognise its name and leaves it, even when it could be removed.\<close>

lemma open_leaves_staging:
  assumes "target \<noteq> []" and "CHR 0x00 \<notin> set target" and "file_name target \<noteq> []"
    and "wav_output_layout rate expected = Some l" and "stream_staging k d temporary_attempts (vk_sequence k) = Some n"
    and "vk_replies k 0 = [Failed]" and "\<And>s. vk_named k = Some s \<Longrightarrow> fi_inode s \<noteq> 0"
  shows "open_stream k None d target rate expected = (None, d(n \<mapsto> []))"
proof -
  have "make_wav_header rate l False \<noteq> []" by (simp add: make_wav_header_pieces)
  then have p: "pwrite_exact [] [Failed] (make_wav_header rate l False) 0 = ([], False)"
    by (simp add: pwrite_exact_def pwrite_loop.simps)
  have "\<not> path_matches k no_identity"
    using assms(7) by (auto simp: path_matches_def no_identity_def same_object_def split: option.splits)
  then show ?thesis
    using assms(1-6) p by (simp add: open_stream_def abort_stream_def drop_staging_def)
qed

section \<open>Examples\<close>

lemma pwrite_loop_calm: "off \<le> length f \<Longrightarrow> pwrite_loop f [] data off = (put_at f off data, True)"
proof (induction "length data" arbitrary: f data off rule: less_induct)
  case less
  show ?case
  proof (cases "data = []")
    case True
    with less.prems show ?thesis by (subst pwrite_loop.simps) (simp add: put_at_nil)
  next
    case False
    let ?c = "min (length data) io_chunk_bytes"
    have c: "0 < ?c" "?c \<le> length data" using False by (auto simp: io_chunk_bytes_def)
    have "pwrite_loop (put_at f off (take ?c data)) [] (drop ?c data) (off + ?c)
        = (put_at (put_at f off (take ?c data)) (off + ?c) (drop ?c data), True)"
      using put_at_inside [OF less.prems, of "take ?c data"] c by (intro less.hyps) auto
    also have "put_at (put_at f off (take ?c data)) (off + ?c) (drop ?c data) = put_at f off data"
      using put_at_twice [OF less.prems, of "take ?c data" "drop ?c data"] c(2) by simp
    finally show ?thesis using False by (subst pwrite_loop.simps) (simp add: Let_def)
  qed
qed

lemma pwrite_exact_calm:
  "off \<le> length f \<Longrightarrow> off + length data < 2 ^ 63 \<Longrightarrow> pwrite_exact f [] data off = (put_at f off data, True)"
  by (auto simp: pwrite_exact_def checked_file_range_def checked_sum_eq off_max_def put_at_nil pwrite_loop_calm)

definition sample_stream :: "int \<Rightarrow> int \<Rightarrow> stream_kernel" where
  "sample_stream before after = \<lparr>vk_pid = 1, vk_sequence = 0, vk_open_fails = (\<lambda>_. False),
     vk_before = Some (sample_identity before), vk_after = Some (sample_identity after),
     vk_named = Some (sample_identity after), vk_replies = (\<lambda>_. []), vk_fsync_fails = False,
     vk_close_fails = False, vk_rename_fails = False, vk_unlink_fails = False\<rparr>"

definition bits_pcm :: "u32 pcm_unit" where
  "bits_pcm = float_unit.extend bits_unit \<lparr>pu_is_pcm16 = (\<lambda>_. True), pu_exact = (\<lambda>b. of_nat (unat b))\<rparr>"

definition sample_stream_layout :: wav_layout where
  "sample_stream_layout = \<lparr>wl_data_bytes = 2, wl_riff_size = 38, wl_byte_rate = 16000\<rparr>"

definition sample_writer :: "int \<Rightarrow> nat \<Rightarrow> stream_writer" where
  "sample_writer sz n = \<lparr>sw_staging = stream_name 1 0, sw_target = ''a'', sw_identity = sample_identity sz,
     sw_layout = sample_stream_layout, sw_rate = 8000, sw_expected = 1, sw_written = n, sw_failed = False\<rparr>"

lemma sample_stream_fields [simp]:
  "vk_pid (sample_stream a b) = 1" "vk_sequence (sample_stream a b) = 0" "\<not> vk_open_fails (sample_stream a b) n"
  "vk_before (sample_stream a b) = Some (sample_identity a)" "vk_after (sample_stream a b) = Some (sample_identity b)"
  "vk_replies (sample_stream a b) o1 = []" "\<not> vk_fsync_fails (sample_stream a b)" "\<not> vk_close_fails (sample_stream a b)"
  "\<not> vk_rename_fails (sample_stream a b)" "path_matches (sample_stream a b) (sample_identity b)"
  by (simp_all add: sample_stream_def path_matches_def)

lemma sample_identity_simps [simp]:
  "fi_size (sample_identity a) = a" "same_object (sample_identity a) (sample_identity b)"
  "same_identity (sample_identity a) (sample_identity b) \<longleftrightarrow> a = b"
  by (auto simp: sample_identity_def same_object_def same_identity_def)

lemma sample_stream_open:
  "open_stream (sample_stream 0 44) None (\<lambda>_. None) ''a'' 8000 1
     = (Some (sample_writer 44 0), [stream_name 1 0 \<mapsto> make_wav_header 8000 sample_stream_layout False])"
proof -
  have st: "temporary_attempts = Suc 127" by (simp add: temporary_attempts_def)
  have n: "stream_staging (sample_stream 0 44) (\<lambda>_. None) temporary_attempts 0 = Some (stream_name 1 0)"
    unfolding st stream_staging.simps by simp
  have l: "wav_output_layout 8000 1 = Some sample_stream_layout"
    by (simp add: wav_output_layout_def checked_product_eq checked_sum_eq sample_stream_layout_def)
  have p: "pwrite_exact [] [] (make_wav_header 8000 sample_stream_layout False) 0
      = (make_wav_header 8000 sample_stream_layout False, True)"
    by (subst pwrite_exact_calm) (simp_all add: put_at_def)
  show ?thesis
    using n [simplified] l [simplified] p sample_name
    by (simp add: open_stream_def abort_stream_def sample_captured header_bytes_def sample_writer_def Let_def)
qed

lemma sample_stream_append:
  "append_all bits_pcm [(sample_stream 44 46, False, [7])] (sample_writer 44 0)
      [stream_name 1 0 \<mapsto> make_wav_header 8000 sample_stream_layout False]
    = (sample_writer 46 1, [stream_name 1 0 \<mapsto> make_wav_header 8000 sample_stream_layout False @ u16_le 7])"
proof -
  let ?h = "make_wav_header 8000 sample_stream_layout False"
  have c: "sample_code bits_pcm False 7 = 7" "sample_allowed bits_pcm False 7"
    by (simp_all add: sample_code_def sample_allowed_def bits_pcm_def bits_unit_def float_unit.defs is_finite_def)
  have z: "stream_sizes (sample_writer 44 0) 1 = Some (1, 44, 46)"
    by (simp add: stream_sizes_def sample_writer_def header_bytes_def checked_sum_eq checked_product_eq)
  have l: "append_loop (sample_stream 44 46) bits_pcm False ?h [] 44 [7] = (?h @ u16_le 7, True)"
  proof -
    have "u16_le 7 \<noteq> []" by (simp add: u16_le_def)
    then show ?thesis by (simp add: c pcm_buffer_bytes_def pwrite_exact_calm put_at_end Let_def)
  qed
  have cur: "stream_current (sample_writer 44 0) (vk_before (sample_stream 44 46)) 44"
    by (simp add: stream_current_def sample_captured sample_writer_def)
  show ?thesis
    using z [simplified] l cur [simplified] by (simp add: append_stream_def c sample_captured sample_writer_def Let_def)
qed

lemma sample_stream_commit:
  "snd (commit_stream (sample_stream 46 46) (Some (sample_writer 46 1))
      [stream_name 1 0 \<mapsto> make_wav_header 8000 sample_stream_layout False @ u16_le 7])"
  by (simp add: commit_stream_def sample_writer_def header_bytes_def sample_stream_layout_def checked_sum_eq
      stream_current_def sample_captured pwrite_exact_calm Let_def)

theorem stream_publication_witness:
  "\<exists>f. fst (commit_stream (sample_stream 46 46) (Some (sample_writer 46 1))
      [stream_name 1 0 \<mapsto> make_wav_header 8000 sample_stream_layout False @ u16_le 7]) = [''a'' \<mapsto> f] \<and>
    read_wav bits_unit (file_reader f) (length f) False = Some ([7], 8000, Int16)"
proof -
  obtain d3 where c: "commit_stream (sample_stream 46 46) (Some (sample_writer 46 1))
      [stream_name 1 0 \<mapsto> make_wav_header 8000 sample_stream_layout False @ u16_le 7] = (d3, True)"
    using sample_stream_commit by (metis prod.collapse)
  have codes: "all_codes bits_pcm [(sample_stream 44 46, False, [7])] = [7]"
    by (simp add: all_codes_def sample_code_def bits_pcm_def bits_unit_def float_unit.defs)
  have v: "mono_value bits_unit (fu_pcm bits_unit (sint (7 :: u16))) = 7"
    by (simp add: mono_value_def bits_unit_def)
  from stream_publication [OF sample_stream_open sample_stream_append c, of bits_unit]
  show ?thesis by (simp add: codes v [simplified] c [simplified] sample_name)
qed

end
