(* ===== verification/ProcessRunner.thy ===== *)
theory ProcessRunner
  imports Text
begin

text \<open>
  The process runner of \<^verbatim>\<open>tools/web/workflow_support.cpp\<close> (\<^verbatim>\<open>PosixProcessRunner::run\<close>): the checks and
  the lease before the child is spawned, the pump that copies the child's output line by line into
  the log, and what the end of the child makes of the result.

  The kernel's answers are a parameter: every call before the spawn succeeds or fails with its
  \<^verbatim>\<open>errno\<close>, the output arrives in pieces, each write to the log is cut or refused.  Error numbers are
  integers; the file actions of the spawn and the descriptors they move are one answer.
\<close>

section \<open>Results\<close>

datatype process_end = Exited | Signaled | Launch_failed | Exec_failed | Wait_failed

record process_result =
  pr_termination :: process_end
  pr_exit_code :: int
  pr_signal :: int
  pr_system_error :: int
  pr_io_error :: int

definition success :: "process_result \<Rightarrow> bool" where
  "success r \<longleftrightarrow> pr_termination r = Exited \<and> pr_exit_code r = 0 \<and> pr_io_error r = 0"

definition new_result :: process_result where
  "new_result = \<lparr>pr_termination = Launch_failed, pr_exit_code = -1, pr_signal = 0, pr_system_error = 0, pr_io_error = 0\<rparr>"

definition eio :: int where "eio = 5"
definition einval :: int where "einval = 22"
definition ebusy :: int where "ebusy = 16"
definition ewouldblock :: int where "ewouldblock = 11"
definition echild :: int where "echild = 10"

definition launch_failure :: "process_end \<Rightarrow> int \<Rightarrow> process_result" where
  "launch_failure t e = new_result\<lparr>pr_termination := t, pr_system_error := (if e = 0 then eio else e)\<rparr>"

definition record_io_error :: "int \<Rightarrow> int \<Rightarrow> int" where
  "record_io_error dest e = (if dest = 0 then (if e = 0 then eio else e) else dest)"

section \<open>The log\<close>

text \<open>\<^verbatim>\<open>Wrote n\<close> moves \<open>n + 1\<close> bytes; \<^verbatim>\<open>Stopped e\<close> is an error, or nothing written, with that \<^verbatim>\<open>errno\<close>.\<close>

datatype write_reply = Wrote nat | Write_interrupted | Stopped int

record log_state =
  lg_bytes :: bytes
  lg_replies :: "write_reply list"
  lg_error :: int

fun write_all :: "write_reply list \<Rightarrow> bytes \<Rightarrow> bytes \<times> write_reply list \<times> int option" where
  "write_all rs [] = ([], rs, None)"
| "write_all [] data = (data, [], None)"
| "write_all (Write_interrupted # rs) data = write_all rs data"
| "write_all (Stopped e # rs) data = ([], rs, Some e)"
| "write_all (Wrote n # rs) data =
     (let (out, rs', err) = write_all rs (drop (Suc n) data) in (take (Suc n) data @ out, rs', err))"

definition log_write :: "bytes \<Rightarrow> log_state \<Rightarrow> log_state \<times> bool" where
  "log_write data g =
     (let (out, rs, err) = write_all (lg_replies g) data in
      case err of
        None \<Rightarrow> (g\<lparr>lg_bytes := lg_bytes g @ out, lg_replies := rs\<rparr>, True)
      | Some e \<Rightarrow> (g\<lparr>lg_bytes := lg_bytes g @ out, lg_replies := rs, lg_error := record_io_error (lg_error g) e\<rparr>, False))"

definition matches_filter :: "string \<Rightarrow> string list \<Rightarrow> bool" where
  "matches_filter line terms = (terms = [] \<or> list_ex (\<lambda>t. t \<noteq> [] \<and> find_sub t line \<noteq> None) terms)"

definition emit_log_line :: "string \<Rightarrow> bool \<Rightarrow> string list \<Rightarrow> log_state \<Rightarrow> log_state" where
  "emit_log_line line had_newline terms g =
     (if lg_error g \<noteq> 0 \<or> \<not> matches_filter line terms then g
      else let (g1, ok) = log_write line g
        in if \<not> ok then g1 else if had_newline then fst (log_write [CHR 0x0a] g1) else g1)"

section \<open>The pump\<close>

definition max_log_line :: nat where "max_log_line = 64 * 1024"

text \<open>\<open>pm_seen\<close> lists what the observer was given; \<open>observer\<close> says on which lines it throws.\<close>

record pump =
  pm_line :: string
  pm_log :: log_state
  pm_seen :: "string list"
  pm_observer_failed :: bool

definition observe :: "(string \<Rightarrow> bool) option \<Rightarrow> pump \<Rightarrow> pump" where
  "observe observer p =
     (case observer of None \<Rightarrow> p
      | Some throws \<Rightarrow>
        if pm_observer_failed p then p
        else p\<lparr>pm_seen := pm_seen p @ [pm_line p], pm_observer_failed := throws (pm_line p)\<rparr>)"

definition flush_line :: "(string \<Rightarrow> bool) option \<Rightarrow> string list \<Rightarrow> pump \<Rightarrow> pump" where
  "flush_line observer terms p =
     (let p1 = observe observer p
      in p1\<lparr>pm_log := emit_log_line (pm_line p1) True terms (pm_log p1), pm_line := []\<rparr>)"

definition pump_char :: "(string \<Rightarrow> bool) option \<Rightarrow> string list \<Rightarrow> char \<Rightarrow> pump \<Rightarrow> pump" where
  "pump_char observer terms c p =
     (if c = CHR 0x0a then flush_line observer terms p
      else let p1 = p\<lparr>pm_line := pm_line p @ [c]\<rparr>
        in if length (pm_line p1) = max_log_line then flush_line observer terms p1 else p1)"

text \<open>One answer of \<^verbatim>\<open>read\<close> on the pipe; the end of the list is the end of the output.\<close>

datatype pipe_reply = Piece bytes | Read_interrupted | Read_failed int

fun pump_reads :: "(string \<Rightarrow> bool) option \<Rightarrow> string list \<Rightarrow> pipe_reply list \<Rightarrow> pump \<Rightarrow> pump" where
  "pump_reads observer terms [] p = p"
| "pump_reads observer terms (Read_interrupted # rs) p = pump_reads observer terms rs p"
| "pump_reads observer terms (Read_failed e # rs) p =
     p\<lparr>pm_log := (pm_log p)\<lparr>lg_error := record_io_error (lg_error (pm_log p)) e\<rparr>\<rparr>"
| "pump_reads observer terms (Piece b # rs) p =
     (if b = [] then p else pump_reads observer terms rs (fold (pump_char observer terms) b p))"

definition pump_end :: "(string \<Rightarrow> bool) option \<Rightarrow> string list \<Rightarrow> pump \<Rightarrow> pump" where
  "pump_end observer terms p =
     (if pm_line p = [] then p
      else let p1 = observe observer p in p1\<lparr>pm_log := emit_log_line (pm_line p1) False terms (pm_log p1)\<rparr>)"

section \<open>The run\<close>

record process_spec =
  ps_argv :: "string list"
  ps_resource_lock :: string
  ps_log_path :: string
  ps_truncate :: bool
  ps_filter :: "string list"
  ps_observer :: "(string \<Rightarrow> bool) option"

datatype wait_reply = Wait_exited int | Wait_signaled int | Wait_other | Wait_error int

text \<open>\<open>None\<close> is success.  \<open>rl_plain\<close>: the lease is a regular file with one link.\<close>

record run_kernel =
  rl_open_log :: "int option"
  rl_open_lease :: "int option"
  rl_stat_lease :: "int option"
  rl_plain :: bool
  rl_flock :: "int option"
  rl_move_lease :: "int option"
  rl_pipe :: "int option"
  rl_actions :: "int option"
  rl_spawn :: "int option"
  rl_strerror :: "int \<Rightarrow> string"
  rl_reads :: "pipe_reply list"
  rl_writes :: "write_reply list"
  rl_wait :: wait_reply
  rl_close_log :: "int option"

definition busy_message :: string where
  "busy_message = ''[vc_serve] another GPU worker still owns the resource, possibly from a previous service; retry after it exits'' @ [CHR 0x0a]"

definition lease_message :: string where
  "lease_message = ''[vc_serve] cannot acquire the GPU process resource lease'' @ [CHR 0x0a]"

definition start_log :: "run_kernel \<Rightarrow> process_spec \<Rightarrow> bytes \<Rightarrow> log_state" where
  "start_log k spec old = \<lparr>lg_bytes = (if ps_truncate spec then [] else old), lg_replies = rl_writes k, lg_error = 0\<rparr>"

definition rejected :: "log_state \<Rightarrow> int \<Rightarrow> process_result \<times> bytes" where
  "rejected g e =
     (let g1 = fst (log_write (if e = ebusy then busy_message else lease_message) g)
      in ((launch_failure Launch_failed e)\<lparr>pr_io_error := lg_error g1\<rparr>, lg_bytes g1))"

text \<open>The error with which the lease is refused, if it is.\<close>

definition lease_error :: "run_kernel \<Rightarrow> string \<Rightarrow> int option" where
  "lease_error k lock =
     (if CHR 0x00 \<in> set lock then Some einval
      else case rl_open_lease k of Some e \<Rightarrow> Some e
      | None \<Rightarrow>
        (case rl_stat_lease k of Some e \<Rightarrow> Some e
         | None \<Rightarrow>
           if \<not> rl_plain k then Some einval
           else case rl_flock k of Some e \<Rightarrow> Some (if e = ewouldblock then ebusy else e)
           | None \<Rightarrow> rl_move_lease k))"

text \<open>What the end of the child makes of a result that is \<^const>\<open>Exited\<close> so far.\<close>

definition wait_result :: "wait_reply \<Rightarrow> process_result \<Rightarrow> process_result" where
  "wait_result w r =
     (case w of
        Wait_error e \<Rightarrow> r\<lparr>pr_termination := Wait_failed, pr_system_error := e\<rparr>
      | Wait_exited code \<Rightarrow> r\<lparr>pr_termination := Exited, pr_exit_code := code\<rparr>
      | Wait_signaled s \<Rightarrow> r\<lparr>pr_termination := Signaled, pr_signal := s\<rparr>
      | Wait_other \<Rightarrow> r\<lparr>pr_termination := Wait_failed, pr_system_error := echild\<rparr>)"

definition run_child :: "run_kernel \<Rightarrow> process_spec \<Rightarrow> log_state \<Rightarrow> process_result \<times> bytes \<times> string list" where
  "run_child k spec g =
     (let p0 = \<lparr>pm_line = [], pm_log = g, pm_seen = [], pm_observer_failed = False\<rparr>;
          p = pump_end (ps_observer spec) (ps_filter spec)
            (pump_reads (ps_observer spec) (ps_filter spec) (rl_reads k) p0);
          e1 = lg_error (pm_log p);
          e2 = (case rl_close_log k of None \<Rightarrow> e1 | Some e \<Rightarrow> record_io_error e1 e);
          e3 = (if pm_observer_failed p \<and> e2 = 0 then eio else e2)
      in ((wait_result (rl_wait k) (new_result\<lparr>pr_termination := Exited\<rparr>))\<lparr>pr_io_error := e3\<rparr>,
          lg_bytes (pm_log p), pm_seen p))"

definition run_process :: "run_kernel \<Rightarrow> process_spec \<Rightarrow> bytes \<Rightarrow> process_result \<times> bytes \<times> string list" where
  "run_process k spec old =
     (if ps_argv spec = [] \<or> hd (ps_argv spec) = [] \<or> ps_log_path spec = [] \<or>
         list_ex (\<lambda>a. CHR 0x00 \<in> set a) (ps_argv spec)
      then (launch_failure Launch_failed einval, old, [])
      else case rl_open_log k of Some e \<Rightarrow> (launch_failure Launch_failed e, old, [])
      | None \<Rightarrow>
        let g = start_log k spec old in
        case (if ps_resource_lock spec = [] then None else lease_error k (ps_resource_lock spec)) of
          Some e \<Rightarrow> (let (r, b) = rejected g e in (r, b, []))
        | None \<Rightarrow>
          (case rl_pipe k of Some e \<Rightarrow> (launch_failure Launch_failed e, lg_bytes g, [])
           | None \<Rightarrow>
             (case rl_actions k of Some e \<Rightarrow> (launch_failure Launch_failed e, lg_bytes g, [])
              | None \<Rightarrow>
                (case rl_spawn k of
                   Some e \<Rightarrow>
                     (let g1 = fst (log_write (''[vc_serve] process launch failed: '' @ rl_strerror k e @ [CHR 0x0a]) g)
                      in ((launch_failure Exec_failed e)\<lparr>pr_io_error := lg_error g1\<rparr>, lg_bytes g1, []))
                 | None \<Rightarrow> run_child k spec g))))"

section \<open>What the log holds\<close>

text \<open>The lines of an output, cut at the limit too; the flag says whether a line end is written.\<close>

fun cut_lines :: "string \<Rightarrow> string \<Rightarrow> (string \<times> bool) list" where
  "cut_lines acc [] = (if acc = [] then [] else [(acc, False)])"
| "cut_lines acc (c # cs) =
     (if c = CHR 0x0a then (acc, True) # cut_lines [] cs
      else let a = acc @ [c] in if length a = max_log_line then (a, True) # cut_lines [] cs else cut_lines a cs)"

definition render :: "string \<times> bool \<Rightarrow> bytes" where
  "render s = fst s @ (if snd s then [CHR 0x0a] else [])"

definition log_text :: "string list \<Rightarrow> string \<Rightarrow> bytes" where
  "log_text terms out = concat (map render (filter (\<lambda>s. matches_filter (fst s) terms) (cut_lines [] out)))"

fun pipe_output :: "pipe_reply list \<Rightarrow> bytes option" where
  "pipe_output [] = Some []"
| "pipe_output (Read_interrupted # rs) = pipe_output rs"
| "pipe_output (Read_failed e # rs) = None"
| "pipe_output (Piece b # rs) = (if b = [] then Some [] else map_option ((@) b) (pipe_output rs))"

text \<open>An output none of whose lines reaches the limit.\<close>

definition short_lines :: "string \<Rightarrow> bool" where
  "short_lines out \<longleftrightarrow> (\<forall>s \<in> set (cut_lines [] out). length (fst s) < max_log_line)"

lemma cut_lines_bound: "length acc < max_log_line \<Longrightarrow> s \<in> set (cut_lines acc out) \<Longrightarrow> length (fst s) \<le> max_log_line"
proof (induction acc out rule: cut_lines.induct)
  case (2 acc c cs)
  then show ?case by (auto simp: Let_def max_log_line_def split: if_splits)
qed (auto split: if_splits)

lemma render_cut_lines:
  "length acc < max_log_line \<Longrightarrow> \<forall>s \<in> set (cut_lines acc out). length (fst s) < max_log_line \<Longrightarrow>
     concat (map render (cut_lines acc out)) = acc @ out"
proof (induction acc out rule: cut_lines.induct)
  case (1 acc)
  then show ?case by (simp add: render_def)
next
  case (2 acc c cs)
  show ?case
  proof (cases "c = CHR 0x0a")
    case True
    with 2 show ?thesis by (simp add: render_def max_log_line_def)
  next
    case False
    with "2.prems" have n: "length (acc @ [c]) \<noteq> max_log_line" by (auto simp: Let_def)
    with "2.prems" False have "length (acc @ [c]) < max_log_line" by simp
    with "2.IH"(3) [OF False refl n] "2.prems" False n show ?thesis by (simp add: Let_def)
  qed
qed

lemma record_io_error_nonzero [simp]: "record_io_error d e \<noteq> 0"
  by (simp add: record_io_error_def eio_def)

lemma write_all_done: "write_all rs data = (out, rs', None) \<Longrightarrow> out = data"
  by (induction rs data arbitrary: out rs' rule: write_all.induct) (auto split: prod.splits)

lemma log_write_done:
  "log_write data g = (g', ok) \<Longrightarrow> lg_error g' = 0 \<Longrightarrow> ok \<and> lg_error g = 0 \<and> lg_bytes g' = lg_bytes g @ data"
  by (auto simp: log_write_def Let_def split: prod.splits option.splits dest: write_all_done)

lemma emit_done:
  assumes "lg_error (emit_log_line line nl terms g) = 0"
  shows "lg_error g = 0 \<and> lg_bytes (emit_log_line line nl terms g)
    = lg_bytes g @ (if matches_filter line terms then render (line, nl) else [])"
proof (cases "lg_error g \<noteq> 0 \<or> \<not> matches_filter line terms")
  case True
  with assms show ?thesis by (auto simp: emit_log_line_def)
next
  case False
  obtain g1 ok where w: "log_write line g = (g1, ok)" by (cases "log_write line g")
  obtain g2 ok2 where w2: "log_write [CHR 0x0a] g1 = (g2, ok2)" by (cases "log_write [CHR 0x0a] g1")
  have e: "emit_log_line line nl terms g = (if \<not> ok then g1 else if nl then g2 else g1)"
    using False by (simp add: emit_log_line_def w w2)
  show ?thesis
  proof (cases "ok \<and> nl")
    case True
    with assms e have "lg_error g2 = 0" by simp
    with log_write_done [OF w2] log_write_done [OF w] True False e show ?thesis by (simp add: render_def)
  next
    case n: False
    with assms e have "lg_error g1 = 0" by (simp split: if_splits)
    with log_write_done [OF w] n False e show ?thesis by (simp add: render_def)
  qed
qed

text \<open>One line of the output through the pump.\<close>

definition emit_segment :: "(string \<Rightarrow> bool) option \<Rightarrow> string list \<Rightarrow> string \<times> bool \<Rightarrow> pump \<Rightarrow> pump" where
  "emit_segment observer terms s p =
     (let p1 = observe observer (p\<lparr>pm_line := fst s\<rparr>)
      in p1\<lparr>pm_log := emit_log_line (fst s) (snd s) terms (pm_log p1), pm_line := []\<rparr>)"

lemma observe_line: "pm_line (observe ob p) = pm_line p" "pm_log (observe ob p) = pm_log p"
  by (simp_all add: observe_def split: option.split)

lemma flush_segment: "flush_line ob terms p = emit_segment ob terms (pm_line p, True) (p\<lparr>pm_line := []\<rparr>)"
  by (simp add: flush_line_def emit_segment_def observe_line)

lemma pump_segments:
  "length (pm_line p) < max_log_line \<Longrightarrow>
     (pump_end ob terms (fold (pump_char ob terms) b p))\<lparr>pm_line := []\<rparr>
       = fold (emit_segment ob terms) (cut_lines (pm_line p) b) (p\<lparr>pm_line := []\<rparr>)"
proof (induction b arbitrary: p)
  case Nil
  then show ?case by (simp add: pump_end_def emit_segment_def observe_line)
next
  case (Cons c b)
  have z: "(0 :: nat) < max_log_line" by (simp add: max_log_line_def)
  have e: "pm_line (emit_segment ob terms s q) = []" for s q by (simp add: emit_segment_def Let_def)
  have e2: "(emit_segment ob terms s q)\<lparr>pm_line := []\<rparr> = emit_segment ob terms s q" for s q
    by (simp add: emit_segment_def Let_def)
  show ?case
  proof (cases "c = CHR 0x0a")
    case True
    then show ?thesis
      using Cons.IH [of "emit_segment ob terms (pm_line p, True) (p\<lparr>pm_line := []\<rparr>)"] z
      by (simp add: pump_char_def flush_segment e e2)
  next
    case False
    let ?p = "p\<lparr>pm_line := pm_line p @ [c]\<rparr>"
    show ?thesis
    proof (cases "length (pm_line ?p) = max_log_line")
      case True
      then show ?thesis
        using Cons.IH [of "emit_segment ob terms (pm_line p @ [c], True) (p\<lparr>pm_line := []\<rparr>)"] z False
        by (simp add: pump_char_def flush_segment e e2 Let_def)
    next
      case n: False
      then have "length (pm_line ?p) < max_log_line" using Cons.prems by simp
      from Cons.IH [OF this] n False show ?thesis by (simp add: pump_char_def Let_def)
    qed
  qed
qed

lemma segments_done:
  "lg_error (pm_log (fold (emit_segment ob terms) ss p)) = 0 \<Longrightarrow>
     lg_error (pm_log p) = 0 \<and> lg_bytes (pm_log (fold (emit_segment ob terms) ss p))
       = lg_bytes (pm_log p) @ concat (map render (filter (\<lambda>s. matches_filter (fst s) terms) ss))"
proof (induction ss arbitrary: p)
  case (Cons s ss)
  let ?q = "emit_segment ob terms s p"
  have q: "pm_log ?q = emit_log_line (fst s) (snd s) terms (pm_log p)" by (simp add: emit_segment_def observe_line)
  from Cons.IH [of ?q] Cons.prems have "lg_error (pm_log ?q) = 0"
    "lg_bytes (pm_log (fold (emit_segment ob terms) ss ?q))
      = lg_bytes (pm_log ?q) @ concat (map render (filter (\<lambda>s. matches_filter (fst s) terms) ss))" by simp_all
  with emit_done [of "fst s" "snd s" terms "pm_log p"] show ?case by (simp add: q)
qed simp

lemma segments_seen:
  "\<not> pm_observer_failed (fold (emit_segment (Some t) terms) ss p) \<Longrightarrow>
     \<not> pm_observer_failed p \<and> pm_seen (fold (emit_segment (Some t) terms) ss p) = pm_seen p @ map fst ss"
proof (induction ss arbitrary: p)
  case (Cons s ss)
  from Cons.IH [of "emit_segment (Some t) terms s p"] Cons.prems show ?case
    by (auto simp: emit_segment_def observe_def Let_def split: if_splits)
qed simp

lemma pump_reads_output: "pipe_output rs = Some out \<Longrightarrow> pump_reads ob terms rs p = fold (pump_char ob terms) out p"
  by (induction ob terms rs p arbitrary: out rule: pump_reads.induct) (auto split: if_splits)

lemma pump_reads_failed: "pipe_output rs = None \<Longrightarrow> lg_error (pm_log (pump_reads ob terms rs p)) \<noteq> 0"
  by (induction ob terms rs p rule: pump_reads.induct) (auto split: if_splits)

lemma pump_end_error: "lg_error (pm_log p) \<noteq> 0 \<Longrightarrow> lg_error (pm_log (pump_end ob terms p)) \<noteq> 0"
  by (auto simp: pump_end_def observe_line emit_log_line_def)

section \<open>Property\<close>

text \<open>C22: A run reported as a success is one: the lease, when asked for, was obtained and the child was
  spawned and exited with 0; its output was read to the end, and the log is what it was (or empty) and
  the lines of the output that pass the filter, each at most 64 KiB and all of them shown to the
  observer; without a filter and with no line that long, the log gains exactly the output.\<close>

theorem run_success:
  assumes "run_process k spec old = (r, log, seen)" and "success r"
  shows "\<exists>out. pipe_output (rl_reads k) = Some out \<and> rl_wait k = Wait_exited 0 \<and> rl_spawn k = None \<and>
    (ps_resource_lock spec = [] \<or> lease_error k (ps_resource_lock spec) = None) \<and>
    log = (if ps_truncate spec then [] else old) @ log_text (ps_filter spec) out \<and>
    (\<forall>s \<in> set (cut_lines [] out). length (fst s) \<le> max_log_line) \<and>
    (ps_observer spec = None \<or> seen = map fst (cut_lines [] out)) \<and>
    (ps_filter spec = [] \<and> short_lines out \<longrightarrow> log_text (ps_filter spec) out = out)"
proof -
  have nf: "\<not> success ((launch_failure t e)\<lparr>pr_io_error := i\<rparr>)" "\<not> success (launch_failure t e)"
    if "t \<noteq> Exited" for t e i
    using that by (simp_all add: success_def launch_failure_def)
  have lease: "(if ps_resource_lock spec = [] then None else lease_error k (ps_resource_lock spec)) = None"
    and sp: "rl_spawn k = None" and rc: "run_child k spec (start_log k spec old) = (r, log, seen)"
    using assms nf by (auto simp: run_process_def rejected_def Let_def split: if_splits option.splits prod.splits)
  let ?ob = "ps_observer spec" and ?terms = "ps_filter spec"
  let ?p0 = "\<lparr>pm_line = [], pm_log = start_log k spec old, pm_seen = [], pm_observer_failed = False\<rparr>"
  define p where "p = pump_end ?ob ?terms (pump_reads ?ob ?terms (rl_reads k) ?p0)"
  have r: "log = lg_bytes (pm_log p)" "seen = pm_seen p" "lg_error (pm_log p) = 0" "\<not> pm_observer_failed p"
    and w: "rl_wait k = Wait_exited 0"
    using rc assms(2) unfolding run_child_def Let_def p_def [symmetric]
    by (auto simp: success_def eio_def wait_result_def split: if_splits option.splits wait_reply.splits)
  obtain out where out: "pipe_output (rl_reads k) = Some out"
  proof (cases "pipe_output (rl_reads k)")
    case None
    from pump_end_error [OF pump_reads_failed [OF this]] r(3) show ?thesis by (simp add: p_def)
  qed blast
  have "p\<lparr>pm_line := []\<rparr> = fold (emit_segment ?ob ?terms) (cut_lines [] out) ?p0"
    using pump_segments [of ?p0 ?ob ?terms out] by (simp add: p_def pump_reads_output [OF out] max_log_line_def)
  then have q: "pm_log p = pm_log (fold (emit_segment ?ob ?terms) (cut_lines [] out) ?p0)"
    "pm_seen p = pm_seen (fold (emit_segment ?ob ?terms) (cut_lines [] out) ?p0)"
    "pm_observer_failed p = pm_observer_failed (fold (emit_segment ?ob ?terms) (cut_lines [] out) ?p0)"
    by (metis pump.select_convs pump.surjective pump.update_convs(1))+
  have log: "log = (if ps_truncate spec then [] else old) @ log_text ?terms out"
    using segments_done [of ?ob ?terms "cut_lines [] out" ?p0] r(1,3) q(1) by (simp add: log_text_def start_log_def)
  have seen: "?ob = None \<or> seen = map fst (cut_lines [] out)"
    using segments_seen [of _ ?terms "cut_lines [] out" ?p0] r(2,4) q(2,3) by (cases ?ob) auto
  have all: "log_text [] out = concat (map render (cut_lines [] out))"
    by (simp add: log_text_def matches_filter_def)
  have "?terms = [] \<and> short_lines out \<longrightarrow> log_text ?terms out = out"
    using render_cut_lines [of "[]" out] all by (auto simp: short_lines_def max_log_line_def)
  moreover have "\<forall>s \<in> set (cut_lines [] out). length (fst s) \<le> max_log_line"
    using cut_lines_bound [of "[]"] by (simp add: max_log_line_def)
  ultimately show ?thesis using out w sp log seen lease by (auto split: if_splits)
qed

definition sample_run :: run_kernel where
  "sample_run = \<lparr>rl_open_log = None, rl_open_lease = None, rl_stat_lease = None, rl_plain = True, rl_flock = None,
     rl_move_lease = None, rl_pipe = None, rl_actions = None, rl_spawn = None, rl_strerror = (\<lambda>_. []),
     rl_reads = [Piece ''a'', Read_interrupted, Piece (''b'' @ [CHR 0x0a] @ ''c'')], rl_writes = [Wrote 0, Write_interrupted],
     rl_wait = Wait_exited 0, rl_close_log = None\<rparr>"

definition sample_spec :: process_spec where
  "sample_spec = \<lparr>ps_argv = [''x''], ps_resource_lock = ''l'', ps_log_path = ''log'', ps_truncate = False,
     ps_filter = [], ps_observer = Some (\<lambda>_. False)\<rparr>"

theorem run_success_witness:
  "fst (snd (run_process sample_run sample_spec ''z'')) = ''zab'' @ [CHR 0x0a] @ ''c''"
proof -
  have s: "success (fst (run_process sample_run sample_spec ''z''))"
    by (simp add: run_process_def sample_spec_def sample_run_def lease_error_def run_child_def start_log_def Let_def
        pump_char_def flush_line_def observe_def emit_log_line_def matches_filter_def log_write_def pump_end_def
        max_log_line_def wait_result_def success_def)
  obtain r log seen where p: "run_process sample_run sample_spec ''z'' = (r, log, seen)"
    by (cases "run_process sample_run sample_spec ''z''")
  have o: "pipe_output (rl_reads sample_run) = Some (''ab'' @ [CHR 0x0a] @ ''c'')"
    by (simp add: sample_run_def)
  have "cut_lines [] (''ab'' @ [CHR 0x0a] @ ''c'') = [(''ab'', True), (''c'', False)]"
    by (simp add: max_log_line_def)
  then have t: "log_text [] (''ab'' @ [CHR 0x0a] @ ''c'') = ''ab'' @ [CHR 0x0a] @ ''c''"
    by (simp add: log_text_def matches_filter_def render_def)
  from run_success [OF p] s p o show ?thesis by (auto simp: sample_spec_def t [simplified])
qed

end
