(* ===== verification/Uploads.thy ===== *)
theory Uploads
  imports WebText ProcessRunner WavContract
begin

text \<open>
  Uploaded recordings, from the parts of a form to WAV files in a staging directory
  (\<^verbatim>\<open>tools/web/workflow_support.cpp\<close>): the names and formats that are accepted, the writing of the
  files, the decoding of compressed audio by an external program with its limits, and the check of
  what the program produced.

  A directory is a map from names to contents.  The kernel's failures and the decoder are parameters:
  given its command and the compressed bytes, the decoder gives a process result and the output file,
  if there is one.
\<close>

section \<open>Formats\<close>

text \<open>\<^verbatim>\<open>fs::path(n).extension()\<close> and \<^verbatim>\<open>replace_extension\<close> of a name without separators.\<close>

definition extension :: "string \<Rightarrow> string" where
  "extension n =
     (let k = length (takeWhile (\<lambda>c. c \<noteq> CHR ''.'') (rev n))
      in if n = ''.'' \<or> n = ''..'' \<or> Suc k \<ge> length n then [] else drop (length n - Suc k) n)"

definition replace_extension :: "string \<Rightarrow> string \<Rightarrow> string" where
  "replace_extension n e = take (length n - length (extension n)) n @ e"

definition audio_demuxer :: "string \<Rightarrow> string option" where
  "audio_demuxer e =
     (if e = ''.mp3'' then Some ''mp3''
      else if e = ''.m4a'' then Some ''mov''
      else if e = ''.aac'' then Some ''aac''
      else if e = ''.flac'' then Some ''flac''
      else if e = ''.ogg'' \<or> e = ''.opus'' then Some ''ogg''
      else if e = ''.wma'' then Some ''asf''
      else if e = ''.aif'' \<or> e = ''.aiff'' then Some ''aiff''
      else None)"

definition valid_audio_upload :: "string \<Rightarrow> bytes \<Rightarrow> bool" where
  "valid_audio_upload n data =
     (let e = lower (extension n) in
      if e \<noteq> ''.wav'' then audio_demuxer e \<noteq> None \<and> data \<noteq> []
      else length data \<ge> 12 \<and> take 4 data = ''RIFF'' \<and> take 4 (drop 8 data) = ''WAVE'')"

section \<open>What the decoder produced\<close>

definition frame_bytes :: "bool \<Rightarrow> nat" where
  "frame_bytes stereo = (if stereo then 4 else 2)"

text \<open>The sixteen bytes of a format chunk that are accepted.\<close>

definition decoded_format :: "bool \<Rightarrow> bytes \<Rightarrow> bool" where
  "decoded_format stereo b =
     (let channels = (if stereo then 2 else 1 :: nat) in
      b ! 0 = char_of (1 :: nat) \<and> b ! 1 = CHR 0x00 \<and> b ! 2 = char_of channels \<and> b ! 3 = CHR 0x00 \<and>
      unat (read_u32_le (drop 4 b)) = 44100 \<and> unat (read_u32_le (drop 8 b)) = 88200 * channels \<and>
      b ! 12 = char_of (2 * channels) \<and> b ! 13 = CHR 0x00 \<and> b ! 14 = char_of (16 :: nat) \<and> b ! 15 = CHR 0x00)"

function decoded_chunks ::
    "bytes \<Rightarrow> nat \<Rightarrow> bool \<Rightarrow> nat \<Rightarrow> bool \<Rightarrow> nat option \<Rightarrow> (nat \<times> bool \<times> nat option) option" where
  "decoded_chunks f sz stereo offset format frames =
     (if \<not> offset + 8 \<le> sz then Some (offset, format, frames)
      else case file_reader f offset 8 of None \<Rightarrow> None
      | Some header \<Rightarrow>
        let count = unat (read_u32_le (drop 4 header)); padded = count + count mod 2 in
        if padded > sz - offset - 8 then None
        else if take 4 header = ''fmt '' then
          (if format \<or> count < 16 then None
           else case file_reader f (offset + 8) 16 of None \<Rightarrow> None
           | Some b \<Rightarrow>
             if \<not> decoded_format stereo b then None
             else decoded_chunks f sz stereo (offset + 8 + padded) True frames)
        else if take 4 header = ''data'' then
          (if frames \<noteq> None \<or> count = 0 \<or> count mod frame_bytes stereo \<noteq> 0 then None
           else decoded_chunks f sz stereo (offset + 8 + padded) format (Some (count div frame_bytes stereo)))
        else decoded_chunks f sz stereo (offset + 8 + padded) format frames)"
  by pat_completeness auto
termination
  by (relation "measure (\<lambda>(f, sz, stereo, offset, format, frames). sz - offset)") (auto simp: Let_def)

declare decoded_chunks.simps [simp del]

definition decoded_wav_frames :: "bytes \<Rightarrow> nat \<Rightarrow> bool \<Rightarrow> nat option" where
  "decoded_wav_frames f sz stereo =
     (if sz < 44 then None
      else case file_reader f 0 12 of None \<Rightarrow> None
      | Some header \<Rightarrow>
        if take 4 header \<noteq> ''RIFF'' \<or> drop 8 header \<noteq> ''WAVE'' \<or> unat (read_u32_le (drop 4 header)) \<noteq> sz - 8 then None
        else case decoded_chunks f sz stereo 12 False None of None \<Rightarrow> None
        | Some (offset, format, frames) \<Rightarrow> if \<not> format \<or> offset \<noteq> sz then None else frames)"

section \<open>Collecting\<close>

record upload =
  u_part :: part
  u_filename :: string

datatype collect_error = Invalid_upload | Duplicate_filename

fun collect_loop :: "part list \<Rightarrow> upload list \<Rightarrow> collect_error + upload list" where
  "collect_loop [] uploads = Inr uploads"
| "collect_loop (p # ps) uploads =
     (if p_filename p = [] then collect_loop ps uploads
      else let filename = safe_filename (p_filename p) in
        if filename = [] \<or> \<not> valid_audio_upload filename (p_data p) then Inl Invalid_upload
        else let wav = replace_extension filename ''.wav'' in
          if wav \<in> set (map u_filename uploads) then Inl Duplicate_filename
          else collect_loop ps (uploads @ [\<lparr>u_part = p, u_filename = wav\<rparr>]))"

definition collect_uploads :: "part list \<Rightarrow> collect_error + upload list" where
  "collect_uploads parts = collect_loop parts []"

section \<open>Writing\<close>

record upload_kernel =
  uk_mkdir_raw_fails :: bool
  uk_mkdir_work_fails :: bool
  uk_create_fails :: "string \<Rightarrow> bool"
  uk_write_fails :: "string \<Rightarrow> bool"
  uk_left :: "string \<Rightarrow> bytes" \<comment> \<open>what a failed write leaves\<close>
  uk_copy_fails :: "string \<Rightarrow> bool"

type_synonym staging = "directory \<times> directory option"

definition write_upload :: "upload_kernel \<Rightarrow> string \<Rightarrow> bytes \<Rightarrow> staging \<Rightarrow> staging \<times> bool" where
  "write_upload k n data s =
     (let (raw, work) = s in
      if uk_create_fails k n then ((raw, work), False)
      else if uk_write_fails k n then ((raw(n \<mapsto> uk_left k n), work), False)
      else case work of None \<Rightarrow> ((raw(n \<mapsto> data), None), True)
      | Some w \<Rightarrow>
        if uk_copy_fails k n then ((raw(n \<mapsto> data), Some w), False)
        else ((raw(n \<mapsto> data), Some (w(n \<mapsto> data))), True))"

fun write_loop :: "upload_kernel \<Rightarrow> upload list \<Rightarrow> staging \<Rightarrow> staging \<times> bool" where
  "write_loop k [] s = (s, True)"
| "write_loop k (u # us) s =
     (let (s', ok) = write_upload k (u_filename u) (p_data (u_part u)) s
      in if \<not> ok then (s', False) else write_loop k us s')"

definition write_uploads :: "upload_kernel \<Rightarrow> upload list \<Rightarrow> staging \<Rightarrow> staging \<times> bool" where
  "write_uploads k us s =
     (if uk_mkdir_raw_fails k \<or> snd s \<noteq> None \<and> uk_mkdir_work_fails k then (s, False)
      else write_loop k us s)"

section \<open>Normalizing\<close>

definition max_stereo_upload_bytes :: nat where "max_stereo_upload_bytes = 128 * 2 ^ 20"
definition max_stereo_upload_frames :: nat where "max_stereo_upload_frames = 600 * 44100"
definition batch_limit :: nat where "batch_limit = 128 * 2 ^ 20"

definition file_limit :: "bool \<Rightarrow> nat" where
  "file_limit stereo = (if stereo then max_stereo_upload_bytes else 64 * 2 ^ 20)"

datatype upload_error =
    Staging_failed
  | Decoder_busy
  | Decoder_unavailable
  | Unsupported_format
  | Decoded_file_too_large
  | Decoded_batch_too_large
  | Decoder_not_started
  | Decoding_timed_out
  | Decoding_failed
  | Decoded_incomplete
  | Decoded_too_long
  | Temporary_directory_failed \<comment> \<open>the exception of \<^verbatim>\<open>TempDir\<close>\<close>

text \<open>The status of the answer; the exception is not one.\<close>

fun upload_status :: "upload_error \<Rightarrow> nat option" where
  "upload_status Staging_failed = Some 500"
| "upload_status Decoder_busy = Some 409"
| "upload_status Decoder_unavailable = Some 503"
| "upload_status Unsupported_format = Some 400"
| "upload_status Decoded_file_too_large = Some 413"
| "upload_status Decoded_batch_too_large = Some 413"
| "upload_status Decoder_not_started = Some 503"
| "upload_status Decoding_timed_out = Some 400"
| "upload_status Decoding_failed = Some 400"
| "upload_status Decoded_incomplete = Some 400"
| "upload_status Decoded_too_long = Some 413"
| "upload_status Temporary_directory_failed = None"

definition upload_extension :: "upload \<Rightarrow> string" where
  "upload_extension u = lower (extension (safe_filename (p_filename (u_part u))))"

definition compressed :: "upload \<Rightarrow> bool" where
  "compressed u \<longleftrightarrow> upload_extension u \<noteq> ''.wav''"

definition decode_argv :: "string \<Rightarrow> bool \<Rightarrow> string \<Rightarrow> string \<Rightarrow> string \<Rightarrow> string \<Rightarrow> string list" where
  "decode_argv ffmpeg stereo ext demuxer inp out =
     [''/usr/bin/timeout'', ''--signal=TERM'', ''--kill-after=2s'', ''120s'',
      ''/usr/bin/prlimit'', ''--as=2147483648'', ''--fsize='' @ dec (file_limit stereo + 128 * 2 ^ 10), ''--'',
      ffmpeg, ''-nostdin'', ''-hide_banner'', ''-loglevel'', ''error'', ''-xerror'',
      ''-max_alloc'', ''67108864'', ''-threads'', ''2'', ''-filter_threads'', ''1'',
      ''-protocol_whitelist'', ''file'', ''-format_whitelist'', demuxer, ''-f'', demuxer] @
     (if ext = ''.m4a'' then [''-enable_drefs'', ''0'', ''-use_absolute_path'', ''0''] else []) @
     [''-i'', inp, ''-map'', ''0:a:0'', ''-vn'', ''-sn'', ''-dn'',
      ''-map_metadata'', ''-1'', ''-threads'', ''2'', ''-ac'', (if stereo then ''2'' else ''1''), ''-ar'', ''44100'',
      ''-c:a'', ''pcm_s16le'', ''-f'', ''wav'', ''-fs'', dec (file_limit stereo + 1), ''-y'', out]"

record decode_kernel =
  dk_upload :: upload_kernel
  dk_slot_free :: bool
  dk_executables :: bool
  dk_ffmpeg :: string
  dk_raw_path :: string
  dk_temp :: "string \<Rightarrow> string option" \<comment> \<open>the temporary directory of an upload\<close>
  dk_input_fails :: "string \<Rightarrow> bool"
  dk_run :: "string list \<Rightarrow> bytes \<Rightarrow> process_result \<times> bytes option"

definition run_failure :: "process_result \<Rightarrow> upload_error" where
  "run_failure r =
     (if pr_termination r = Launch_failed \<or> pr_termination r = Exec_failed \<or>
         pr_exit_code r = 126 \<or> pr_exit_code r = 127 then Decoder_not_started
      else if pr_exit_code r = 124 \<or> pr_exit_code r = 137 then Decoding_timed_out
      else Decoding_failed)"

text \<open>One compressed upload: the staging afterwards and the decoded size, or the error.  \<open>out\<close> is the
  output file the decoder left, \<^const>\<open>None\<close> when its size cannot be had.\<close>

definition check_decoded ::
    "bool \<Rightarrow> nat \<Rightarrow> process_result \<Rightarrow> bytes option \<Rightarrow> upload_error + bytes" where
  "check_decoded stereo decoded_bytes r out =
     (case out of
        Some b \<Rightarrow>
          if length b > file_limit stereo then Inl Decoded_file_too_large
          else if length b > batch_limit - decoded_bytes then Inl Decoded_batch_too_large
          else if \<not> success r then Inl (run_failure r)
          else (case decoded_wav_frames b (length b) stereo of
              None \<Rightarrow> Inl Decoded_incomplete
            | Some frames \<Rightarrow>
              if stereo \<and> frames > max_stereo_upload_frames then Inl Decoded_too_long else Inr b)
      | None \<Rightarrow> if \<not> success r then Inl (run_failure r) else Inl Decoded_incomplete)"

definition decode_upload ::
    "decode_kernel \<Rightarrow> bool \<Rightarrow> upload \<Rightarrow> staging \<Rightarrow> nat \<Rightarrow> staging \<times> (upload_error + nat)" where
  "decode_upload k stereo u s decoded_bytes =
     (case audio_demuxer (upload_extension u) of None \<Rightarrow> (s, Inl Unsupported_format)
      | Some demuxer \<Rightarrow>
        (case dk_temp k (u_filename u) of None \<Rightarrow> (s, Inl Temporary_directory_failed)
         | Some temp \<Rightarrow>
           if dk_input_fails k (u_filename u) then (s, Inl Staging_failed)
           else let n = u_filename u; raw = fst s; work = snd s;
               (r, out) = dk_run k (decode_argv (dk_ffmpeg k) stereo (upload_extension u) demuxer
                   (temp @ ''/input'' @ upload_extension u) (dk_raw_path k @ ''/'' @ n)) (p_data (u_part u));
               raw1 = (case out of None \<Rightarrow> raw | Some b \<Rightarrow> raw(n \<mapsto> b)) in
             case check_decoded stereo decoded_bytes r out of
               Inl e \<Rightarrow> ((raw1, work), Inl e)
             | Inr b \<Rightarrow>
               (case work of None \<Rightarrow> ((raw1, None), Inr (decoded_bytes + length b))
                | Some w \<Rightarrow>
                  if uk_copy_fails (dk_upload k) n then ((raw1, Some w), Inl Staging_failed)
                  else ((raw1, Some (w(n \<mapsto> b))), Inr (decoded_bytes + length b)))))"

fun normalize_loop ::
    "decode_kernel \<Rightarrow> bool \<Rightarrow> upload list \<Rightarrow> staging \<Rightarrow> nat \<Rightarrow> staging \<times> upload_error option" where
  "normalize_loop k stereo [] s decoded_bytes = (s, None)"
| "normalize_loop k stereo (u # us) s decoded_bytes =
     (if \<not> compressed u then
        (let (s', ok) = write_uploads (dk_upload k) [u] s
         in if \<not> ok then (s', Some Staging_failed) else normalize_loop k stereo us s' decoded_bytes)
      else case decode_upload k stereo u s decoded_bytes of
          (s', Inl e) \<Rightarrow> (s', Some e)
        | (s', Inr d) \<Rightarrow> normalize_loop k stereo us s' d)"

definition normalize_uploads ::
    "decode_kernel \<Rightarrow> bool \<Rightarrow> upload list \<Rightarrow> staging \<Rightarrow> staging \<times> upload_error option" where
  "normalize_uploads k stereo us s =
     (if \<not> list_ex compressed us then
        (let (s', ok) = write_uploads (dk_upload k) us s in (s', if ok then None else Some Staging_failed))
      else if \<not> dk_slot_free k then (s, Some Decoder_busy)
      else if \<not> dk_executables k then (s, Some Decoder_unavailable)
      else if uk_mkdir_raw_fails (dk_upload k) then (s, Some Staging_failed)
      else if snd s \<noteq> None \<and> uk_mkdir_work_fails (dk_upload k) then (s, Some Staging_failed)
      else normalize_loop k stereo us s 0)"

end
