(* ===== verification/UploadsContract.thy ===== *)
theory UploadsContract
  imports Uploads
begin

text \<open>
  What an accepted upload is: safe and distinct names, contents that are the client's own WAV or the
  checked output of the decoder, sizes within the limits, and files the engine's reader accepts with
  the number of frames that was counted.
\<close>

section \<open>The check and the reader\<close>

definition upload_format :: "bool \<Rightarrow> wav_format" where
  "upload_format stereo = (if stereo
     then \<lparr>wf_audio_format = k_pcm, wf_channels = 2, wf_sample_rate = 44100, wf_byte_rate = 176400, wf_block_align = 4, wf_bits = 16\<rparr>
     else \<lparr>wf_audio_format = k_pcm, wf_channels = 1, wf_sample_rate = 44100, wf_byte_rate = 88200, wf_block_align = 2, wf_bits = 16\<rparr>)"

lemma upload_format_valid: "validate_format (upload_format stereo)"
  by (cases stereo) (simp_all add: upload_format_def validate_format_def max_channels_def checked_product_eq k_pcm_def k_ieee_float_def)

lemma upload_format_align: "unat (wf_block_align (upload_format stereo)) = frame_bytes stereo"
  by (simp add: upload_format_def frame_bytes_def)

lemma unat_eqD: "unat (w :: 'a::len word) = n \<Longrightarrow> w = of_nat n"
  by (metis of_nat_unat ucast_id)

lemma of_char_word: "(of_char (char_of (n :: nat)) :: 'a::len word) = of_nat (n mod 256)"
  by (metis of_nat_of_char of_char_of)

lemma decoded_format_parse:
  assumes "decoded_format stereo b" and "length b = 16"
  shows "parse_format b = upload_format stereo"
proof -
  have u: "unat (read_u32_le (drop 4 b)) = 44100" "unat (read_u32_le (drop 8 b)) = (if stereo then 176400 else 88200)"
    using assms(1) by (auto simp: decoded_format_def Let_def)
  note w = unat_eqD [OF u(1)] unat_eqD [OF u(2)]
  show ?thesis
    using assms w
    by (auto simp: parse_format_def upload_format_def decoded_format_def read_u16_le_def nth_drop Let_def k_pcm_def of_char_word)
qed

definition scan_rel :: "bool \<Rightarrow> wav_scan \<Rightarrow> bool \<Rightarrow> nat option \<Rightarrow> bool" where
  "scan_rel stereo w format frames \<longleftrightarrow>
     sc_format w = (if format then Some (upload_format stereo) else None) \<and>
     (case frames of None \<Rightarrow> sc_data w = None
      | Some n \<Rightarrow> 0 < n \<and> (\<exists>off. sc_data w = Some (off, n * frame_bytes stereo)))"

lemma chunk_end_padded:
  "body + n + n mod 2 \<le> e \<Longrightarrow> e < 2 ^ 64 \<Longrightarrow> chunk_end e body n = Some (body + n + n mod 2)"
proof (cases "odd n")
  case True
  moreover assume "body + n + n mod 2 \<le> e" "e < 2 ^ 64"
  moreover have "n mod 2 = 1" using True by presburger
  ultimately show ?thesis by (simp add: chunk_end_def checked_sum_eq)
next
  case False
  moreover assume "body + n + n mod 2 \<le> e" "e < 2 ^ 64"
  ultimately show ?thesis by (simp add: chunk_end_def checked_sum_eq even_iff_mod_2_eq_zero)
qed

lemma decoded_chunks_scan:
  assumes e: "e < 2 ^ 64"
  shows "decoded_chunks f e stereo offset format frames = Some (e, format', frames') \<Longrightarrow> scan_rel stereo w format frames \<Longrightarrow>
     \<exists>w'. scan_chunks (file_reader f) e offset w = Some (e, w') \<and> scan_rel stereo w' format' frames'"
proof (induction "e - offset" arbitrary: offset format frames w rule: less_induct)
  case less
  show ?case
  proof (cases "offset + 8 \<le> e")
    case False
    with less.prems show ?thesis
      by (subst (asm) decoded_chunks.simps, subst scan_chunks.simps) auto
  next
    case True
    with less.prems(1) obtain h where h: "file_reader f offset 8 = Some h"
      by (subst (asm) decoded_chunks.simps) (auto split: option.splits)
    define count where "count = unat (read_u32_le (drop 4 h))"
    define p where "p = offset + 8 + (count + count mod 2)"
    have pad: "\<not> count + count mod 2 > e - offset - 8"
      using less.prems(1) True h by (subst (asm) decoded_chunks.simps) (auto simp: count_def Let_def split: if_splits)
    then have ce: "chunk_end e (offset + 8) count = Some p"
      using chunk_end_padded [of "offset + 8" count e] e True by (simp add: p_def)
    have cs: "checked_sum offset 8 = Some (offset + 8)" using True e by (simp add: checked_sum_eq)
    have scan: "scan_chunks (file_reader f) e offset w =
        (case scan_chunk (file_reader f) (take 4 h) count (offset + 8) w of None \<Rightarrow> None
         | Some w' \<Rightarrow> scan_chunks (file_reader f) e p w')"
      using True by (subst scan_chunks.simps) (simp add: cs h ce count_def [symmetric])
    have IH: "\<exists>w''. scan_chunks (file_reader f) e p w' = Some (e, w'') \<and> scan_rel stereo w'' format' frames'"
      if "decoded_chunks f e stereo p fm fr = Some (e, format', frames')" and "scan_rel stereo w' fm fr" for fm fr w'
      by (rule less.hyps [OF _ that]) (use True in \<open>simp add: p_def\<close>)
    have step: "decoded_chunks f e stereo offset format frames =
        (if take 4 h = ''fmt '' then
          (if format \<or> count < 16 then None
           else case file_reader f (offset + 8) 16 of None \<Rightarrow> None
           | Some b \<Rightarrow> if \<not> decoded_format stereo b then None else decoded_chunks f e stereo p True frames)
        else if take 4 h = ''data'' then
          (if frames \<noteq> None \<or> count = 0 \<or> count mod frame_bytes stereo \<noteq> 0 then None
           else decoded_chunks f e stereo p format (Some (count div frame_bytes stereo)))
        else decoded_chunks f e stereo p format frames)"
      using True pad by (subst decoded_chunks.simps) (simp add: h Let_def count_def [symmetric] p_def cong: if_cong option.case_cong)
    consider (fmt) "take 4 h = ''fmt ''" | (data) "take 4 h \<noteq> ''fmt ''" "take 4 h = ''data''"
      | (other) "take 4 h \<noteq> ''fmt ''" "take 4 h \<noteq> ''data''" by blast
    then show ?thesis
    proof cases
      case fmt
      with less.prems(1) step obtain b where b: "\<not> format" "\<not> count < 16" "file_reader f (offset + 8) 16 = Some b"
        "decoded_format stereo b" "decoded_chunks f e stereo p True frames = Some (e, format', frames')"
        by (auto split: if_splits option.splits)
      have pf: "parse_format b = upload_format stereo"
        by (rule decoded_format_parse [OF b(4)]) (use file_reader_Some [OF b(3)] in simp)
      have "scan_chunk (file_reader f) (take 4 h) count (offset + 8) w = Some (w\<lparr>sc_format := Some (upload_format stereo)\<rparr>)"
        using less.prems(2) b fmt by (simp add: scan_chunk_def scan_rel_def pf upload_format_valid)
      moreover have "scan_rel stereo (w\<lparr>sc_format := Some (upload_format stereo)\<rparr>) True frames"
        using less.prems(2) by (auto simp: scan_rel_def split: option.splits)
      ultimately show ?thesis using IH [OF b(5)] by (simp add: scan)
    next
      case data
      with less.prems(1) step have d: "frames = None" "count \<noteq> 0" "count mod frame_bytes stereo = 0"
        "decoded_chunks f e stereo p format (Some (count div frame_bytes stereo)) = Some (e, format', frames')"
        by (auto split: if_splits)
      have c: "count = count div frame_bytes stereo * frame_bytes stereo" using d(3) by (metis mod_0_imp_dvd dvd_div_mult_self)
      then have "0 < count div frame_bytes stereo" using d(2) by (metis gr0I mult_0)
      with c have r: "scan_rel stereo (w\<lparr>sc_data := Some (offset + 8, count)\<rparr>) format (Some (count div frame_bytes stereo))"
        using less.prems(2) by (simp add: scan_rel_def)
      have "scan_chunk (file_reader f) (take 4 h) count (offset + 8) w = Some (w\<lparr>sc_data := Some (offset + 8, count)\<rparr>)"
        using less.prems(2) data d(1) by (simp add: scan_chunk_def scan_rel_def)
      then show ?thesis using IH [OF d(4) r] by (simp add: scan)
    next
      case other
      with less.prems(1) step have "decoded_chunks f e stereo p format frames = Some (e, format', frames')" by simp
      with IH less.prems(2) show ?thesis using other by (simp add: scan scan_chunk_def)
    qed
  qed
qed

lemma decoded_header:
  assumes "decoded_wav_frames f (length f) stereo = Some n"
  obtains off where "read_header (file_reader f) (length f) False = Some (upload_format stereo, off, n * frame_bytes stereo)"
    and "length f \<le> 256 * 2 ^ 20 \<Longrightarrow>
      read_header (file_reader f) (length f) True = Some (upload_format stereo, off, n * frame_bytes stereo)" and "0 < n"
proof -
  let ?e = "length f" and ?w0 = "\<lparr>sc_format = None, sc_data = None\<rparr>"
  from assms obtain h where h: "\<not> ?e < 44" "file_reader f 0 12 = Some h" "take 4 h = ''RIFF''" "drop 8 h = ''WAVE''"
    "unat (read_u32_le (drop 4 h)) = ?e - 8"
    and d: "decoded_chunks f ?e stereo 12 False None = Some (?e, True, Some n)"
    by (auto simp: decoded_wav_frames_def split: option.splits if_splits)
  have e: "?e < 2 ^ 64" using unat_u32_bound [of "read_u32_le (drop 4 h)"] h(1,5) by simp
  obtain w where w: "scan_chunks (file_reader f) ?e 12 ?w0 = Some (?e, w)" "scan_rel stereo w True (Some n)"
    using decoded_chunks_scan [OF e d, of ?w0] by (auto simp: scan_rel_def)
  then obtain off where off: "sc_format w = Some (upload_format stereo)" "sc_data w = Some (off, n * frame_bytes stereo)" "0 < n"
    by (auto simp: scan_rel_def)
  have r: "checked_sum 8 (?e - 8) = Some ?e" using e h(1) by (simp add: checked_sum_eq)
  have al: "n * frame_bytes stereo mod unat (wf_block_align (upload_format stereo)) = 0" by (simp add: upload_format_align)
  have "\<not> ?e < 12" "\<not> ?e - 8 < 4" using h(1) by simp_all
  then have "st \<and> \<not> ?e \<le> 256 * 2 ^ 20 \<or>
      read_header (file_reader f) ?e st = Some (upload_format stereo, off, n * frame_bytes stereo)" for st
    using h w(1) off r al by (cases st) (auto simp: read_header_def Let_def)
  from this [of False] this [of True] off(3) show thesis by (intro that) auto
qed

lemma decode_frame_pcm: "\<exists>ds. decode_frame fu k_pcm width n b = Some ds"
proof (induction n arbitrary: b)
  case (Suc n)
  from Suc.IH [of "drop width b"] obtain ds where "decode_frame fu k_pcm width n (drop width b) = Some ds" by blast
  then show ?case by (simp add: decode_sample_def)
qed simp

lemma decode_frames_pcm: "wf_audio_format f = k_pcm \<Longrightarrow> \<exists>ss. decode_frames fu f stereo n b = Some ss"
proof (induction n arbitrary: b)
  case (Suc n)
  obtain ds where "decode_frame fu k_pcm (unat (wf_bits f) div 8) (unat (wf_channels f)) b = Some ds"
    using decode_frame_pcm by blast
  with Suc show ?case by fastforce
qed simp

text \<open>What the upload check accepts, the reader of the engine decodes: as many mono samples as the
  check counted frames, at 44.1 kHz; and stereo input within the limits of an upload decodes to both
  channels.\<close>

lemma decoded_upload_readable:
  assumes "decoded_wav_frames f (length f) stereo = Some n"
  shows "0 < n \<and> (\<exists>ss. read_wav fu (file_reader f) (length f) False = Some (ss, 44100, Int16) \<and> length ss = n) \<and>
    (stereo \<and> length f \<le> max_stereo_upload_bytes \<and> n \<le> max_stereo_upload_frames \<longrightarrow>
      (\<exists>ss. read_wav fu (file_reader f) (length f) True = Some (ss, 44100, Int16) \<and> length ss = 2 * n))"
proof -
  let ?F = "upload_format stereo"
  obtain off where h: "read_header (file_reader f) (length f) False = Some (?F, off, n * frame_bytes stereo)"
    and h2: "length f \<le> 256 * 2 ^ 20 \<Longrightarrow>
      read_header (file_reader f) (length f) True = Some (?F, off, n * frame_bytes stereo)" and n: "0 < n"
    using decoded_header [OF assms] by blast
  have al: "unat (wf_block_align ?F) = frame_bytes stereo" by (rule upload_format_align)
  have fb: "0 < frame_bytes stereo" by (simp add: frame_bytes_def)
  then have dv: "n * frame_bytes stereo div unat (wf_block_align ?F) = n" by (simp add: al)
  obtain enc where b: "file_reader f off (n * frame_bytes stereo) = Some enc"
    using read_header_ok(3) [OF h] by (simp add: file_reader_def)
  have pcm: "wf_audio_format ?F = k_pcm" "unat (wf_sample_rate ?F) = 44100" "unat (wf_channels ?F) = (if stereo then 2 else 1)"
    by (simp_all add: upload_format_def)
  obtain ss where ss: "decode_frames fu ?F False n enc = Some ss" using decode_frames_pcm [OF pcm(1)] by blast
  have one: "read_wav fu (file_reader f) (length f) False = Some (ss, 44100, Int16)"
    using read_wav_step [OF h b, unfolded dv, OF ss] pcm(1,2) by simp
  have "length ss = n" using decode_frames_length [OF ss] pcm(3) by simp
  moreover have "\<exists>ss. read_wav fu (file_reader f) (length f) True = Some (ss, 44100, Int16) \<and> length ss = 2 * n"
    if s: "stereo \<and> length f \<le> max_stereo_upload_bytes \<and> n \<le> max_stereo_upload_frames"
  proof -
    have lim: "length f \<le> 128 * 2 ^ 20" "n \<le> 44100 * 600"
      using s by (simp_all add: max_stereo_upload_bytes_def max_stereo_upload_frames_def)
    then have h3: "read_header (file_reader f) (length f) True = Some (?F, off, n * frame_bytes stereo)" by (intro h2) simp
    obtain ss2 where ss2: "decode_frames fu ?F True n enc = Some ss2" using decode_frames_pcm [OF pcm(1)] by blast
    have "read_wav fu (file_reader f) (length f) True = Some (ss2, 44100, Int16)"
      unfolding read_wav_def h3 using lim s pcm b ss2 dv by simp
    moreover have "length ss2 = 2 * n" using decode_frames_length [OF ss2] pcm(3) s by simp
    ultimately show ?thesis by blast
  qed
  ultimately show ?thesis using one n by blast
qed

section \<open>Names\<close>

definition collected :: "part list \<Rightarrow> upload \<Rightarrow> bool" where
  "collected parts u \<longleftrightarrow> u_part u \<in> set parts \<and> safe_filename (p_filename (u_part u)) \<noteq> [] \<and>
     valid_audio_upload (safe_filename (p_filename (u_part u))) (p_data (u_part u)) \<and>
     u_filename u = replace_extension (safe_filename (p_filename (u_part u))) ''.wav''"

lemma collect_loop_ok:
  "collect_loop ps us = Inr us' \<Longrightarrow> distinct (map u_filename us) \<Longrightarrow> \<forall>u \<in> set us. collected parts u \<Longrightarrow>
     set ps \<subseteq> set parts \<Longrightarrow> distinct (map u_filename us') \<and> (\<forall>u \<in> set us'. collected parts u)"
proof (induction ps us rule: collect_loop.induct)
  case (2 p ps us)
  show ?case
  proof (cases "p_filename p = []")
    case True
    with 2 show ?thesis by simp
  next
    case False
    let ?n = "safe_filename (p_filename p)"
    let ?u = "\<lparr>u_part = p, u_filename = replace_extension ?n ''.wav''\<rparr>"
    from "2.prems"(1) False have ok: "\<not> (?n = [] \<or> \<not> valid_audio_upload ?n (p_data p))"
      and new: "u_filename ?u \<notin> set (map u_filename us)" and r: "collect_loop ps (us @ [?u]) = Inr us'"
      by (auto simp: Let_def split: if_splits)
    have "collected parts ?u" using ok "2.prems"(4) by (simp add: collected_def)
    with "2.IH"(2) [OF False refl ok refl _ _ _ _] new r "2.prems" show ?thesis by auto
  qed
qed simp

lemma extension_length: "length (extension n) \<le> length n"
  by (simp add: extension_def Let_def)

lemma length_lower_name [simp]: "length (lower s) = length s"
  by (simp add: lower_def)

lemma audio_extension_length: "audio_demuxer (lower e) \<noteq> None \<or> lower e = ''.wav'' \<Longrightarrow> 4 \<le> length e"
proof -
  assume "audio_demuxer (lower e) \<noteq> None \<or> lower e = ''.wav''"
  then have "4 \<le> length (lower e)" by (auto simp: audio_demuxer_def simp del: length_lower_name split: if_splits)
  then show ?thesis by simp
qed

lemma collected_name:
  assumes "collected parts u"
  shows "CHR ''/'' \<notin> set (u_filename u) \<and> CHR 0x00 \<notin> set (u_filename u) \<and> length (u_filename u) \<le> 255 \<and>
    ends_with (u_filename u) ''.wav''"
proof -
  let ?n = "safe_filename (p_filename (u_part u))"
  obtain r where r: "filter_name (p_filename (u_part u)) = Some r" "?n = r" "length r \<le> 255"
    using assms by (auto simp: collected_def safe_filename_def split: if_splits option.splits)
  have "list_all name_byte ?n" using filter_name_sound [OF r(1)] r(2) by simp
  moreover have "\<not> name_byte CHR ''/''" "\<not> name_byte CHR 0x00"
    by (simp_all add: name_byte_def plain_name_char_def is_alnum_def is_digit_def is_upper_def is_lower_def char_nat_def)
  ultimately have c: "CHR ''/'' \<notin> set ?n" "CHR 0x00 \<notin> set ?n" by (auto simp: list_all_iff)
  have "audio_demuxer (lower (extension ?n)) \<noteq> None \<or> lower (extension ?n) = ''.wav''"
    using assms by (auto simp: collected_def valid_audio_upload_def Let_def split: if_splits)
  then have "4 \<le> length (extension ?n)" by (rule audio_extension_length)
  then have len: "length (u_filename u) \<le> 255"
    using assms r(2,3) extension_length [of ?n] by (simp add: collected_def replace_extension_def)
  have name: "u_filename u = take (length ?n - length (extension ?n)) ?n @ ''.wav''"
    using assms by (simp add: collected_def replace_extension_def)
  have "CHR ''/'' \<notin> set (u_filename u)" "CHR 0x00 \<notin> set (u_filename u)"
    using c unfolding name by (auto dest: in_set_takeD)
  then show ?thesis using len by (simp add: name)
qed

section \<open>Contents\<close>

definition upload_ok :: "bool \<Rightarrow> directory \<Rightarrow> directory \<Rightarrow> upload \<Rightarrow> bool" where
  "upload_ok stereo raw work u \<longleftrightarrow> (\<exists>b. raw (u_filename u) = Some b \<and> work (u_filename u) = Some b \<and>
     (if compressed u
      then length b \<le> file_limit stereo \<and>
        (\<exists>n. decoded_wav_frames b (length b) stereo = Some n \<and> (stereo \<longrightarrow> n \<le> max_stereo_upload_frames))
      else b = p_data (u_part u)))"

definition decoded_size :: "directory \<Rightarrow> upload list \<Rightarrow> nat" where
  "decoded_size raw us = sum_list (map (\<lambda>u. if compressed u then length (the (raw (u_filename u))) else 0) us)"

definition keeps :: "upload list \<Rightarrow> directory \<Rightarrow> directory \<Rightarrow> bool" where
  "keeps us d d' \<longleftrightarrow> (\<forall>n. n \<notin> u_filename ` set us \<longrightarrow> d' n = d n)"

lemma write_upload_ok:
  "write_upload k n data (raw, Some work) = (s', True) \<Longrightarrow> s' = (raw(n \<mapsto> data), Some (work(n \<mapsto> data)))"
  by (auto simp: write_upload_def split: if_splits)

lemma write_loop_ok:
  "write_loop k us (raw, Some work) = (s', True) \<Longrightarrow> distinct (map u_filename us) \<Longrightarrow>
     \<exists>raw' work'. s' = (raw', Some work') \<and> keeps us raw raw' \<and> keeps us work work' \<and>
       (\<forall>u \<in> set us. raw' (u_filename u) = Some (p_data (u_part u)) \<and> work' (u_filename u) = Some (p_data (u_part u)))"
proof (induction us arbitrary: raw work)
  case (Cons u us)
  let ?n = "u_filename u" and ?d = "p_data (u_part u)"
  obtain s1 ok where w: "write_upload k ?n ?d (raw, Some work) = (s1, ok)" by (cases "write_upload k ?n ?d (raw, Some work)")
  with Cons.prems(1) have ok by (auto split: if_splits)
  with w have s1: "s1 = (raw(?n \<mapsto> ?d), Some (work(?n \<mapsto> ?d)))" by (intro write_upload_ok) simp
  with Cons.prems w \<open>ok\<close> have "write_loop k us (raw(?n \<mapsto> ?d), Some (work(?n \<mapsto> ?d))) = (s', True)" by simp
  moreover have dist: "distinct (map u_filename us)" using Cons.prems(2) by simp
  ultimately obtain raw' work' where r: "s' = (raw', Some work')"
    "keeps us (raw(?n \<mapsto> ?d)) raw'" "keeps us (work(?n \<mapsto> ?d)) work'"
    "\<forall>u \<in> set us. raw' (u_filename u) = Some (p_data (u_part u)) \<and> work' (u_filename u) = Some (p_data (u_part u))"
    using Cons.IH by blast
  have "raw' ?n = Some ?d" "work' ?n = Some ?d" using r(2,3) Cons.prems(2) by (auto simp: keeps_def)
  moreover have "keeps (u # us) raw raw'" "keeps (u # us) work work'" using r(2,3) by (auto simp: keeps_def)
  ultimately show ?case using r(1,4) by auto
qed (auto simp: keeps_def)

lemma check_decoded_ok:
  "check_decoded stereo d r out = Inr b \<Longrightarrow> out = Some b \<and> length b \<le> file_limit stereo \<and> length b \<le> batch_limit - d \<and>
     (\<exists>n. decoded_wav_frames b (length b) stereo = Some n \<and> (stereo \<longrightarrow> n \<le> max_stereo_upload_frames))"
  by (auto simp: check_decoded_def split: option.splits if_splits)

lemma decode_upload_ok:
  assumes "decode_upload k stereo u (raw, Some work) d = (s', Inr d')"
  shows "\<exists>b. s' = (raw(u_filename u \<mapsto> b), Some (work(u_filename u \<mapsto> b))) \<and> d' = d + length b \<and>
    length b \<le> file_limit stereo \<and> length b \<le> batch_limit - d \<and>
    (\<exists>n. decoded_wav_frames b (length b) stereo = Some n \<and> (stereo \<longrightarrow> n \<le> max_stereo_upload_frames))"
  using assms
  by (auto simp: decode_upload_def Let_def split: option.splits if_splits sum.splits prod.splits dest!: check_decoded_ok)

lemma normalize_loop_ok:
  "normalize_loop k stereo us (raw, Some work) d = (s', None) \<Longrightarrow> distinct (map u_filename us) \<Longrightarrow> d \<le> batch_limit \<Longrightarrow>
     \<exists>raw' work'. s' = (raw', Some work') \<and> keeps us raw raw' \<and> keeps us work work' \<and>
       (\<forall>u \<in> set us. upload_ok stereo raw' work' u) \<and> d + decoded_size raw' us \<le> batch_limit"
proof (induction us arbitrary: raw work d)
  case Nil
  then show ?case by (auto simp: keeps_def decoded_size_def)
next
  case (Cons u us)
  let ?n = "u_filename u"
  obtain b d1 where step: "normalize_loop k stereo us (raw(?n \<mapsto> b), Some (work(?n \<mapsto> b))) d1 = (s', None)"
    and b: "if compressed u then d1 = d + length b \<and> length b \<le> file_limit stereo \<and> length b \<le> batch_limit - d \<and>
        (\<exists>n. decoded_wav_frames b (length b) stereo = Some n \<and> (stereo \<longrightarrow> n \<le> max_stereo_upload_frames))
      else d1 = d \<and> b = p_data (u_part u)"
  proof (cases "compressed u")
    case True
    obtain s1 e where dk: "decode_upload k stereo u (raw, Some work) d = (s1, e)"
      by (cases "decode_upload k stereo u (raw, Some work) d")
    with Cons.prems(1) True obtain d1 where "e = Inr d1" "normalize_loop k stereo us s1 d1 = (s', None)"
      by (cases e) auto
    with decode_upload_ok [of k stereo u raw work d s1 d1] dk that True show thesis by auto
  next
    case False
    obtain s1 ok where w: "write_uploads (dk_upload k) [u] (raw, Some work) = (s1, ok)"
      by (cases "write_uploads (dk_upload k) [u] (raw, Some work)")
    with Cons.prems(1) False have ok and r: "normalize_loop k stereo us s1 d = (s', None)" by (auto split: if_splits)
    obtain s2 ok2 where w2: "write_upload (dk_upload k) ?n (p_data (u_part u)) (raw, Some work) = (s2, ok2)"
      by (cases "write_upload (dk_upload k) ?n (p_data (u_part u)) (raw, Some work)")
    have "s1 = s2 \<and> ok2" using w w2 \<open>ok\<close> by (auto simp: write_uploads_def split: if_splits)
    with write_upload_ok [of "dk_upload k" ?n _ raw work] w2 r that False show thesis by auto
  qed
  have "d1 \<le> batch_limit" using b Cons.prems(3) by (auto split: if_splits)
  moreover have dist: "distinct (map u_filename us)" using Cons.prems(2) by simp
  ultimately obtain raw' work' where r: "s' = (raw', Some work')"
    "keeps us (raw(?n \<mapsto> b)) raw'" "keeps us (work(?n \<mapsto> b)) work'" "\<forall>u \<in> set us. upload_ok stereo raw' work' u"
    "d1 + decoded_size raw' us \<le> batch_limit" using Cons.IH [OF step] by blast
  have n: "raw' ?n = Some b" "work' ?n = Some b" using r(2,3) Cons.prems(2) by (auto simp: keeps_def)
  then have "upload_ok stereo raw' work' u" using b by (auto simp: upload_ok_def)
  moreover have "keeps (u # us) raw raw'" "keeps (u # us) work work'" using r(2,3) by (auto simp: keeps_def)
  moreover have "d + decoded_size raw' (u # us) \<le> batch_limit"
    using r(5) b n(1) by (auto simp: decoded_size_def split: if_splits)
  ultimately show ?case using r(1,4) by auto
qed

text \<open>C23: When the uploads of a form are collected and normalized without an error, every file has a
  distinct, safe name ending in \<^verbatim>\<open>.wav\<close> and the same content in both staging directories: the client's
  own bytes, or decoder output that passed the WAV check within the size and duration limits; the decoded
  files of the form together stay within 128 MiB, and no other file is touched.\<close>

theorem normalized_uploads:
  assumes "collect_uploads parts = Inr us" and "normalize_uploads k stereo us (raw, Some work) = (s', None)"
  shows "\<exists>raw' work'. s' = (raw', Some work') \<and> distinct (map u_filename us) \<and>
    (\<forall>u \<in> set us. u_part u \<in> set parts \<and> CHR ''/'' \<notin> set (u_filename u) \<and> CHR 0x00 \<notin> set (u_filename u) \<and>
      length (u_filename u) \<le> 255 \<and> ends_with (u_filename u) ''.wav'' \<and> upload_ok stereo raw' work' u) \<and>
    decoded_size raw' us \<le> batch_limit \<and> keeps us raw raw' \<and> keeps us work work'"
proof -
  have c: "distinct (map u_filename us)" "\<forall>u \<in> set us. collected parts u"
    using collect_loop_ok [OF assms(1) [unfolded collect_uploads_def], of parts] by auto
  have "\<exists>raw' work'. s' = (raw', Some work') \<and> keeps us raw raw' \<and> keeps us work work' \<and>
      (\<forall>u \<in> set us. upload_ok stereo raw' work' u) \<and> decoded_size raw' us \<le> batch_limit"
  proof (cases "list_ex compressed us")
    case True
    with assms(2) have "normalize_loop k stereo us (raw, Some work) 0 = (s', None)"
      by (auto simp: normalize_uploads_def split: if_splits)
    from normalize_loop_ok [OF this c(1)] show ?thesis by simp
  next
    case False
    then have nc: "\<forall>u \<in> set us. \<not> compressed u" by (simp add: list_ex_iff)
    from False assms(2) have "write_loop (dk_upload k) us (raw, Some work) = (s', True)"
      by (auto simp: normalize_uploads_def write_uploads_def split: if_splits prod.splits)
    from write_loop_ok [OF this c(1)] obtain raw' work' where r: "s' = (raw', Some work')" "keeps us raw raw'" "keeps us work work'"
      "\<forall>u \<in> set us. raw' (u_filename u) = Some (p_data (u_part u)) \<and> work' (u_filename u) = Some (p_data (u_part u))" by blast
    have "decoded_size raw' us = 0" using nc by (auto simp: decoded_size_def sum_list_eq_0_iff)
    with r nc show ?thesis by (auto simp: upload_ok_def)
  qed
  then obtain raw' work' where r: "s' = (raw', Some work')" "keeps us raw raw'" "keeps us work work'"
    "\<forall>u \<in> set us. upload_ok stereo raw' work' u" "decoded_size raw' us \<le> batch_limit" by blast
  moreover have "\<forall>u \<in> set us. u_part u \<in> set parts" using c(2) by (auto simp: collected_def)
  ultimately show ?thesis using c collected_name by blast
qed

section \<open>Examples\<close>

definition sample_decoded :: bytes where
  "sample_decoded = wav_image 40 (upload_format False) 4 (u16_le 1 @ u16_le 2)"

lemma sample_decoded_frames: "decoded_wav_frames sample_decoded 48 False = Some 2"
proof -
  let ?b = "u16_le 1 @ u16_le 2"
  have fm: "decoded_format False (format_bytes (upload_format False))"
  proof -
    let ?F = "upload_format False"
    have z: "char_of (0 :: nat) = CHR 0x00" by (simp add: char_of_def)
    have "read_u32_le (drop 4 (format_bytes ?F)) = 44100" "read_u32_le (drop 8 (format_bytes ?F)) = 88200"
      using parse_format_bytes [of ?F] by (simp_all add: parse_format_def upload_format_def)
    moreover have "format_bytes ?F ! 0 = char_of (1 :: nat)" "format_bytes ?F ! 1 = CHR 0x00"
      "format_bytes ?F ! 2 = char_of (1 :: nat)" "format_bytes ?F ! 3 = CHR 0x00" "format_bytes ?F ! 12 = char_of (2 :: nat)"
      "format_bytes ?F ! 13 = CHR 0x00" "format_bytes ?F ! 14 = char_of (16 :: nat)" "format_bytes ?F ! 15 = CHR 0x00"
      by (simp_all add: format_bytes_def upload_format_def u16_le_def u32_le_def k_pcm_def byte_of_def z)
    ultimately show ?thesis by (simp add: decoded_format_def)
  qed
  have one: "decoded_chunks sample_decoded 48 False 12 False None = decoded_chunks sample_decoded 48 False 36 True None"
    unfolding sample_decoded_def by (subst decoded_chunks.simps) (simp add: image_reads codec fm Let_def)
  have two: "decoded_chunks sample_decoded 48 False 36 True None = decoded_chunks sample_decoded 48 False 48 True (Some 2)"
    unfolding sample_decoded_def by (subst decoded_chunks.simps) (simp add: image_reads codec Let_def frame_bytes_def)
  have three: "decoded_chunks sample_decoded 48 False 48 True (Some 2) = Some (48, True, Some 2)"
    by (subst decoded_chunks.simps) simp
  have h: "file_reader sample_decoded 0 12 = Some (''RIFF'' @ u32_le 40 @ ''WAVE'')"
    unfolding sample_decoded_def by (rule image_reads(1))
  show ?thesis by (simp add: decoded_wav_frames_def h codec one two three)
qed

lemma length_sample_decoded: "length sample_decoded = 48"
  by (simp add: sample_decoded_def)

theorem decoded_upload_readable_witness:
  "\<exists>ss. read_wav bits_unit (file_reader sample_decoded) 48 False = Some (ss, 44100, Int16) \<and> length ss = 2"
  using decoded_upload_readable [of sample_decoded False 2 bits_unit] sample_decoded_frames
  by (simp add: length_sample_decoded)

definition sample_uploads :: "part list" where
  "sample_uploads = [\<lparr>p_name = ''f'', p_filename = ''a.wav'', p_data = ''RIFF1234WAVE''\<rparr>,
     \<lparr>p_name = ''f'', p_filename = ''b.mp3'', p_data = ''mp3''\<rparr>]"

definition sample_decoder :: decode_kernel where
  "sample_decoder = \<lparr>dk_upload = \<lparr>uk_mkdir_raw_fails = False, uk_mkdir_work_fails = False, uk_create_fails = (\<lambda>_. False),
       uk_write_fails = (\<lambda>_. False), uk_left = (\<lambda>_. []), uk_copy_fails = (\<lambda>_. False)\<rparr>,
     dk_slot_free = True, dk_executables = True, dk_ffmpeg = ''/usr/bin/ffmpeg'', dk_raw_path = ''raw'',
     dk_temp = (\<lambda>_. Some ''tmp''), dk_input_fails = (\<lambda>_. False),
     dk_run = (\<lambda>argv b. (new_result\<lparr>pr_termination := Exited, pr_exit_code := 0\<rparr>, Some sample_decoded))\<rparr>"

lemma sample_names: "safe_filename ''a.wav'' = ''a.wav''" "safe_filename ''b.mp3'' = ''b.mp3''"
  by (simp_all add: safe_filename_def plain_name_char_def is_alnum_def is_digit_def is_upper_def is_lower_def char_nat_def)

lemma sample_extensions: "extension ''a.wav'' = ''.wav''" "extension ''b.mp3'' = ''.mp3''"
  "lower ''.wav'' = ''.wav''" "lower ''.mp3'' = ''.mp3''"
  by (simp_all add: extension_def, code_simp+)

definition sample_collected :: "upload list" where
  "sample_collected = [\<lparr>u_part = sample_uploads ! 0, u_filename = ''a.wav''\<rparr>, \<lparr>u_part = sample_uploads ! 1, u_filename = ''b.wav''\<rparr>]"

lemma sample_collects: "collect_uploads sample_uploads = Inr sample_collected"
  by (simp add: collect_uploads_def sample_uploads_def sample_collected_def sample_names valid_audio_upload_def
      sample_extensions audio_demuxer_def replace_extension_def Let_def)

lemma sample_compressed: "\<not> compressed (sample_collected ! 0)" "compressed (sample_collected ! 1)"
  "upload_extension (sample_collected ! 1) = ''.mp3''"
  by (simp_all add: compressed_def upload_extension_def sample_collected_def sample_uploads_def sample_names sample_extensions)

lemma sample_normalizes: "snd (normalize_uploads sample_decoder False sample_collected (\<lambda>_. None, Some (\<lambda>_. None))) = None"
proof -
  obtain u v where u: "sample_collected = [u, v]" "\<not> compressed u" "compressed v" "upload_extension v = ''.mp3''"
    using sample_compressed by (simp add: sample_collected_def)
  have s: "success (new_result\<lparr>pr_termination := Exited, pr_exit_code := 0\<rparr>)" by (simp add: success_def new_result_def)
  have c: "check_decoded False 0 (new_result\<lparr>pr_termination := Exited, pr_exit_code := 0\<rparr>) (Some sample_decoded) = Inr sample_decoded"
    by (simp add: check_decoded_def length_sample_decoded sample_decoded_frames s file_limit_def batch_limit_def)
  have "\<exists>s2. write_uploads (dk_upload sample_decoder) [u] (\<lambda>_. None, Some (\<lambda>_. None)) = ((fst s2, Some (snd s2)), True)"
    by (simp add: write_uploads_def write_upload_def sample_decoder_def)
  then obtain r w where w: "write_uploads (dk_upload sample_decoder) [u] (\<lambda>_. None, Some (\<lambda>_. None)) = ((r, Some w), True)" by auto
  have "\<exists>s3 n. decode_upload sample_decoder False v (r, Some w) 0 = (s3, Inr n)"
    by (simp add: decode_upload_def u(4) audio_demuxer_def sample_decoder_def c Let_def)
  then show ?thesis
    using w by (auto simp: normalize_uploads_def u sample_decoder_def)
qed

theorem normalized_uploads_witness:
  "\<exists>raw work. normalize_uploads sample_decoder False sample_collected (\<lambda>_. None, Some (\<lambda>_. None)) = ((raw, Some work), None) \<and>
     raw ''a.wav'' = Some ''RIFF1234WAVE'' \<and> raw ''b.wav'' \<noteq> None \<and> raw ''c.wav'' = None"
proof -
  obtain s' where n: "normalize_uploads sample_decoder False sample_collected (\<lambda>_. None, Some (\<lambda>_. None)) = (s', None)"
    using sample_normalizes by (metis prod.collapse)
  obtain raw work where r: "s' = (raw, Some work)" "\<forall>u \<in> set sample_collected. upload_ok False raw work u"
    "keeps sample_collected (\<lambda>_. None) raw"
    using normalized_uploads [OF sample_collects n] by blast
  have "upload_ok False raw work (sample_collected ! 0)" "upload_ok False raw work (sample_collected ! 1)"
    using r(2) by (simp_all add: sample_collected_def)
  then have "raw ''a.wav'' = Some ''RIFF1234WAVE''" "raw ''b.wav'' \<noteq> None"
    using sample_compressed by (auto simp: upload_ok_def sample_collected_def sample_uploads_def)
  moreover have "raw ''c.wav'' = None" using r(3) by (simp add: keeps_def sample_collected_def)
  ultimately show ?thesis using n r(1) by blast
qed

end
