(* ===== verification/StaticFiles.thy ===== *)
theory StaticFiles
  imports WebText HttpResponse
begin

text \<open>
  Static files of the web root, as \<^verbatim>\<open>serve_static\<close> of \<^verbatim>\<open>tools/web/workflow_support.cpp\<close> serves them: the
  request path is checked, resolved by the file system with its symbolic links, and the resolved file
  must lie under the resolved root.

  A resolved path is the list of its components.  What the file system makes of a path, which files
  are regular and what they hold are parameters.
\<close>

record static_kernel =
  sv_root :: "string list option" \<comment> \<open>\<^verbatim>\<open>canonical\<close> of the web root\<close>
  sv_canonical :: "string list \<Rightarrow> string list option"
  sv_regular :: "string list \<Rightarrow> bool"
  sv_open :: "string list \<Rightarrow> bytes option"
  sv_complete :: "string list \<Rightarrow> bool"

text \<open>The components of a path; the empty ones an iterator of \<^verbatim>\<open>fs::path\<close> may give are left out.\<close>

fun path_split :: "string \<Rightarrow> string \<Rightarrow> string list" where
  "path_split acc [] = (if acc = [] then [] else [acc])"
| "path_split acc (c # s) =
     (if c = CHR ''/'' then (if acc = [] then path_split [] s else acc # path_split [] s)
      else path_split (acc @ [c]) s)"

definition relative_path :: "string \<Rightarrow> string list" where
  "relative_path request_path =
     (if request_path = ''/'' then [''index.html''] else path_split [] (drop 1 request_path))"

text \<open>The walk along both paths: what is left of the root and of the file when they differ.\<close>

fun common_walk :: "string list \<Rightarrow> string list \<Rightarrow> string list \<times> string list" where
  "common_walk (r # root) (f # full) = (if r = f then common_walk root full else (r # root, f # full))"
| "common_walk root full = (root, full)"

definition path_text :: "string list \<Rightarrow> string" where
  "path_text cs = concat (map (\<lambda>c. CHR ''/'' # c) cs)"

datatype static_answer = Forbidden | Root_unavailable | Not_found | Content "string list" bytes

definition static_answer :: "static_kernel \<Rightarrow> string \<Rightarrow> static_answer" where
  "static_answer k path =
     (if path = [] \<or> hd path \<noteq> CHR ''/'' \<or> length path > 1 \<and> path ! 1 = CHR ''/'' \<or> CHR 0x00 \<in> set path
      then Forbidden
      else if list_ex (\<lambda>c. c = ''.'' \<or> c = ''..'') (relative_path path) then Forbidden
      else case sv_root k of None \<Rightarrow> Root_unavailable
      | Some root \<Rightarrow>
        (case sv_canonical k (root @ relative_path path) of None \<Rightarrow> Not_found
         | Some full \<Rightarrow>
           if \<not> sv_regular k full then Not_found
           else if fst (common_walk root full) \<noteq> [] then Forbidden
           else let data = read_file (sv_open k full) (sv_complete k full) max_file_bytes
             in if data = [] then Not_found else Content full data))"

definition serve_static :: "static_kernel \<Rightarrow> reply list \<Rightarrow> string \<Rightarrow> bytes" where
  "serve_static k rs path =
     (case static_answer k path of
        Forbidden \<Rightarrow> send_response rs 403 ''Forbidden'' ''text/plain'' ''no'' []
      | Root_unavailable \<Rightarrow> send_response rs 500 ''Internal Server Error'' ''text/plain'' ''webroot unavailable'' []
      | Not_found \<Rightarrow> send_response rs 404 ''Not Found'' ''text/plain'' ''not found'' []
      | Content full data \<Rightarrow> send_response rs 200 ''OK'' (mime_for (path_text full)) data [])"

lemma common_walk_root: "fst (common_walk root full) = [] \<Longrightarrow> \<exists>rest. full = root @ rest"
  by (induction root full rule: common_walk.induct) (auto split: if_splits)

lemma path_split_no_slash: "CHR ''/'' \<notin> set acc \<Longrightarrow> c \<in> set (path_split acc s) \<Longrightarrow> CHR ''/'' \<notin> set c \<and> c \<noteq> []"
  by (induction acc s rule: path_split.induct) (auto split: if_splits)

text \<open>Content is served only from a regular file whose resolved path lies under the resolved web
  root, whatever the links and the request path; it is that file's whole content, not empty and at most
  64 MiB, and the request named it by plain components.  Every other request is answered without
  content.\<close>

lemma static_confined:
  "(case static_answer k path of
      Content full data \<Rightarrow>
        \<exists>root rest. sv_root k = Some root \<and> full = root @ rest \<and> sv_regular k full \<and> sv_open k full = Some data \<and>
          0 < length data \<and> length data \<le> max_file_bytes \<and>
          sv_canonical k (root @ relative_path path) = Some full \<and>
          list_all (\<lambda>c. c \<noteq> [] \<and> c \<noteq> ''.'' \<and> c \<noteq> ''..'' \<and> CHR ''/'' \<notin> set c) (relative_path path)
    | _ \<Rightarrow> \<exists>status txt body. serve_static k rs path = send_response rs status txt ''text/plain'' body [] \<and>
        body \<in> {''no'', ''webroot unavailable'', ''not found''} \<and> status \<in> {403, 404, 500})"
proof (cases "static_answer k path")
  case (Content full data)
  then obtain root where r: "sv_root k = Some root" "sv_canonical k (root @ relative_path path) = Some full"
    "sv_regular k full" "fst (common_walk root full) = []"
    and c: "data = read_file (sv_open k full) (sv_complete k full) max_file_bytes" "data \<noteq> []"
    and p: "\<not> list_ex (\<lambda>c. c = ''.'' \<or> c = ''..'') (relative_path path)"
    by (auto simp: static_answer_def Let_def split: if_splits option.splits)
  from common_walk_root [OF r(4)] obtain rest where "full = root @ rest" by blast
  moreover have "sv_open k full = Some data" "length data \<le> max_file_bytes"
    using c by (auto simp: read_file_def split: option.splits if_splits)
  moreover have "c \<noteq> [] \<and> CHR ''/'' \<notin> set c" if "c \<in> set (relative_path path)" for c
    using that path_split_no_slash [of "[]" c] by (auto simp: relative_path_def split: if_splits)
  ultimately show ?thesis using r c(2) p by (auto simp: Content list_ex_iff list_all_iff)
qed (auto simp: serve_static_def)

end
