(* ===== verification/TaskRecord.thy ===== *)
theory TaskRecord
  imports Text Sha256 "HOL-Library.Char_ord" "HOL-Library.List_Lexorder"
begin

text \<open>
  The persisted task record of \<^verbatim>\<open>tools/web/task_store.cpp\<close>: its validation, its text form with quoted
  strings and decimal counters, and the reader of that form.  \<^verbatim>\<open>std::map\<close> is the list of its pairs in
  the order of the keys.  A record that was encoded is decoded as it was; whatever is decoded is a
  valid record.
\<close>

section \<open>Parameters\<close>

type_synonym params = "(string \<times> string) list"

definition map_order :: "params \<Rightarrow> bool" where
  "map_order ps \<longleftrightarrow> sorted_wrt (<) (map fst ps)"

definition emplace :: "string \<Rightarrow> string \<Rightarrow> params \<Rightarrow> params option" where
  "emplace k v ps = (if k \<in> fst ` set ps then None else Some (insort_key fst (k, v) ps))"

text \<open>\<^verbatim>\<open>parameters[k] = v\<close>.\<close>

definition assign_param :: "string \<Rightarrow> string \<Rightarrow> params \<Rightarrow> params" where
  "assign_param k v ps = insort_key fst (k, v) (filter (\<lambda>p. fst p \<noteq> k) ps)"

section \<open>Records\<close>

record task_record =
  t_id :: string
  t_kind :: string
  t_name :: string
  t_state :: string
  t_stage :: string
  t_error :: string
  t_unit :: string
  t_result :: string
  t_phase :: string
  t_revision :: u64
  t_attempt :: u64
  t_created_ms :: u64
  t_updated_ms :: u64
  t_started_ms :: u64
  t_finished_ms :: u64
  t_progress_at_ms :: u64
  t_completed :: u64
  t_total :: u64
  t_params :: params

definition new_record :: task_record where
  "new_record = \<lparr>t_id = [], t_kind = [], t_name = [], t_state = ''queued'', t_stage = ''queued'', t_error = [],
     t_unit = [], t_result = [], t_phase = [], t_revision = 0, t_attempt = 1, t_created_ms = 0,
     t_updated_ms = 0, t_started_ms = 0, t_finished_ms = 0, t_progress_at_ms = 0, t_completed = 0,
     t_total = 0, t_params = []\<rparr>"

definition param :: "task_record \<Rightarrow> string \<Rightarrow> string option" where
  "param r k = map_of (t_params r) k"

definition id_char :: "char \<Rightarrow> bool" where
  "id_char c \<longleftrightarrow> is_alnum c \<or> c = CHR ''_'' \<or> c = CHR ''-''"

definition valid_id :: "string \<Rightarrow> bool" where
  "valid_id i \<longleftrightarrow> 8 \<le> length i \<and> length i \<le> 96 \<and> list_all id_char i"

fun require_all :: "(bool \<times> string) list \<Rightarrow> unit result" where
  "require_all [] = Inr ()"
| "require_all ((ok, message) # checks) = (if ok then require_all checks else Inl (Runtime_error message))"

definition task_text :: "string \<Rightarrow> bool" where
  "task_text s \<longleftrightarrow> length s \<le> 4096 \<and> CHR 0x00 \<notin> set s"

definition task_parameter :: "string \<times> string \<Rightarrow> bool" where
  "task_parameter p \<longleftrightarrow> fst p \<noteq> [] \<and> length (fst p) \<le> 64 \<and> length (snd p) \<le> 4096
     \<and> CHR 0x00 \<notin> set (fst p) \<and> CHR 0x00 \<notin> set (snd p)"

definition audio_kind :: "task_record \<Rightarrow> bool" where
  "audio_kind r \<longleftrightarrow> t_kind r = ''convert'' \<or> t_kind r = ''preprocess''"

definition task_kinds :: "string list" where
  "task_kinds = [''convert'', ''preprocess'', ''training'', ''step'']"

definition task_states :: "string list" where
  "task_states = [''preparing'', ''queued'', ''running'', ''pause_requested'', ''paused'', ''interrupted'',
     ''succeeded'', ''failed'', ''cancelled'']"

definition validate :: "task_record \<Rightarrow> unit result" where
  "validate r = require_all
     ([(valid_id (t_id r), ''invalid task ID''),
       (0 < t_attempt r \<and> t_attempt r \<le> 2147483647, ''invalid execution attempt''),
       (t_kind r \<in> set task_kinds, ''invalid task kind''),
       (t_state r \<in> set task_states, ''invalid task state'')]
      @ map (\<lambda>s. (task_text s, ''invalid task text''))
          [t_name r, t_stage r, t_error r, t_unit r, t_result r, t_phase r]
      @ [(t_result r = [] \<or> t_result r = ''work/result.wav'', ''invalid task result path''),
         (t_total r = 0 \<or> t_completed r \<le> t_total r, ''invalid task progress''),
         (length (t_params r) \<le> 64, ''too many task parameters''),
         (case param r ''retention'' of None \<Rightarrow> True
          | Some v \<Rightarrow> v = ''pruned-v1'' \<and> t_state r = ''succeeded'', ''invalid task retention state''),
         (case param r ''result_sha256'' of None \<Rightarrow> True
          | Some v \<Rightarrow> audio_kind r \<and> t_state r = ''succeeded'' \<and> length v = 64
              \<and> set v \<subseteq> set ''0123456789abcdef'', ''invalid completed audio digest''),
         (case param r ''source_task'' of None \<Rightarrow> True
          | Some v \<Rightarrow> valid_id v \<and> v \<noteq> t_id r \<and> audio_kind r, ''invalid source task'')]
      @ map (\<lambda>p. (task_parameter p, ''invalid task parameter'')) (t_params r))"

section \<open>Quoted strings and counters\<close>

text \<open>\<^verbatim>\<open>out << std::quoted(s)\<close> and \<^verbatim>\<open>in >> std::quoted(s)\<close>; a stream is what is left of it.\<close>

definition put_quoted :: "string \<Rightarrow> string" where
  "put_quoted s =
     CHR 0x22 # concat (map (\<lambda>c. if c = CHR 0x22 \<or> c = CHR 0x5C then [CHR 0x5C, c] else [c]) s) @ [CHR 0x22]"

fun quoted_rest :: "string \<Rightarrow> (string \<times> string) option" where
  "quoted_rest [] = None"
| "quoted_rest (c # t) =
     (if c = CHR 0x5C then
        case t of [] \<Rightarrow> None
        | d # u \<Rightarrow> map_option (\<lambda>(s, rest). (d # s, rest)) (quoted_rest u)
      else if c = CHR 0x22 then Some ([], t)
      else map_option (\<lambda>(s, rest). (c # s, rest)) (quoted_rest t))"

text \<open>\<^verbatim>\<open>in >> token\<close>.\<close>

definition get_token :: "string \<Rightarrow> (string \<times> string) option" where
  "get_token s =
     (let t = dropWhile is_space s
      in if t = [] then None
         else Some (takeWhile (\<lambda>c. \<not> is_space c) t, dropWhile (\<lambda>c. \<not> is_space c) t))"

definition get_quoted :: "string \<Rightarrow> (string \<times> string) option" where
  "get_quoted s =
     (case dropWhile is_space s of [] \<Rightarrow> None
      | c # t \<Rightarrow> if c = CHR 0x22 then quoted_rest t else get_token (c # t))"

text \<open>The lambda \<^verbatim>\<open>number\<close>; \<^verbatim>\<open>std::from_chars\<close> refuses what does not fit in 64 bits.\<close>

definition read_counter :: "string \<Rightarrow> (u64 \<times> string) result" where
  "read_counter s =
     (case get_token s of None \<Rightarrow> Inl (Runtime_error ''invalid task counter'')
      | Some (w, rest) \<Rightarrow>
          if length w > 20 \<or> \<not> list_all is_digit w then Inl (Runtime_error ''invalid task counter'')
          else if dec_value_from 0 w \<ge> 2 ^ 64 then Inl (Runtime_error ''task counter overflow'')
          else Inr (of_nat (dec_value_from 0 w), rest))"

fun read_counters :: "nat \<Rightarrow> string \<Rightarrow> (u64 list \<times> string) result" where
  "read_counters 0 s = Inr ([], s)"
| "read_counters (Suc n) s =
     (case read_counter s of Inl e \<Rightarrow> Inl e
      | Inr (v, t) \<Rightarrow>
          (case read_counters n t of Inl e \<Rightarrow> Inl e | Inr (vs, rest) \<Rightarrow> Inr (v # vs, rest)))"

fun read_strings :: "nat \<Rightarrow> string \<Rightarrow> (string list \<times> string) option" where
  "read_strings 0 s = Some ([], s)"
| "read_strings (Suc n) s =
     (case get_quoted s of None \<Rightarrow> None
      | Some (v, t) \<Rightarrow> map_option (\<lambda>(vs, rest). (v # vs, rest)) (read_strings n t))"

section \<open>The text form\<close>

definition header_v1 :: string where "header_v1 = ''RESONANTIA_TASK 1''"
definition header_v2 :: string where "header_v2 = ''RESONANTIA_TASK 2''"

definition max_record_bytes :: nat where "max_record_bytes = 65536"

definition to_string :: "u64 \<Rightarrow> string" where "to_string w = dec (unat w)"

definition record_strings :: "task_record \<Rightarrow> string list" where
  "record_strings r = [t_id r, t_kind r, t_name r, t_state r, t_stage r, t_error r, t_unit r, t_result r, t_phase r]"

definition record_counters :: "task_record \<Rightarrow> u64 list" where
  "record_counters r = [t_revision r, t_created_ms r, t_updated_ms r, t_started_ms r, t_finished_ms r,
     t_progress_at_ms r, t_completed r, t_total r]"

definition record_text :: "task_record \<Rightarrow> string" where
  "record_text r =
     header_v2 @ [CHR 0x0A]
     @ concat (map (\<lambda>s. put_quoted s @ [CHR 0x0A]) (record_strings r))
     @ concat (map (\<lambda>w. to_string w @ '' '') (record_counters r)) @ to_string (t_attempt r) @ [CHR 0x0A]
     @ dec (length (t_params r)) @ [CHR 0x0A]
     @ concat (map (\<lambda>(k, v). put_quoted k @ '' '' @ put_quoted v @ [CHR 0x0A]) (t_params r))"

definition encode :: "task_record \<Rightarrow> bytes result" where
  "encode r =
     (case validate r of Inl e \<Rightarrow> Inl e
      | Inr _ \<Rightarrow>
          if length (record_text r) \<le> max_record_bytes then Inr (record_text r)
          else Inl (Runtime_error ''task record exceeds limit''))"

fun read_params :: "nat \<Rightarrow> params \<Rightarrow> string \<Rightarrow> (params \<times> string) result" where
  "read_params 0 ps s = Inr (ps, s)"
| "read_params (Suc n) ps s =
     (case read_strings 2 s of
        Some ([k, v], t) \<Rightarrow>
          (case emplace k v ps of None \<Rightarrow> Inl (Runtime_error ''malformed task parameters'')
           | Some ps' \<Rightarrow> read_params n ps' t)
      | _ \<Rightarrow> Inl (Runtime_error ''malformed task parameters''))"

text \<open>The record of the strings and counters read; version 1 has no attempt.\<close>

definition record_of :: "string list \<Rightarrow> u64 list \<Rightarrow> params \<Rightarrow> task_record" where
  "record_of ss ws ps =
     \<lparr>t_id = ss ! 0, t_kind = ss ! 1, t_name = ss ! 2, t_state = ss ! 3, t_stage = ss ! 4, t_error = ss ! 5,
      t_unit = ss ! 6, t_result = ss ! 7, t_phase = ss ! 8, t_revision = ws ! 0,
      t_attempt = (if length ws = 9 then ws ! 8 else 1), t_created_ms = ws ! 1, t_updated_ms = ws ! 2,
      t_started_ms = ws ! 3, t_finished_ms = ws ! 4, t_progress_at_ms = ws ! 5, t_completed = ws ! 6,
      t_total = ws ! 7, t_params = ps\<rparr>"

definition decode :: "bytes \<Rightarrow> task_record result" where
  "decode b =
     (let header = takeWhile (\<lambda>c. c \<noteq> CHR 0x0A) b
      in if header \<noteq> header_v1 \<and> header \<noteq> header_v2 then Inl (Runtime_error ''unsupported task record version'')
         else
      case read_strings 9 (drop (Suc (length header)) b) of
        None \<Rightarrow> Inl (Runtime_error ''invalid task counter'')
      | Some (ss, s1) \<Rightarrow>
      case read_counters (if header = header_v2 then 9 else 8) s1 of Inl e \<Rightarrow> Inl e
      | Inr (ws, s2) \<Rightarrow>
      case read_counter s2 of Inl e \<Rightarrow> Inl e
      | Inr (count, s3) \<Rightarrow>
         if ws ! 0 = 0 \<or> 64 < count then Inl (Runtime_error ''malformed task record'')
         else
      case read_params (unat count) [] s3 of Inl e \<Rightarrow> Inl e
      | Inr (ps, s4) \<Rightarrow>
         if dropWhile is_space s4 \<noteq> [] then Inl (Runtime_error ''trailing task record bytes'')
         else
      case validate (record_of ss ws ps) of Inl e \<Rightarrow> Inl e
      | Inr _ \<Rightarrow> Inr (record_of ss ws ps))"

section \<open>Reading what was written\<close>

lemma require_all_ok: "require_all cs = Inr u \<longleftrightarrow> (\<forall>(ok, m) \<in> set cs. ok)"
  by (induction cs) (auto split: if_splits)

lemma require_all_append:
  "require_all (cs @ ds) = (case require_all cs of Inl e \<Rightarrow> Inl e | Inr _ \<Rightarrow> require_all ds)"
  by (induction cs) auto

lemma map_order_Nil [simp]: "map_order []"
  by (simp add: map_order_def)

lemma map_order_distinct: "map_order ps \<Longrightarrow> distinct (map fst ps)"
  by (simp add: map_order_def strict_sorted_iff)

lemma insort_key_last:
  "\<forall>p \<in> set ps. fst p < k \<Longrightarrow> insort_key fst (k, v) ps = ps @ [(k, v)]"
  by (induction ps) auto

lemma emplace_last:
  "map_order (ps @ (k, v) # qs) \<Longrightarrow> emplace k v ps = Some (ps @ [(k, v)])"
proof -
  assume m: "map_order (ps @ (k, v) # qs)"
  then have less: "\<forall>p \<in> set ps. fst p < k" by (auto simp: map_order_def sorted_wrt_append)
  then have "k \<notin> fst ` set ps" by auto
  then show ?thesis by (simp add: emplace_def insort_key_last [OF less])
qed

lemma map_order_insort:
  "map_order ps \<Longrightarrow> k \<notin> fst ` set ps \<Longrightarrow> map_order (insort_key fst (k, v) ps)"
  by (simp add: map_order_def strict_sorted_iff sorted_insort_key distinct_insort_key)

lemma emplace_order: "emplace k v ps = Some qs \<Longrightarrow> map_order ps \<Longrightarrow> map_order qs"
  by (auto simp: emplace_def map_order_insort split: if_splits)

lemma assign_order: "map_order ps \<Longrightarrow> map_order (assign_param k v ps)"
  unfolding assign_param_def
  by (rule map_order_insort) (auto simp: map_order_def strict_sorted_iff sorted_filter distinct_map_filter)

lemma quoted_rest_put:
  "quoted_rest (concat (map (\<lambda>c. if c = CHR 0x22 \<or> c = CHR 0x5C then [CHR 0x5C, c] else [c]) s) @ CHR 0x22 # r)
     = Some (s, r)"
  by (induction s) auto

lemma space_simps [simp]: "is_space CHR 0x0A" "is_space CHR '' ''" "\<not> is_space CHR 0x22"
  by (simp_all add: is_space_def char_nat_def)

lemma get_quoted_put [codec]: "get_quoted (put_quoted s @ r) = Some (s, r)"
  using quoted_rest_put [of s r] by (simp add: get_quoted_def put_quoted_def)

lemma skip_space [codec]:
  "is_space c \<Longrightarrow> get_quoted (c # s) = get_quoted s"
  "is_space c \<Longrightarrow> get_token (c # s) = get_token s"
  "is_space c \<Longrightarrow> read_counter (c # s) = read_counter s"
  by (simp_all add: get_quoted_def get_token_def read_counter_def)

lemma digit_not_space: "is_digit c \<Longrightarrow> \<not> is_space c"
  by (auto simp: is_digit_def is_space_def char_nat_def)

lemma get_token_digits:
  assumes "ds \<noteq> []" and "\<forall>c \<in> set ds. is_digit c" and "is_space x"
  shows "get_token (ds @ x # r) = Some (ds, x # r)"
proof -
  have n: "\<forall>c \<in> set ds. \<not> is_space c" using assms(2) digit_not_space by blast
  then have "dropWhile is_space (ds @ x # r) = ds @ x # r" using assms(1) by (cases ds) auto
  moreover have "takeWhile (\<lambda>c. \<not> is_space c) (ds @ x # r) = ds" using n assms(3) by simp
  moreover have "dropWhile (\<lambda>c. \<not> is_space c) (ds @ x # r) = x # r" using n assms(3) by simp
  ultimately show ?thesis by (simp add: get_token_def)
qed

lemma read_counter_dec [codec]:
  assumes "n < 2 ^ 64" and "is_space x"
  shows "read_counter (dec n @ x # r) = Inr (of_nat n, x # r)"
proof -
  have "(2 :: nat) ^ 64 \<le> 10 ^ Suc 19" by simp
  with assms(1) have "length (dec n) \<le> Suc 19" by (intro length_dec_less) (rule less_le_trans)
  then show ?thesis
    using get_token_digits [OF dec_nonempty, of n x r] dec_digits [of _ n] assms
    by (simp add: read_counter_def list_all_iff)
qed

lemma read_counter_word [codec]:
  "is_space x \<Longrightarrow> read_counter (to_string w @ x # r) = Inr (w, x # r)"
  using read_counter_dec [of "unat w" x r] unsigned_less [of w] by (simp add: to_string_def)

lemma read_strings_put:
  "read_strings (length ss) (concat (map (\<lambda>s. put_quoted s @ [CHR 0x0A]) ss) @ r)
     = Some (ss, if ss = [] then r else CHR 0x0A # r)"
proof (induction ss)
  case (Cons s ss)
  then show ?case
  proof (cases ss)
    case (Cons s' ss')
    have skip: "read_strings (length ss) (CHR 0x0A # t) = read_strings (length ss) t" for t
      using Cons by (simp add: skip_space)
    show ?thesis using Cons.IH \<open>ss = s' # ss'\<close> by (simp add: get_quoted_put skip skip_space)
  qed (simp add: get_quoted_put)
qed simp

lemma read_counters_put:
  assumes "is_space x"
  shows "read_counters (Suc (length ws)) (concat (map (\<lambda>w. to_string w @ '' '') ws) @ to_string v @ x # r)
     = Inr (ws @ [v], x # r)"
proof (induction ws)
  case Nil
  show ?case using assms by (simp add: read_counter_word)
next
  case (Cons w ws)
  have skip: "read_counters (Suc n) (CHR '' '' # t) = read_counters (Suc n) t" for n t
    by (simp add: skip_space)
  show ?case using Cons.IH by (subst read_counters.simps) (simp add: read_counter_word skip del: read_counters.simps)
qed

lemma read_params_put:
  assumes "map_order (ps @ qs)" and "is_space x"
  shows "read_params (length qs) ps (x # concat (map (\<lambda>(k, v). put_quoted k @ '' '' @ put_quoted v @ [CHR 0x0A]) qs))
     = Inr (ps @ qs, [CHR 0x0A]) \<or> qs = []"
  using assms
proof (induction qs arbitrary: ps x)
  case (Cons p qs)
  obtain k v where p: "p = (k, v)" by (cases p)
  have e: "emplace k v ps = Some (ps @ [(k, v)])" using Cons.prems(1) by (simp add: p emplace_last)
  have one: "read_strings 2 (x # put_quoted k @ CHR '' '' # put_quoted v @ t) = Some ([k, v], t)" for t
    using Cons.prems(2) by (simp add: numeral_2_eq_2 skip_space get_quoted_put)
  show ?case
  proof (cases qs)
    case Nil
    then show ?thesis by (simp add: p one e)
  next
    case (Cons q qs')
    have "read_params (length qs) (ps @ [p])
        (CHR 0x0A # concat (map (\<lambda>(k, v). put_quoted k @ '' '' @ put_quoted v @ [CHR 0x0A]) qs))
      = Inr ((ps @ [p]) @ qs, [CHR 0x0A]) \<or> qs = []"
      by (rule Cons.IH) (use Cons.prems in simp_all)
    then show ?thesis using Cons by (simp add: p one e)
  qed
qed simp

lemma encodeD:
  "encode r = Inr b \<Longrightarrow> validate r = Inr () \<and> b = record_text r \<and> length b \<le> max_record_bytes"
  by (auto simp: encode_def split: sum.splits if_splits)

lemma validateD:
  assumes "validate r = Inr ()"
  shows "valid_id (t_id r)" "0 < t_attempt r" "t_attempt r \<le> 2147483647" "t_kind r \<in> set task_kinds"
    "t_state r \<in> set task_states" "length (t_params r) \<le> 64" "\<forall>p \<in> set (t_params r). task_parameter p"
    "t_total r = 0 \<or> t_completed r \<le> t_total r" "t_result r = [] \<or> t_result r = ''work/result.wav''"
    "param r ''retention'' \<noteq> None \<Longrightarrow> t_state r = ''succeeded''"
  using assms unfolding validate_def require_all_ok by (auto simp: list_all_iff simp flip: require_all.simps)

lemma take_header: "takeWhile (\<lambda>c. c \<noteq> CHR 0x0A) (header_v2 @ CHR 0x0A # s) = header_v2"
  by (simp add: header_v2_def)

lemma nth_counters:
  "record_of (record_strings r) (record_counters r @ [t_attempt r]) (t_params r) = r"
  by (simp add: record_of_def record_strings_def record_counters_def nth_Cons' numeral_eq_Suc)

lemma decode_text:
  assumes v: "validate r = Inr ()" and o: "map_order (t_params r)" and nz: "t_revision r \<noteq> 0"
  shows "decode (record_text r) = Inr r"
proof -
  define ps where "ps = concat (map (\<lambda>(k, v). put_quoted k @ '' '' @ put_quoted v @ [CHR 0x0A]) (t_params r))"
  define cs where "cs = to_string (t_attempt r) @ CHR 0x0A # dec (length (t_params r)) @ CHR 0x0A # ps"
  define ns where "ns = concat (map (\<lambda>w. to_string w @ '' '') (record_counters r)) @ cs"
  define ss where "ss = concat (map (\<lambda>s. put_quoted s @ [CHR 0x0A]) (record_strings r)) @ ns"
  have t: "record_text r = header_v2 @ CHR 0x0A # ss"
    by (simp add: record_text_def ss_def ns_def cs_def ps_def)
  have l: "length (t_params r) \<le> 64" by (rule validateD [OF v])
  have nine: "length (record_strings r) = 9" "record_strings r \<noteq> []" by (simp_all add: record_strings_def)
  have strings: "read_strings 9 ss = Some (record_strings r, CHR 0x0A # ns)"
    using read_strings_put [of "record_strings r" ns] unfolding nine(1) ss_def by (simp only: nine(2) if_False)
  have counters: "read_counters 9 (CHR 0x0A # ns)
      = Inr (record_counters r @ [t_attempt r], CHR 0x0A # dec (length (t_params r)) @ CHR 0x0A # ps)"
  proof -
    have "read_counters 9 (CHR 0x0A # ns) = read_counters (Suc (length (record_counters r))) ns"
      by (simp add: record_counters_def eval_nat_numeral skip_space)
    then show ?thesis unfolding ns_def cs_def by (simp only: read_counters_put space_simps)
  qed
  have count: "read_counter (CHR 0x0A # dec (length (t_params r)) @ CHR 0x0A # ps)
      = Inr (of_nat (length (t_params r)), CHR 0x0A # ps)"
    using l by (simp add: skip_space read_counter_dec)
  have un: "unat (of_nat (length (t_params r)) :: u64) = length (t_params r)"
    using l by (simp add: unat_of_nat take_bit_nat_eq_self)
  then have le: "\<not> 64 < (of_nat (length (t_params r)) :: u64)" using l by (simp add: word_less_nat_alt)
  have params: "read_params (length (t_params r)) [] (CHR 0x0A # ps) = Inr (t_params r, [CHR 0x0A])"
  proof (cases "t_params r = []")
    case True
    then show ?thesis by (simp add: ps_def)
  next
    case False
    then show ?thesis using read_params_put [of "[]" "t_params r" "CHR 0x0A"] o by (simp add: ps_def)
  qed
  have first: "(record_counters r @ [t_attempt r]) ! 0 \<noteq> 0" using nz by (simp add: record_counters_def)
  show ?thesis
    unfolding t decode_def Let_def take_header
    using strings counters count le params first v by (simp add: un nth_counters)
qed

lemma decodeD:
  assumes "decode b = Inr r"
  shows "validate r = Inr ()" "map_order (t_params r)" "t_revision r \<noteq> 0"
proof -
  have order: "map_order qs" if "read_params n ps s = Inr (qs, u)" and "map_order ps" for n ps s qs u
    using that
  proof (induction n arbitrary: ps s)
    case (Suc n)
    then show ?case by (auto split: option.splits list.splits) (blast intro: emplace_order)
  qed simp
  show "validate r = Inr ()" "map_order (t_params r)" "t_revision r \<noteq> 0"
    using assms order [OF _ map_order_Nil]
    by (auto simp: decode_def Let_def record_of_def split: if_splits option.splits sum.splits prod.splits)
qed

section \<open>The round trip\<close>

definition sample_record :: task_record where
  "sample_record = new_record\<lparr>t_id := ''task-0001'', t_kind := ''convert'', t_name := ''a \"b\" c'', t_revision := 1,
     t_params := [(''recovery'', ''audio-v1'')]\<rparr>"

lemma sample_simps [simp]:
  "t_id sample_record = ''task-0001''" "t_revision sample_record = 1" "t_state sample_record = ''queued''"
  "t_params sample_record = [(''recovery'', ''audio-v1'')]" "t_attempt sample_record = 1"
  by (simp_all add: sample_record_def new_record_def)

lemma sample_valid_id [simp]: "valid_id ''task-0001''"
  by (simp add: valid_id_def id_char_def is_alnum_def is_lower_def is_digit_def char_nat_def)

lemma sample_order [simp]: "map_order [(''recovery'', ''audio-v1'')]"
  by (simp add: map_order_def)

lemma sample_valid: "validate (sample_record\<lparr>t_revision := v\<rparr>) = Inr ()"
  by (simp add: validate_def require_all_ok sample_record_def new_record_def task_kinds_def task_states_def
      task_text_def task_parameter_def param_def)

lemma length_to_string: "length (to_string w) \<le> 20"
proof -
  have "unat w < 2 ^ 64" using unsigned_less [of w] by simp
  moreover have "(2 :: nat) ^ 64 \<le> 10 ^ Suc 19" by simp
  ultimately have "unat w < 10 ^ Suc 19" by (rule less_le_trans)
  then have "length (dec (unat w)) \<le> Suc 19" by (rule length_dec_less)
  then show ?thesis by (simp add: to_string_def)
qed

lemma sample_encodes: "encode (sample_record\<lparr>t_revision := v\<rparr>) = Inr (record_text (sample_record\<lparr>t_revision := v\<rparr>))"
proof -
  have "length (dec (Suc 0)) = 1" by (simp add: dec.simps)
  then have "length (record_text (sample_record\<lparr>t_revision := v\<rparr>)) \<le> 500"
    using length_to_string [of v]
    by (simp add: record_text_def record_strings_def record_counters_def sample_record_def new_record_def put_quoted_def
        header_v2_def to_string_def dec.simps)
  then show ?thesis by (simp add: encode_def sample_valid max_record_bytes_def)
qed

text \<open>C24: A record that is written is read back as it was, whatever its texts and parameters hold, and
  a record that is read passed every check of the writer: its strings, counters, order of parameters
  and revision, so it can be saved again.\<close>

theorem record_roundtrip:
  assumes "encode r = Inr b" and "map_order (t_params r)" and "t_revision r \<noteq> 0"
  shows "decode b = Inr r
    \<and> (\<forall>c q. decode c = Inr q \<longrightarrow> validate q = Inr () \<and> map_order (t_params q) \<and> t_revision q \<noteq> 0)"
  using decode_text [of r] encodeD [OF assms(1)] assms(2,3) decodeD by simp

theorem record_roundtrip_witness:
  "decode (record_text sample_record) = Inr sample_record"
  using record_roundtrip [OF sample_encodes [of 1]] by (simp add: sample_record_def new_record_def)

end
