(* ===== verification/JobText.thy ===== *)
theory JobText
  imports WebText TaskRecord
begin

text \<open>
  The texts of the job service: display names and the names of training outputs, the progress messages
  of the worker programs (\<^verbatim>\<open>tools/app_support/progress_protocol.h\<close>), and the table of routes of
  \<^verbatim>\<open>tools/web/web_service.cpp\<close>.  A display name is accepted exactly when it is the UTF-8 of code points
  without controls; a progress message that was written is read back; the table of allowed methods
  names exactly the requests that have a handler.
\<close>

section \<open>Names\<close>

definition display_name :: "task_record \<Rightarrow> string" where
  "display_name r = (case param r ''display_name'' of None \<Rightarrow> t_name r | Some n \<Rightarrow> n)"

definition pitch_preview_task :: "task_record \<Rightarrow> bool" where
  "pitch_preview_task r \<longleftrightarrow> param r ''recovery'' = Some ''audio-pitch-preview-v1''"

definition mixed_result :: "task_record \<Rightarrow> bool" where
  "mixed_result r \<longleftrightarrow> t_kind r = ''convert'' \<and> param r ''output_kind'' = Some ''mix''"

function display_loop :: "string \<Rightarrow> bool" where
  "display_loop [] = True"
| "display_loop (c # s) =
     (if char_nat c < 0x80 then \<not> (char_nat c < 0x20 \<or> char_nat c = 0x7f) \<and> display_loop s
      else let width = utf8_width (char_nat c) in
        if width = 0 \<or> width > Suc (length s) then False
        else case continuation (char_nat c AND drop_bit width 0x7f) (take (width - 1) s) of None \<Rightarrow> False
        | Some cp \<Rightarrow>
            if width = 3 \<and> cp < 0x800 \<or> width = 4 \<and> cp < 0x10000 \<or> 0xd800 \<le> cp \<and> cp \<le> 0xdfff \<or> cp > 0x10ffff
              \<or> 0x80 \<le> cp \<and> cp \<le> 0x9f then False
            else display_loop (drop (width - 1) s))"
  by pat_completeness auto
termination by (relation "measure length") auto

definition valid_display_name :: "string \<Rightarrow> bool" where
  "valid_display_name n \<longleftrightarrow> \<not> (n = [] \<or> length n > 255) \<and> display_loop n"

definition candidate_name :: "string \<Rightarrow> bool" where
  "candidate_name n \<longleftrightarrow> length n = 38 \<and> starts_with n ''candidate_epoch_'' \<and> ends_with n ''.safetensors''
     \<and> list_all is_digit (take 10 (drop 16 n))"

definition checkpoint_name :: "string \<Rightarrow> bool" where
  "checkpoint_name n \<longleftrightarrow> length n = 33 \<and> starts_with n ''state_step_'' \<and> ends_with n ''.safetensors''
     \<and> list_all is_digit (take 10 (drop 11 n))"

text \<open>
  \<^verbatim>\<open>latest_full_checkpoint\<close>: the regular files that are not empty, by name in the order of the directory.
\<close>

fun latest_checkpoint :: "(string \<times> bool) list \<Rightarrow> string option \<Rightarrow> string option" where
  "latest_checkpoint [] latest = latest"
| "latest_checkpoint ((n, whole) # es) latest =
     latest_checkpoint es
       (if checkpoint_name n \<and> whole \<and> (case latest of None \<Rightarrow> True | Some m \<Rightarrow> m < n) then Some n else latest)"

section \<open>Progress messages\<close>

record progress =
  p_phase :: string
  p_unit :: string
  p_completed :: u64
  p_total :: u64

definition valid_phase :: "string \<Rightarrow> bool" where
  "valid_phase p \<longleftrightarrow> p \<noteq> [] \<and> length p \<le> 48 \<and> is_lower (hd p)
     \<and> list_all (\<lambda>c. is_lower c \<or> is_digit c \<or> c = CHR ''-'' \<or> c = CHR ''_'') p"

definition valid_unit :: "string \<Rightarrow> bool" where
  "valid_unit u \<longleftrightarrow> u \<in> set [''unknown'', ''files'', ''chunks'', ''steps'', ''samples16k'', ''frames100hz'']"

definition progress_prefix :: string where "progress_prefix = ''RESONANTIA_PROGRESS''"

definition invalid_progress :: exn where
  "invalid_progress = Invalid_argument ''invalid structured operation progress''"

text \<open>The loop over the six words: five end at a space, the last is the rest and holds none.\<close>

fun progress_words :: "nat \<Rightarrow> string \<Rightarrow> string list option" where
  "progress_words 0 line = (if CHR '' '' \<in> set line then None else Some [line])"
| "progress_words (Suc n) line =
     (case find_char CHR '' '' line of None \<Rightarrow> None
      | Some i \<Rightarrow> map_option (\<lambda>ws. take i line # ws) (progress_words n (drop (Suc i) line)))"

definition progress_number :: "string \<Rightarrow> u64 option" where
  "progress_number w =
     (if w = [] \<or> length w > 20 \<or> \<not> list_all is_digit w \<or> dec_value_from 0 w \<ge> 2 ^ 64 then None
      else Some (of_nat (dec_value_from 0 w)))"

fun progress_of_words :: "string list \<Rightarrow> progress option result" where
  "progress_of_words [w0, w1, phase, done_text, total_text, unit_text] =
     (if w0 \<noteq> progress_prefix \<or> w1 \<noteq> ''1'' \<or> \<not> valid_phase phase \<or> \<not> valid_unit unit_text then Inl invalid_progress
      else case progress_number done_text of None \<Rightarrow> Inl invalid_progress
      | Some reached \<Rightarrow>
      case progress_number total_text of None \<Rightarrow> Inl invalid_progress
      | Some whole \<Rightarrow>
          if whole < reached then Inl invalid_progress
          else Inr (Some \<lparr>p_phase = phase, p_unit = unit_text, p_completed = reached, p_total = whole\<rparr>))"
| "progress_of_words _ = Inl invalid_progress"

definition parse_progress :: "string \<Rightarrow> progress option result" where
  "parse_progress line =
     (if \<not> starts_with line progress_prefix then Inr None
      else if length line > 192 \<or> (\<exists>c \<in> set line. c = CHR 0x0D \<or> c = CHR 0x0A \<or> c = CHR 0x09) then Inl invalid_progress
      else case progress_words 5 line of None \<Rightarrow> Inl invalid_progress | Some ws \<Rightarrow> progress_of_words ws)"

text \<open>The message without its line end; \<open>ok\<close> is the state of the stream after it.\<close>

definition write_progress :: "bool \<Rightarrow> progress \<Rightarrow> string result" where
  "write_progress ok p =
     (if \<not> valid_phase (p_phase p) \<or> \<not> valid_unit (p_unit p) \<or> p_total p < p_completed p
      then Inl (Invalid_argument ''invalid operation progress'')
      else if \<not> ok then Inl (Runtime_error ''operation progress write failed'')
      else Inr (progress_prefix @ '' 1 '' @ p_phase p @ '' '' @ to_string (p_completed p) @ '' ''
             @ to_string (p_total p) @ '' '' @ p_unit p))"

section \<open>Routes\<close>

datatype route =
    Pitch_report | Pitch_preview | Task_rename | Task_queries | Storage_report | Task_control
  | Training_runs | Publish_candidate | Voices | Separation_models | Training_status | Cancel_training
  | Start_training | Store_material | Run_step | Preview | Preprocess_audio | Convert_audio
  | Wrong_method string | Unknown_api | Static_file | Not_get

definition allowed_api_method :: "string \<Rightarrow> string option" where
  "allowed_api_method p =
     (if p = ''/api/task/pitch'' then Some ''GET''
      else if p = ''/api/tasks/pitch-preview'' then Some ''POST''
      else if p = ''/api/task/rename'' then Some ''POST''
      else if p \<in> set [''/api/tasks'', ''/api/task'', ''/api/task/log'', ''/api/task/result'', ''/api/task/source''] then Some ''GET''
      else if p \<in> set [''/api/train/runs'', ''/api/storage''] then Some ''GET''
      else if p \<in> set [''/api/task/pause'', ''/api/task/resume'', ''/api/task/cleanup''] then Some ''POST''
      else if p \<in> set [''/api/train/publish'', ''/api/tasks/convert'', ''/api/tasks/preprocess''] then Some ''POST''
      else if p \<in> set [''/api/voices'', ''/api/sep-models'', ''/api/train/status'', ''/api/preview''] then Some ''GET''
      else if p \<in> set [''/api/train'', ''/api/train/cancel'', ''/api/material'', ''/api/step'', ''/api/preprocess'', ''/api/convert'']
      then Some ''POST''
      else None)"

definition route_request :: "string \<Rightarrow> string \<Rightarrow> route" where
  "route_request method p =
     (if method = ''GET'' \<and> p = ''/api/task/pitch'' then Pitch_report
      else if method = ''POST'' \<and> p = ''/api/tasks/pitch-preview'' then Pitch_preview
      else if method = ''POST'' \<and> p = ''/api/task/rename'' then Task_rename
      else if method = ''GET'' \<and> p \<in> set [''/api/tasks'', ''/api/task'', ''/api/task/log'', ''/api/task/result'', ''/api/task/source'']
      then Task_queries
      else if method = ''GET'' \<and> p = ''/api/storage'' then Storage_report
      else if method = ''POST'' \<and> p \<in> set [''/api/task/pause'', ''/api/task/resume'', ''/api/task/cleanup''] then Task_control
      else if method = ''GET'' \<and> p = ''/api/train/runs'' then Training_runs
      else if method = ''POST'' \<and> p = ''/api/train/publish'' then Publish_candidate
      else if method = ''GET'' \<and> p = ''/api/voices'' then Voices
      else if method = ''GET'' \<and> p = ''/api/sep-models'' then Separation_models
      else if method = ''GET'' \<and> p = ''/api/train/status'' then Training_status
      else if method = ''POST'' \<and> p = ''/api/train/cancel'' then Cancel_training
      else if method = ''POST'' \<and> p = ''/api/train'' then Start_training
      else if method = ''POST'' \<and> p = ''/api/material'' then Store_material
      else if method = ''POST'' \<and> p = ''/api/step'' then Run_step
      else if method = ''GET'' \<and> p = ''/api/preview'' then Preview
      else if method = ''POST'' \<and> p = ''/api/preprocess'' then Preprocess_audio
      else if method = ''POST'' \<and> p \<in> set [''/api/convert'', ''/api/tasks/convert'', ''/api/tasks/preprocess''] then Convert_audio
      else if starts_with p ''/api/'' then
        (case allowed_api_method p of Some m \<Rightarrow> Wrong_method m | None \<Rightarrow> Unknown_api)
      else if method = ''GET'' then Static_file
      else Not_get)"

definition handled :: "route \<Rightarrow> bool" where
  "handled r \<longleftrightarrow> (\<forall>m. r \<noteq> Wrong_method m) \<and> r \<noteq> Unknown_api \<and> r \<noteq> Static_file \<and> r \<noteq> Not_get"

definition api_paths :: "string list" where
  "api_paths = [''/api/task/pitch'', ''/api/tasks/pitch-preview'', ''/api/task/rename'', ''/api/tasks'', ''/api/task'',
     ''/api/task/log'', ''/api/task/result'', ''/api/task/source'', ''/api/train/runs'', ''/api/storage'', ''/api/task/pause'',
     ''/api/task/resume'', ''/api/task/cleanup'', ''/api/train/publish'', ''/api/tasks/convert'', ''/api/tasks/preprocess'',
     ''/api/voices'', ''/api/sep-models'', ''/api/train/status'', ''/api/preview'', ''/api/train'', ''/api/train/cancel'',
     ''/api/material'', ''/api/step'', ''/api/preprocess'', ''/api/convert'']"

lemma allowed_paths: "allowed_api_method p \<noteq> None \<longleftrightarrow> p \<in> set api_paths"
  unfolding allowed_api_method_def api_paths_def by simp

lemma known_route:
  "list_all (\<lambda>p. (case allowed_api_method p of None \<Rightarrow> False
     | Some m \<Rightarrow> handled (route_request m p)
         \<and> (\<forall>method. method \<noteq> m \<longrightarrow> route_request method p = Wrong_method m))) api_paths"
  by (simp add: api_paths_def allowed_api_method_def route_request_def handled_def starts_with_def)

lemma unknown_route:
  "allowed_api_method p = None \<Longrightarrow>
     route_request method p = (if starts_with p ''/api/'' then Unknown_api else if method = ''GET'' then Static_file else Not_get)"
  by (auto simp: allowed_api_method_def route_request_def split: if_splits)

section \<open>Display names are UTF-8\<close>

text \<open>What a display name may hold: Unicode scalar values that are not controls.\<close>

definition display_point :: "nat \<Rightarrow> bool" where
  "display_point cp \<longleftrightarrow> is_scalar cp \<and> \<not> cp < 0x20 \<and> \<not> (0x7f \<le> cp \<and> cp \<le> 0x9f)"

lemma and_c0: "b < 256 \<Longrightarrow> (b AND 0xc0 = 0x80) = (0x80 \<le> b \<and> b < (0xc0 :: nat))"
proof -
  assume b: "b < 256"
  have "b AND push_bit 6 (mask 2) = push_bit 6 (take_bit 2 (drop_bit 6 b))"
    by (rule bit_eqI) (auto simp: bit_simps)
  then have "b AND 0xc0 = (b div 64 mod 4) * 64"
    by (simp add: mask_eq_exp_minus_1 push_bit_eq_mult take_bit_eq_mod drop_bit_eq_div)
  moreover have "b div 64 < 4" using b by simp
  ultimately have "(b AND 0xc0 = 0x80) = (b div 64 = 2)" by simp
  also have "\<dots> = (0x80 \<le> b \<and> b < 0xc0)" by linarith
  finally show ?thesis .
qed

lemma char_nat_less [simp]: "char_nat c < 256"
  by (simp add: char_nat_def)

lemma char_of_char_nat [simp]: "char_of (char_nat c) = c"
  by (simp add: char_nat_def)

lemma masks: "x AND 31 = (x mod 32 :: nat)" "x AND 15 = (x mod 16 :: nat)" "x AND 7 = (x mod 8 :: nat)"
  using take_bit_eq_mask [of 5 x] take_bit_eq_mask [of 4 x] take_bit_eq_mask [of 3 x]
  by (simp_all add: mask_eq_exp_minus_1 take_bit_eq_mod)

lemma six_more: "push_bit 6 cp OR (b AND 63) = cp * 64 + b mod (64 :: nat)"
  using or_disjoint [of "b mod 64" 6 cp] by (simp add: low_six push_bit_eq_mult)

lemma continuation_cons:
  "continuation cp (c # s) =
     (if 0x80 \<le> char_nat c \<and> char_nat c < 0xc0 then continuation (cp * 64 + char_nat c mod 64) s else None)"
  using and_c0 [OF char_nat_less [of c]] by (simp add: six_more)

lemma block_mod: "x = q * m + k \<Longrightarrow> k < m \<Longrightarrow> x mod m = (k :: nat)"
  by simp

lemma block_div: "x = q * m + k \<Longrightarrow> k < m \<Longrightarrow> x div m = (q :: nat)"
  by simp

definition sequence_ok :: "char \<Rightarrow> string \<Rightarrow> nat \<Rightarrow> bool" where
  "sequence_ok c u cp \<longleftrightarrow> utf8_width (char_nat c) = Suc (length u) \<and> u \<noteq> []
     \<and> continuation (char_nat c AND drop_bit (Suc (length u)) 0x7f) u = Some cp
     \<and> \<not> (length u = 2 \<and> cp < 0x800 \<or> length u = 3 \<and> cp < 0x10000 \<or> 0xd800 \<le> cp \<and> cp \<le> 0xdfff \<or> cp > 0x10ffff)"

lemma sequence_utf8:
  assumes "sequence_ok c u cp"
  shows "utf8 cp = Some (c # u) \<and> 0x80 \<le> cp"
proof -
  have w: "utf8_width (char_nat c) = Suc (length u)" "u \<noteq> []" using assms by (simp_all add: sequence_ok_def)
  consider (two) x where "u = [x]" | (three) x y where "u = [x, y]" | (four) x y z where "u = [x, y, z]"
  proof -
    have "length u = 1 \<or> length u = 2 \<or> length u = 3" using w by (auto simp: utf8_width_def split: if_splits)
    then show ?thesis using that by (auto simp: length_Suc_conv numeral_eq_Suc)
  qed
  then show ?thesis
  proof cases
    case two
    have r: "0xc2 \<le> char_nat c" "char_nat c \<le> 0xdf" using w two by (auto simp: utf8_width_def split: if_splits)
    have b: "0x80 \<le> char_nat x" "char_nat x < 0xc0" and cp: "cp = char_nat c mod 32 * 64 + char_nat x mod 64"
      using assms two by (auto simp: sequence_ok_def continuation_cons masks simp del: continuation.simps(2) split: if_splits)
    obtain k i where k: "char_nat c = 0xc0 + k" "char_nat x = 0x80 + i"
      using r b that [of "char_nat c - 0xc0" "char_nat x - 0x80"] by simp
    then have lim: "2 \<le> k" "k < 32" "i < 64" using r b by simp_all
    have "char_nat c mod 32 = k" "char_nat x mod 64 = i" using k lim block_mod [of _ 6 32 k] block_mod [of _ 2 64 i] by simp_all
    with cp have e: "cp = k * 64 + i" by simp
    then have d: "cp div 64 = k" "cp mod 64 = i" using lim by simp_all
    have lt: "cp \<le> 0x7ff" "0x7f < cp" using e lim by simp_all
    have "char_of (0xc0 + k) = c" "char_of (0x80 + i) = x" unfolding k [symmetric] by simp_all
    then show ?thesis using lt d lim two
      by (simp add: utf8_def drop_bit_eq_div low_six lead_bits)
  next
    case three
    have r: "0xe0 \<le> char_nat c" "char_nat c \<le> 0xef" using w three by (auto simp: utf8_width_def split: if_splits)
    have b: "0x80 \<le> char_nat x" "char_nat x < 0xc0" "0x80 \<le> char_nat y" "char_nat y < 0xc0"
      and cp: "cp = (char_nat c mod 16 * 64 + char_nat x mod 64) * 64 + char_nat y mod 64"
      and lim: "0x800 \<le> cp" "\<not> (0xd800 \<le> cp \<and> cp \<le> 0xdfff)"
      using assms three by (auto simp: sequence_ok_def continuation_cons masks simp del: continuation.simps(2) split: if_splits)
    obtain k i j where k: "char_nat c = 0xe0 + k" "char_nat x = 0x80 + i" "char_nat y = 0x80 + j"
      using r b that [of "char_nat c - 0xe0" "char_nat x - 0x80" "char_nat y - 0x80"] by simp
    then have small: "k < 16" "i < 64" "j < 64" using r b by simp_all
    have "char_nat c mod 16 = k" "char_nat x mod 64 = i" "char_nat y mod 64 = j" using k small block_mod [of _ 14 16 k] block_mod [of _ 2 64 i] block_mod [of _ 2 64 j] by simp_all
    with cp have e: "cp = (k * 64 + i) * 64 + j" by simp
    note d6 = block_div [OF e small(3)] block_mod [OF e small(3)]
    have d: "cp div 64 mod 64 = i" "cp div 4096 = k"
      using block_div [OF d6(1) small(2)] block_mod [OF d6(1) small(2)] div_mult2_eq [of cp 64 64] by simp_all
    have lt: "cp \<le> 0xffff" using e small by simp
    have "char_of (0xe0 + k) = c" "char_of (0x80 + i) = x" "char_of (0x80 + j) = y" unfolding k [symmetric] by simp_all
    then show ?thesis using lt d d6(2) lim small three
      by (simp add: utf8_def drop_bit_eq_div low_six lead_bits)
  next
    case four
    have r: "0xf0 \<le> char_nat c" "char_nat c \<le> 0xf4" using w four by (auto simp: utf8_width_def split: if_splits)
    have b: "0x80 \<le> char_nat x" "char_nat x < 0xc0" "0x80 \<le> char_nat y" "char_nat y < 0xc0" "0x80 \<le> char_nat z" "char_nat z < 0xc0"
      and cp: "cp = ((char_nat c mod 8 * 64 + char_nat x mod 64) * 64 + char_nat y mod 64) * 64 + char_nat z mod 64"
      and lim: "0x10000 \<le> cp" "cp \<le> 0x10ffff"
      using assms four by (auto simp: sequence_ok_def continuation_cons masks simp del: continuation.simps(2) split: if_splits)
    obtain k i j l where k: "char_nat c = 0xf0 + k" "char_nat x = 0x80 + i" "char_nat y = 0x80 + j" "char_nat z = 0x80 + l"
      using r b that [of "char_nat c - 0xf0" "char_nat x - 0x80" "char_nat y - 0x80" "char_nat z - 0x80"] by simp
    then have small: "k < 8" "i < 64" "j < 64" "l < 64" using r b by simp_all
    have "char_nat c mod 8 = k" "char_nat x mod 64 = i" "char_nat y mod 64 = j" "char_nat z mod 64 = l"
      using k small block_mod [of _ 30 8 k] block_mod [of _ 2 64 i] block_mod [of _ 2 64 j] block_mod [of _ 2 64 l] by simp_all
    with cp have e: "cp = ((k * 64 + i) * 64 + j) * 64 + l" by simp
    note d6 = block_div [OF e small(4)] block_mod [OF e small(4)]
    have d12: "cp div 64 mod 64 = j" "cp div 4096 = k * 64 + i"
      using block_div [OF d6(1) small(3)] block_mod [OF d6(1) small(3)] div_mult2_eq [of cp 64 64] by simp_all
    have d: "cp div 4096 mod 64 = i" "cp div 262144 = k"
      using block_div [OF d12(2) small(2)] block_mod [OF d12(2) small(2)] div_mult2_eq [of cp 4096 64] by simp_all
    have "char_of (0xf0 + k) = c" "char_of (0x80 + i) = x" "char_of (0x80 + j) = y" "char_of (0x80 + l) = z"
      unfolding k [symmetric] by simp_all
    then show ?thesis using d d12(1) d6(2) lim small four
      by (simp add: utf8_def drop_bit_eq_div low_six lead_bits)
  qed
qed

lemma char_nat_char_of: "n < 256 \<Longrightarrow> char_nat (char_of n) = n"
  by (simp add: char_nat_def)

lemma continuation_low:
  "i < 64 \<Longrightarrow> continuation cp (char_of (0x80 + i) # s) = continuation (cp * 64 + i) s"
  using block_mod [of "0x80 + i" 2 64 i] by (simp add: char_nat_char_of continuation_cons del: continuation.simps(2))

lemma lead_mod:
  "k < 32 \<Longrightarrow> (0xc0 + k) mod 32 = (k :: nat)" "l < 16 \<Longrightarrow> (0xe0 + l) mod 16 = (l :: nat)"
  "m < 8 \<Longrightarrow> (0xf0 + m) mod 8 = (m :: nat)"
  by (rule block_mod [of _ 6] block_mod [of _ 14] block_mod [of _ 30]; simp)+

lemma sequence_two: "2 \<le> k \<Longrightarrow> k < 32 \<Longrightarrow> i < 64 \<Longrightarrow> sequence_ok (char_of (0xc0 + k)) [char_of (0x80 + i)] (k * 64 + i)"
  using lead_mod(1) [of k]
  by (simp add: sequence_ok_def utf8_width_def char_nat_char_of continuation_low masks del: continuation.simps(2))

lemma sequence_three:
  "k < 16 \<Longrightarrow> i < 64 \<Longrightarrow> j < 64 \<Longrightarrow> cp = (k * 64 + i) * 64 + j \<Longrightarrow> 0x800 \<le> cp \<Longrightarrow> \<not> (0xd800 \<le> cp \<and> cp \<le> 0xdfff) \<Longrightarrow>
     sequence_ok (char_of (0xe0 + k)) [char_of (0x80 + i), char_of (0x80 + j)] cp"
  using lead_mod(2) [of k]
  by (simp add: sequence_ok_def utf8_width_def char_nat_char_of continuation_low masks del: continuation.simps(2))

lemma sequence_four:
  "k \<le> 4 \<Longrightarrow> i < 64 \<Longrightarrow> j < 64 \<Longrightarrow> l < 64 \<Longrightarrow> cp = ((k * 64 + i) * 64 + j) * 64 + l \<Longrightarrow> 0x10000 \<le> cp \<Longrightarrow> cp \<le> 0x10ffff \<Longrightarrow>
     sequence_ok (char_of (0xf0 + k)) [char_of (0x80 + i), char_of (0x80 + j), char_of (0x80 + l)] cp"
  using lead_mod(3) [of k]
  by (simp add: sequence_ok_def utf8_width_def char_nat_char_of continuation_low masks del: continuation.simps(2))

lemma utf8_sequence_ok:
  assumes "utf8 cp = Some (c # u)" and "0x80 \<le> cp"
  shows "sequence_ok c u cp"
proof -
  consider "cp \<le> 0x7ff" | "0x7ff < cp" "cp \<le> 0xffff" | "0xffff < cp" "cp \<le> 0x10ffff"
    using assms(1) by (force simp: utf8_def split: if_splits)
  then show ?thesis
  proof cases
    case 1
    have q: "2 \<le> cp div 64" "cp div 64 < 32" "cp mod 64 < 64" using 1 assms(2) by simp_all
    have "c = char_of (0xc0 + cp div 64)" "u = [char_of (0x80 + cp mod 64)]"
      using assms 1 q by (auto simp: utf8_def drop_bit_eq_div low_six lead_bits)
    then show ?thesis using sequence_two [OF q] by simp
  next
    case 2
    have q: "cp div 4096 < 16" "cp div 64 mod 64 < 64" "cp mod 64 < 64" using 2 by simp_all
    have cu: "c = char_of (0xe0 + cp div 4096)" "u = [char_of (0x80 + cp div 64 mod 64), char_of (0x80 + cp mod 64)]"
      and s: "\<not> (0xd800 \<le> cp \<and> cp \<le> 0xdfff)"
      using assms 2 q by (auto simp: utf8_def drop_bit_eq_div low_six lead_bits split: if_splits)
    have "cp = (cp div 4096 * 64 + cp div 64 mod 64) * 64 + cp mod 64"
      using div_mod_parts(1) [of cp] by (simp add: algebra_simps)
    from sequence_three [OF q this _ s] 2 show ?thesis unfolding cu by simp
  next
    case 3
    have q: "cp div 262144 \<le> 4" "cp div 4096 mod 64 < 64" "cp div 64 mod 64 < 64" "cp mod 64 < 64" using 3 by simp_all
    have cu: "c = char_of (0xf0 + cp div 262144)"
      "u = [char_of (0x80 + cp div 4096 mod 64), char_of (0x80 + cp div 64 mod 64), char_of (0x80 + cp mod 64)]"
      using assms 3 q by (auto simp: utf8_def drop_bit_eq_div low_six lead_bits split: if_splits)
    have "cp = ((cp div 262144 * 64 + cp div 4096 mod 64) * 64 + cp div 64 mod 64) * 64 + cp mod 64"
      using div_mod_parts(2) [of cp] by (simp add: algebra_simps)
    from sequence_four [OF q this] 3 show ?thesis unfolding cu by simp
  qed
qed

lemma utf8_length: "utf8 cp = Some u \<Longrightarrow> u \<noteq> []"
  by (auto simp: utf8_def split: if_splits)

lemma utf8_ascii: "utf8 cp = Some (c # u) \<Longrightarrow> char_nat c < 0x80 \<longleftrightarrow> cp < 0x80"
proof (cases "cp < 0x80")
  case False
  assume a: "utf8 cp = Some (c # u)"
  have "0x80 \<le> cp" using False by simp
  from utf8_sequence_ok [OF a this] show ?thesis using False by (auto simp: sequence_ok_def utf8_width_def split: if_splits)
qed (auto simp: utf8_def char_nat_char_of)

lemma display_step:
  "display_loop (c # s) = (\<exists>cp u t. utf8 cp = Some (c # u) \<and> s = u @ t \<and> display_point cp \<and> display_loop t)"
proof (cases "char_nat c < 0x80")
  case True
  have "utf8 (char_nat c) = Some [c]" using True by (simp add: utf8_def)
  moreover have "cp = char_nat c \<and> u = []" if "utf8 cp = Some (c # u)" for cp u
    using that True utf8_ascii [OF that] by (auto simp: utf8_def char_nat_char_of split: if_splits)
  moreover have "display_point (char_nat c) = (\<not> (char_nat c < 0x20 \<or> char_nat c = 0x7f))"
    using True by (auto simp: display_point_def is_scalar_def)
  ultimately have "(\<exists>cp u t. utf8 cp = Some (c # u) \<and> s = u @ t \<and> display_point cp \<and> display_loop t)
      = (\<not> (char_nat c < 0x20 \<or> char_nat c = 0x7f) \<and> display_loop s)" by (metis append_Nil)
  then show ?thesis using True by (simp only: display_loop.simps if_True)
next
  case False
  let ?w = "utf8_width (char_nat c)"
  show ?thesis
  proof
    assume d: "display_loop (c # s)"
    then obtain cp where w: "?w \<noteq> 0" "?w \<le> Suc (length s)"
      and cp: "continuation (char_nat c AND drop_bit ?w 0x7f) (take (?w - 1) s) = Some cp"
      "\<not> (?w = 3 \<and> cp < 0x800 \<or> ?w = 4 \<and> cp < 0x10000 \<or> 0xd800 \<le> cp \<and> cp \<le> 0xdfff \<or> cp > 0x10ffff)"
      "\<not> (0x80 \<le> cp \<and> cp \<le> 0x9f)" "display_loop (drop (?w - 1) s)"
      using False by (auto simp: Let_def split: if_splits option.splits)
    have two: "2 \<le> ?w" using w by (auto simp: utf8_width_def split: if_splits)
    have l: "Suc (length (take (?w - 1) s)) = ?w" using w by simp
    have "sequence_ok c (take (?w - 1) s) cp"
      unfolding sequence_ok_def l using two w cp l by auto
    from sequence_utf8 [OF this] have u: "utf8 cp = Some (c # take (?w - 1) s)" "0x80 \<le> cp" by simp_all
    moreover have "display_point cp" using u(2) cp by (simp add: display_point_def is_scalar_def)
    ultimately show "\<exists>cp u t. utf8 cp = Some (c # u) \<and> s = u @ t \<and> display_point cp \<and> display_loop t"
      using cp(4) by (intro exI [of _ cp] exI [of _ "take (?w - 1) s"] exI [of _ "drop (?w - 1) s"]) simp
  next
    assume "\<exists>cp u t. utf8 cp = Some (c # u) \<and> s = u @ t \<and> display_point cp \<and> display_loop t"
    then obtain cp u t where u: "utf8 cp = Some (c # u)" and s: "s = u @ t" and p: "display_point cp" and t: "display_loop t"
      by blast
    have ge: "0x80 \<le> cp" using utf8_ascii [OF u] False by simp
    note ok = utf8_sequence_ok [OF u ge]
    have w: "?w = Suc (length u)" "u \<noteq> []" using ok by (simp_all add: sequence_ok_def)
    have ts: "take (?w - 1) s = u" "drop (?w - 1) s = t" by (simp_all add: w s)
    have c: "continuation (char_nat c AND drop_bit ?w 0x7f) (take (?w - 1) s) = Some cp" using ok unfolding ts by (simp add: sequence_ok_def)
    have n: "\<not> (?w = 3 \<and> cp < 0x800 \<or> ?w = 4 \<and> cp < 0x10000 \<or> 0xd800 \<le> cp \<and> cp \<le> 0xdfff \<or> cp > 0x10ffff \<or> 0x80 \<le> cp \<and> cp \<le> 0x9f)"
      using ok p ge w(1) by (auto simp: sequence_ok_def display_point_def)
    have "\<not> (?w = 0 \<or> ?w > Suc (length s))" using w s by simp
    with False c n t show "display_loop (c # s)"
      by (simp only: display_loop.simps if_False Let_def option.case ts)
  qed
qed

lemma display_loop_points:
  "display_loop s \<longleftrightarrow> (\<exists>cps. s = concat (map (\<lambda>cp. the (utf8 cp)) cps) \<and> (\<forall>cp \<in> set cps. display_point cp))"
proof
  show "display_loop s \<Longrightarrow> \<exists>cps. s = concat (map (\<lambda>cp. the (utf8 cp)) cps) \<and> (\<forall>cp \<in> set cps. display_point cp)"
  proof (induction "length s" arbitrary: s rule: less_induct)
    case less
    show ?case
    proof (cases s)
      case Nil
      then show ?thesis by (intro exI [of _ "[]"]) simp
    next
      case (Cons c r)
      with less.prems obtain cp u t where u: "utf8 cp = Some (c # u)" "r = u @ t" "display_point cp" "display_loop t"
        unfolding Cons display_step by blast
      then have "length t < length s" using Cons by simp
      from less.hyps [OF this u(4)] obtain cps where
        "t = concat (map (\<lambda>cp. the (utf8 cp)) cps)" "\<forall>cp \<in> set cps. display_point cp" by blast
      then show ?thesis using u Cons by (intro exI [of _ "cp # cps"]) simp
    qed
  qed
next
  assume "\<exists>cps. s = concat (map (\<lambda>cp. the (utf8 cp)) cps) \<and> (\<forall>cp \<in> set cps. display_point cp)"
  then obtain cps where s: "s = concat (map (\<lambda>cp. the (utf8 cp)) cps)" and p: "\<forall>cp \<in> set cps. display_point cp" by blast
  from p show "display_loop s" unfolding s
  proof (induction cps)
    case (Cons cp cps)
    then have "is_scalar cp" by (simp add: display_point_def)
    then obtain v where v: "utf8 cp = Some v" using utf8_roundtrip [of cp] by (cases "utf8 cp") auto
    with utf8_length obtain c u where "v = c # u" by (cases v) auto
    with v Cons show ?case using display_step [of c "u @ concat (map (\<lambda>cp. the (utf8 cp)) cps)"] by auto
  qed simp
qed

section \<open>The properties\<close>

text \<open>C36: A name is accepted for display exactly when it is the UTF-8 encoding of Unicode scalar values
  without control characters and has one to 255 bytes; overlong forms, surrogates, truncated
  sequences and bytes outside UTF-8 are refused.\<close>

theorem display_names_utf8:
  "valid_display_name n \<longleftrightarrow> 1 \<le> length n \<and> length n \<le> 255
     \<and> (\<exists>cps. n = concat (map (\<lambda>cp. the (utf8 cp)) cps) \<and> (\<forall>cp \<in> set cps. display_point cp))"
  unfolding valid_display_name_def display_loop_points by (cases n) auto

theorem display_names_utf8_witness: "valid_display_name ''a b''"
proof -
  have "\<exists>cps. ''a b'' = concat (map (\<lambda>cp. the (utf8 cp)) cps) \<and> (\<forall>cp \<in> set cps. display_point cp)"
    by (intro exI [of _ "[97, 32, 98]"]) (simp add: utf8_def display_point_def is_scalar_def char_of_def bit_Suc_0_iff)
  then show ?thesis unfolding display_names_utf8 by simp
qed

lemma digit_words: "CHR '' '' \<notin> set (to_string w)" "list_all is_digit (to_string w)" "to_string w \<noteq> []"
proof -
  have d: "c \<in> set (to_string w) \<Longrightarrow> is_digit c" for c unfolding to_string_def by (rule dec_digits)
  moreover have "\<not> is_digit CHR '' ''" by (simp add: is_digit_def)
  ultimately show "CHR '' '' \<notin> set (to_string w)" by blast
  show "list_all is_digit (to_string w)" "to_string w \<noteq> []" using d by (simp_all add: list_all_iff to_string_def)
qed

lemma unat_u64: "unat (w :: u64) < 18446744073709551616"
proof -
  have "unat w < 2 ^ LENGTH(64)" by (rule unsigned_less)
  then show ?thesis by simp
qed

lemma progress_number_to_string: "progress_number (to_string w) = Some w"
  using digit_words [of w] length_to_string [of w] unat_u64 [of w]
  by (simp add: progress_number_def to_string_def)

lemma progress_words_step:
  "CHR '' '' \<notin> set w \<Longrightarrow> progress_words (Suc n) (w @ CHR '' '' # s) = map_option ((#) w) (progress_words n s)"
  by (simp add: find_char_append)

lemma phase_chars: "valid_phase p \<Longrightarrow> c \<in> set p \<Longrightarrow> is_lower c \<or> is_digit c \<or> c = CHR ''-'' \<or> c = CHR ''_''"
  by (auto simp: valid_phase_def list_all_iff)

lemma plain_chars:
  "is_lower c \<or> is_digit c \<or> c = CHR ''-'' \<or> c = CHR ''_'' \<Longrightarrow> c \<noteq> CHR '' '' \<and> c \<noteq> CHR 0x0D \<and> c \<noteq> CHR 0x0A \<and> c \<noteq> CHR 0x09"
  by (auto simp: is_lower_def is_digit_def char_nat_def)

lemma unit_chars: "valid_unit u \<Longrightarrow> c \<in> set u \<Longrightarrow> c \<noteq> CHR '' '' \<and> c \<noteq> CHR 0x0D \<and> c \<noteq> CHR 0x0A \<and> c \<noteq> CHR 0x09"
  and unit_length: "valid_unit u \<Longrightarrow> length u \<le> 11"
  by (auto simp: valid_unit_def)

lemma progress_of_words_valid:
  "progress_of_words ws \<noteq> Inr None"
  "progress_of_words ws = Inr (Some q) \<Longrightarrow> p_completed q \<le> p_total q \<and> valid_phase (p_phase q) \<and> valid_unit (p_unit q)"
  by (induction ws rule: progress_of_words.induct) (auto split: option.splits if_splits)

text \<open>C35: A progress message a worker writes is read back by the service as it was, and the service
  accepts no message whose count is beyond its total or whose phase or unit is not a known form;
  lines that do not start with the prefix are left alone.\<close>

theorem progress_roundtrip:
  "(case write_progress ok p of Inl e \<Rightarrow> True | Inr line \<Rightarrow> parse_progress line = Inr (Some p))
   \<and> (case parse_progress text of Inr (Some q) \<Rightarrow> p_completed q \<le> p_total q \<and> valid_phase (p_phase q) \<and> valid_unit (p_unit q)
      | Inr None \<Rightarrow> \<not> starts_with text progress_prefix | Inl e \<Rightarrow> starts_with text progress_prefix)"
proof
  show "case write_progress ok p of Inl e \<Rightarrow> True | Inr line \<Rightarrow> parse_progress line = Inr (Some p)"
  proof (cases "write_progress ok p")
    case (Inr line)
    then have v: "valid_phase (p_phase p)" "valid_unit (p_unit p)" "\<not> p_total p < p_completed p"
      and line: "line = progress_prefix @ CHR '' '' # ''1'' @ CHR '' '' # p_phase p @ CHR '' '' # to_string (p_completed p)
          @ CHR '' '' # to_string (p_total p) @ CHR '' '' # p_unit p"
      by (auto simp: write_progress_def split: if_splits)
    have no_space: "CHR '' '' \<notin> set progress_prefix" "CHR '' '' \<notin> set ''1''" "CHR '' '' \<notin> set (p_phase p)" "CHR '' '' \<notin> set (p_unit p)"
      using phase_chars [OF v(1)] plain_chars unit_chars [OF v(2)] by (auto simp: progress_prefix_def)
    have five: "(5 :: nat) = Suc (Suc (Suc (Suc (Suc 0))))" by simp
    have words: "progress_words 5 line
        = Some [progress_prefix, ''1'', p_phase p, to_string (p_completed p), to_string (p_total p), p_unit p]"
      unfolding line five using no_space digit_words(1)
      by (simp only: progress_words_step option.map progress_words.simps(1) if_False simp_thms)
    have len: "\<not> length line > 192"
      using v(1) unit_length [OF v(2)] length_to_string [of "p_completed p"] length_to_string [of "p_total p"]
      by (simp add: line valid_phase_def progress_prefix_def)
    have plain: "\<not> (\<exists>c \<in> set line. c = CHR 0x0D \<or> c = CHR 0x0A \<or> c = CHR 0x09)"
    proof -
      have "\<forall>c \<in> set (to_string w). c \<noteq> CHR 0x0D \<and> c \<noteq> CHR 0x0A \<and> c \<noteq> CHR 0x09" for w
        using digit_words(2) [of w] plain_chars unfolding list_all_iff by blast
      moreover have "\<forall>c \<in> set (p_phase p). c \<noteq> CHR 0x0D \<and> c \<noteq> CHR 0x0A \<and> c \<noteq> CHR 0x09"
        using phase_chars [OF v(1)] plain_chars by blast
      moreover have "\<forall>c \<in> set (p_unit p). c \<noteq> CHR 0x0D \<and> c \<noteq> CHR 0x0A \<and> c \<noteq> CHR 0x09"
        using unit_chars [OF v(2)] by blast
      moreover have "\<forall>c \<in> set progress_prefix. c \<noteq> CHR 0x0D \<and> c \<noteq> CHR 0x0A \<and> c \<noteq> CHR 0x09"
        by (simp add: progress_prefix_def)
      ultimately show ?thesis unfolding line by (simp add: ball_Un)
    qed
    have start: "starts_with line progress_prefix" by (simp add: line)
    have "parse_progress line = Inr (Some p)"
      unfolding parse_progress_def words using start len plain v by (simp add: progress_number_to_string)
    then show ?thesis by (simp add: Inr)
  qed simp
  show "case parse_progress text of Inr (Some q) \<Rightarrow> p_completed q \<le> p_total q \<and> valid_phase (p_phase q) \<and> valid_unit (p_unit q)
      | Inr None \<Rightarrow> \<not> starts_with text progress_prefix | Inl e \<Rightarrow> starts_with text progress_prefix"
    using progress_of_words_valid
    by (cases "progress_words 5 text") (auto simp: parse_progress_def split: sum.split option.split)
qed

text \<open>The table of allowed methods and the dispatch agree: a request of the service reaches a handler
  exactly when its method is the one the table names for its path; every other method on such a path
  is answered with that method, an unknown path of the service as unknown, and only other paths reach
  the static files.\<close>

lemma routes_agree:
  "(case allowed_api_method p of
      Some m \<Rightarrow> handled (route_request m p)
        \<and> route_request method p = (if method = m then route_request m p else Wrong_method m)
    | None \<Rightarrow> route_request method p
        = (if starts_with p ''/api/'' then Unknown_api else if method = ''GET'' then Static_file else Not_get))"
proof (cases "allowed_api_method p")
  case (Some m)
  then have "p \<in> set api_paths" using allowed_paths by blast
  with known_route Some show ?thesis by (auto simp: list_all_iff)
qed (use unknown_route in simp)

end
