(* ===== verification/TaskStore.thy ===== *)
theory TaskStore
  imports TaskRecord FileSystem "HOL-Library.AList" "HOL-Library.Product_Lexorder"
begin

text \<open>
  The task store of \<^verbatim>\<open>tools/web/task_store.cpp\<close>: a directory with one directory per task, which holds the
  record file.  Every operation takes what the kernel answers as a parameter; an operation that writes
  returns the states of the store's directory after each call, the last being the final one.
\<close>

section \<open>Directories and calls\<close>

text \<open>What the root holds under a name: a directory with its files, or something else.\<close>

datatype node = Dir entries | Other

type_synonym root = "(string \<times> node) list"

datatype task_call =
    Call_iterate
  | Call_status string
  | Call_open string
  | Call_stat string
  | Call_read string
  | Call_extra string \<comment> \<open>the read past the end does not return 0\<close>
  | Call_mkdir string
  | Call_sync_root string
  | Call_mkstemp string
  | Call_fcntl string
  | Call_write string
  | Call_fsync string
  | Call_close string
  | Call_rename string
  | Call_sync_dir string
  | Call_unlink string

record task_kernel =
  tk_fails :: "task_call \<Rightarrow> bool"
  tk_replies :: "task_call \<Rightarrow> reply list"
  tk_suffix :: "string \<Rightarrow> string" \<comment> \<open>what \<^verbatim>\<open>mkstemp\<close> chose for the task\<close>

definition task_calm :: task_kernel where
  "task_calm = \<lparr>tk_fails = (\<lambda>_. False), tk_replies = (\<lambda>_. []), tk_suffix = (\<lambda>_. ''aaaaaa'')\<rparr>"

definition record_name :: string where "record_name = ''record''"

definition temp_name :: "task_kernel \<Rightarrow> string \<Rightarrow> string" where
  "temp_name k i = ''record.tmp.'' @ tk_suffix k i"

section \<open>Reading\<close>

definition read_record :: "task_kernel \<Rightarrow> string \<Rightarrow> inode \<Rightarrow> task_record option result" where
  "read_record k i f =
     (if kind f \<noteq> Regular \<or> tk_fails k (Call_stat i) \<or> content f = [] \<or> length (content f) > max_record_bytes
      then Inl (Runtime_error ''invalid task record file'')
      else case transfer_in (tk_replies k (Call_read i)) (length (content f)) (content f) of
        None \<Rightarrow> Inl (Runtime_error ''incomplete task record'')
      | Some b \<Rightarrow>
          if tk_fails k (Call_extra i) then Inl (Runtime_error ''task record changed while reading'')
          else case decode b of Inl e \<Rightarrow> Inl e
          | Inr r \<Rightarrow>
              if t_id r = i then Inr (Some r) else Inl (Runtime_error ''task record identity mismatch''))"

definition read_locked :: "task_kernel \<Rightarrow> root \<Rightarrow> string \<Rightarrow> task_record option result" where
  "read_locked k root i =
     (if \<not> valid_id i then Inl (Runtime_error ''invalid task ID'')
      else if tk_fails k (Call_status i) then Inl (Runtime_error ''filesystem error'')
      else case map_of root i of None \<Rightarrow> Inr None
      | Some Other \<Rightarrow> Inl (Runtime_error ''task path is not a regular directory'')
      | Some (Dir es) \<Rightarrow>
          if tk_fails k (Call_open i) then Inl (Runtime_error ''invalid task record file'')
          else case map_of es record_name of None \<Rightarrow> Inr None
          | Some f \<Rightarrow> read_record k i f)"

definition get_task :: "task_kernel \<Rightarrow> root \<Rightarrow> string \<Rightarrow> task_record option result" where
  "get_task k root i = read_locked k root i"

definition scan_limit :: nat where "scan_limit = 16384"
definition history_limit :: nat where "history_limit = 4096"

fun scan_tasks :: "task_kernel \<Rightarrow> root \<Rightarrow> nat \<Rightarrow> task_record list \<Rightarrow> string list \<Rightarrow> task_record list result" where
  "scan_tasks k root scanned records [] = Inr records"
| "scan_tasks k root scanned records (n # names) =
     (if scan_limit < Suc scanned then Inl (Runtime_error ''task directory scan limit exceeded'')
      else if \<not> valid_id n then scan_tasks k root (Suc scanned) records names
      else case read_locked k root n of Inl e \<Rightarrow> Inl e
      | Inr found \<Rightarrow>
          (let records' = (case found of None \<Rightarrow> records | Some r \<Rightarrow> records @ [r])
           in if history_limit < length records' then Inl (Runtime_error ''task history capacity exceeded'')
              else scan_tasks k root (Suc scanned) records' names))"

text \<open>\<^verbatim>\<open>std::sort\<close>, newest first; the records of different directories have different ids.\<close>

definition newest_first :: "task_record list \<Rightarrow> task_record list" where
  "newest_first rs = rev (sort_key (\<lambda>r. (t_created_ms r, t_id r)) rs)"

definition list_locked :: "task_kernel \<Rightarrow> root \<Rightarrow> task_record list result" where
  "list_locked k root =
     (if tk_fails k Call_iterate then Inl (Runtime_error ''filesystem error'')
      else map_sum id newest_first (scan_tasks k root 0 [] (map fst root)))"

definition list_tasks :: "task_kernel \<Rightarrow> root \<Rightarrow> nat \<Rightarrow> nat \<Rightarrow> task_record list result" where
  "list_tasks k root offset limit =
     (if limit = 0 \<or> 100 < limit then Inl (Runtime_error ''invalid task page size'')
      else case list_locked k root of Inl e \<Rightarrow> Inl e
      | Inr rs \<Rightarrow>
          if length rs \<le> offset then Inr []
          else Inr (drop offset (take (offset + min limit (length rs - offset)) rs)))"

section \<open>Writing\<close>

definition drop_temp :: "task_kernel \<Rightarrow> string \<Rightarrow> entries \<Rightarrow> entries" where
  "drop_temp k i es = (if tk_fails k (Call_unlink i) then es else dir_remove (temp_name k i) es)"

text \<open>From the staged file on; \<open>es\<close> are the files before it was created.\<close>

definition write_staged :: "task_kernel \<Rightarrow> string \<Rightarrow> entries \<Rightarrow> bytes \<Rightarrow> entries list \<times> unit result" where
  "write_staged k i es b =
     (let tmp = temp_name k i;
          s0 = dir_put tmp (fresh_file []) es;
          staged = (\<lambda>v. dir_put tmp (fresh_file v) es)
      in if tk_fails k (Call_fcntl i)
         then ([s0, drop_temp k i s0], Inl (Runtime_error ''cannot secure task record descriptor''))
         else
      let (w, ok) = transfer_out (tk_replies k (Call_write i)) [] b;
          s1 = s0 # map staged w;
          undo = s1 @ [drop_temp k i (last s1)]
      in if \<not> ok then (undo, Inl (Runtime_error ''task record write failed''))
         else if tk_fails k (Call_fsync i) then (undo, Inl (Runtime_error ''task record sync failed''))
         else if tk_fails k (Call_close i) then (undo, Inl (Runtime_error ''task record close failed''))
         else if tk_fails k (Call_rename i) then (undo, Inl (Runtime_error ''task record publish failed''))
         else
      (s1 @ [dir_rename tmp record_name (last s1)],
       if tk_fails k (Call_sync_dir i) then Inl (Runtime_error ''task directory sync failed'') else Inr ()))"

definition task_files :: "root \<Rightarrow> string \<Rightarrow> entries" where
  "task_files root i = (case map_of root i of Some (Dir es) \<Rightarrow> es | _ \<Rightarrow> [])"

definition write_locked :: "task_kernel \<Rightarrow> root \<Rightarrow> task_record \<Rightarrow> root list \<times> unit result" where
  "write_locked k root r =
     (let i = t_id r in
      case encode r of Inl e \<Rightarrow> ([root], Inl e)
      | Inr b \<Rightarrow>
         if tk_fails k (Call_mkdir i) \<or> map_of root i = Some Other
         then ([root], Inl (Runtime_error ''filesystem error''))
         else
      let es = task_files root i;
          at = (\<lambda>fs. AList.update i (Dir fs) root)
      in if tk_fails k (Call_sync_root i) then ([root, at es], Inl (Runtime_error ''task directory sync failed''))
         else if tk_fails k (Call_mkstemp i) \<or> map_of es (temp_name k i) \<noteq> None
         then ([root, at es], Inl (Runtime_error ''cannot stage task record''))
         else
      let (states, result) = write_staged k i es b
      in (root # at es # map at states, result))"

section \<open>Compare and swap\<close>

definition retained :: "task_record list \<Rightarrow> nat" where
  "retained rs = length (filter (\<lambda>r. param r ''retention'' = None) rs)"

text \<open>
  The first kernel answers the calls on the task's own record, the second those of the listing.  The
  result holds the states, the caller's record and the value returned.
\<close>

definition save_task ::
  "task_kernel \<Rightarrow> task_kernel \<Rightarrow> nat \<Rightarrow> root \<Rightarrow> task_record \<Rightarrow> u64 \<Rightarrow> root list \<times> task_record \<times> bool result" where
  "save_task k l capacity root r expected =
     (case validate r of Inl e \<Rightarrow> ([root], r, Inl e)
      | Inr _ \<Rightarrow>
      if t_revision r \<noteq> expected then ([root], r, Inl (Runtime_error ''task revision mismatch''))
      else case read_locked k root (t_id r) of Inl e \<Rightarrow> ([root], r, Inl e)
      | Inr old \<Rightarrow>
      if (case old of Some p \<Rightarrow> t_revision p \<noteq> expected | None \<Rightarrow> expected \<noteq> 0) then ([root], r, Inr False)
      else case (if old = None then list_locked l root else Inr []) of Inl e \<Rightarrow> ([root], r, Inl e)
      | Inr records \<Rightarrow>
      if old = None \<and> (history_limit \<le> length records \<or> capacity \<le> retained records)
      then ([root], r, Inl Task_capacity)
      else if expected = - 1 then ([root], r, Inl (Runtime_error ''task revision overflow''))
      else
      let (states, result) = write_locked k root (r\<lparr>t_revision := expected + 1\<rparr>)
      in (states,
          (if is_ok result then r\<lparr>t_revision := expected + 1\<rparr> else r),
          map_sum id (\<lambda>_. True) result))"

section \<open>Recovery\<close>

definition active_states :: "string list" where
  "active_states = [''preparing'', ''queued'', ''running'', ''pause_requested'']"

definition restart_error :: string where
  "restart_error = ''Service restarted; explicit recovery is required.''"

definition interrupted :: "u64 \<Rightarrow> task_record \<Rightarrow> task_record" where
  "interrupted now r = r\<lparr>t_state := ''interrupted'', t_updated_ms := now, t_error := restart_error,
     t_revision := t_revision r + 1\<rparr>"

fun recover_loop :: "task_kernel \<Rightarrow> u64 \<Rightarrow> root \<Rightarrow> task_record list \<Rightarrow> root list \<times> nat result" where
  "recover_loop k now root [] = ([root], Inr 0)"
| "recover_loop k now root (r # rs) =
     (if t_state r \<notin> set active_states then recover_loop k now root rs
      else if t_revision r = - 1 then ([root], Inl (Runtime_error ''task revision overflow''))
      else
      let (states, result) = write_locked k root (interrupted now r)
      in case result of Inl e \<Rightarrow> (states, Inl e)
      | Inr _ \<Rightarrow>
          let (rest, count) = recover_loop k now (last states) rs
          in (states @ rest, map_sum id Suc count))"

definition recover_interrupted :: "task_kernel \<Rightarrow> root \<Rightarrow> u64 \<Rightarrow> root list \<times> nat result" where
  "recover_interrupted k root now =
     (case list_locked k root of Inl e \<Rightarrow> ([root], Inl e) | Inr rs \<Rightarrow> recover_loop k now root rs)"

section \<open>Opening\<close>

text \<open>
  The constructor: the configuration, the root directory and the lock file, which must be a regular
  file and locked by nobody else.  \<open>locked\<close> says that another service holds it.
\<close>

record store_host =
  host_root :: "node option"
  host_lock :: "inode option"
  host_locked :: bool
  host_mkdir_fails :: bool
  host_lock_fails :: bool

definition open_store :: "string \<Rightarrow> nat \<Rightarrow> store_host \<Rightarrow> nat result" where
  "open_store path capacity h =
     (if path = [] \<or> capacity = 0 \<or> 4096 < capacity then Inl (Runtime_error ''invalid task store configuration'')
      else if host_mkdir_fails h then Inl (Runtime_error ''filesystem error'')
      else if host_root h = Some Other then Inl (Runtime_error ''task path is not a regular directory'')
      else if host_lock_fails h \<or> (case host_lock h of None \<Rightarrow> False | Some f \<Rightarrow> kind f \<noteq> Regular)
      then Inl (Runtime_error ''cannot open task store lock'')
      else if host_locked h then Inl (Runtime_error ''task store already owned by another service'')
      else Inr capacity)"

end
