(* ===== verification/JobService.thy ===== *)
theory JobService
  imports JobText TaskStore ProcessRunner
begin

text \<open>
  The job service of \<^verbatim>\<open>tools/web/web_service.cpp\<close>: the one job it runs, its record in the task store, and
  every operation on them.  Each operation runs under the job's mutex and is one function of the
  service's state; what the kernel answers, the clock and the results of other components are arguments.
  A \<^verbatim>\<open>WorkflowError\<close> keeps its status and leaves out its text for the user; a handler answers with a
  status.
\<close>

section \<open>State\<close>

datatype job_kind = No_job | Step_job | Training_job | Conversion_job | Preprocess_job

record job =
  j_generation :: u64
  j_attempt :: u64
  j_id :: string
  j_kind :: job_kind
  j_cancel_requested :: bool
  j_pause_requested :: bool
  j_recoverable :: bool \<comment> \<open>\<^verbatim>\<open>recoverable_training\<close>\<close>
  j_notice :: string
  j_control_path :: string
  j_cancel_error :: bool
  j_channel :: bool \<comment> \<open>\<^verbatim>\<open>cancel_source\<close> is set\<close>
  j_cancelled :: bool
  j_name :: string
  j_stage :: string
  j_progress_saved :: nat
  j_running :: bool
  j_done :: bool
  j_error :: bool

record service =
  sv_tasks :: bool \<comment> \<open>a task store is configured\<close>
  sv_root :: root
  sv_capacity :: nat
  sv_failed :: bool \<comment> \<open>\<^verbatim>\<open>task_storage_failed_\<close>\<close>
  sv_instance :: string
  sv_job :: job

definition idle_job :: job where
  "idle_job = \<lparr>j_generation = 0, j_attempt = 1, j_id = [], j_kind = No_job, j_cancel_requested = False,
     j_pause_requested = False, j_recoverable = False, j_notice = [], j_control_path = [], j_cancel_error = False,
     j_channel = False, j_cancelled = False, j_name = [], j_stage = ''idle'', j_progress_saved = 0,
     j_running = False, j_done = False, j_error = False\<rparr>"

text \<open>
  What one operation meets: the kernel's answers to reading the record, to saving it and to the listing
  of a new task, the two clocks, and the outcome of \<^verbatim>\<open>snapshot_log\<close>.
\<close>

record job_env =
  e_get :: task_kernel
  e_save :: task_kernel
  e_list :: task_kernel
  e_now :: u64
  e_steady :: nat \<comment> \<open>the steady clock in milliseconds\<close>
  e_log :: "unit result"

definition store_get :: "job_env \<Rightarrow> service \<Rightarrow> string \<Rightarrow> task_record option result" where
  "store_get e s i = get_task (e_get e) (sv_root s) i"

definition store_save :: "job_env \<Rightarrow> service \<Rightarrow> task_record \<Rightarrow> service \<times> bool result" where
  "store_save e s r =
     (let (states, r', out) = save_task (e_save e) (e_list e) (sv_capacity s) (sv_root s) r (t_revision r)
      in (s\<lparr>sv_root := last states\<rparr>, out))"

text \<open>\<^verbatim>\<open>if(!save(...)) throw std::runtime_error(message)\<close>.\<close>

definition save_or_throw :: "job_env \<Rightarrow> service \<Rightarrow> task_record \<Rightarrow> string \<Rightarrow> service \<times> unit result" where
  "save_or_throw e s r message =
     (let (s', out) = store_save e s r
      in (s', case out of Inl x \<Rightarrow> Inl x | Inr True \<Rightarrow> Inr () | Inr False \<Rightarrow> Inl (Runtime_error message)))"

text \<open>\<^verbatim>\<open>catch(...) {task_storage_failed_=true; throw;}\<close>.\<close>

definition flag_failure :: "service \<times> 'a result \<Rightarrow> service \<times> 'a result" where
  "flag_failure p = (if is_ok (snd p) then p else ((fst p)\<lparr>sv_failed := True\<rparr>, snd p))"

abbreviation with_job :: "service \<Rightarrow> (job \<Rightarrow> job) \<Rightarrow> service" where
  "with_job s f \<equiv> s\<lparr>sv_job := f (sv_job s)\<rparr>"

section \<open>Persistence of the job\<close>

definition persisted_record :: "job_env \<Rightarrow> string \<Rightarrow> bool \<Rightarrow> job \<Rightarrow> task_record \<Rightarrow> task_record" where
  "persisted_record e state terminal j r =
     (let r1 = (if t_stage r \<noteq> j_stage j
                then r\<lparr>t_progress_at_ms := e_now e, t_phase := [], t_completed := 0, t_total := 0, t_unit := []\<rparr>
                else r);
          r2 = r1\<lparr>t_stage := j_stage j, t_state := state, t_updated_ms := e_now e\<rparr>;
          r3 = (if t_started_ms r2 = 0 \<and> state = ''running'' then r2\<lparr>t_started_ms := e_now e\<rparr> else r2)
      in if \<not> terminal then r3
         else let r4 = r3\<lparr>t_finished_ms := (if state = ''paused'' then 0 else e_now e)\<rparr>
              in if state = ''failed''
                 then r4\<lparr>t_error := ''Stage failed: '' @ t_stage r4 @ ''. See retained task log.''\<rparr> else r4)"

definition persist_job :: "job_env \<Rightarrow> string \<Rightarrow> bool \<Rightarrow> service \<Rightarrow> service \<times> unit result" where
  "persist_job e state terminal s =
     (if \<not> sv_tasks s then (s, Inr ())
      else if sv_failed s then (s, Inl (Runtime_error ''task storage unavailable''))
      else flag_failure
        (case store_get e s (j_id (sv_job s)) of Inl x \<Rightarrow> (s, Inl x)
         | Inr None \<Rightarrow> (s, Inl (Runtime_error ''task record missing''))
         | Inr (Some r) \<Rightarrow>
             (case (if terminal then e_log e else Inr ()) of Inl x \<Rightarrow> (s, Inl x)
              | Inr _ \<Rightarrow> save_or_throw e s (persisted_record e state terminal (sv_job s) r) ''task revision changed'')))"

definition persist_terminal :: "job_env \<Rightarrow> string \<Rightarrow> service \<Rightarrow> service" where
  "persist_terminal e state s = fst (persist_job e state True s)"

section \<open>Progress\<close>

definition progress_record :: "job_env \<Rightarrow> progress \<Rightarrow> task_record \<Rightarrow> task_record" where
  "progress_record e p r =
     r\<lparr>t_phase := p_phase p, t_unit := p_unit p, t_completed := p_completed p, t_total := p_total p,
       t_progress_at_ms := e_now e, t_updated_ms := e_now e\<rparr>"

text \<open>After \<^verbatim>\<open>guard_task_storage\<close>, which is an operation of its own.\<close>

definition observe_progress :: "job_env \<Rightarrow> u64 \<Rightarrow> progress \<Rightarrow> service \<Rightarrow> service \<times> unit result" where
  "observe_progress e generation p s =
     (if j_generation (sv_job s) \<noteq> generation \<or> \<not> j_running (sv_job s) then (s, Inr ())
      else if sv_failed s then (s, Inl (Runtime_error ''task progress storage unavailable''))
      else flag_failure
        (case store_get e s (j_id (sv_job s)) of Inl x \<Rightarrow> (s, Inl x)
         | Inr None \<Rightarrow> (s, Inl (Runtime_error ''task progress record missing''))
         | Inr (Some r) \<Rightarrow>
             (let changed = (t_phase r \<noteq> p_phase p \<or> t_unit r \<noteq> p_unit p \<or> t_total r \<noteq> p_total p)
              in if \<not> changed \<and> p_completed p < t_completed r
                 then (s, Inl (Runtime_error ''task progress moved backwards''))
                 else if \<not> changed \<and> p_completed p = t_completed r then (s, Inr ())
                 else if \<not> changed \<and> p_completed p \<noteq> p_total p \<and> e_steady e - j_progress_saved (sv_job s) < 1000
                 then (s, Inr ())
                 else
              let (s', out) = save_or_throw e s (progress_record e p r) ''task progress revision changed''
              in ((if is_ok out then with_job s' (\<lambda>j. j\<lparr>j_progress_saved := e_steady e\<rparr>) else s'), out))))"

section \<open>Reservation and the end of a job\<close>

record ticket =
  ti_generation :: u64
  ti_id :: string
  ti_attempt :: u64

definition kind_name :: "job_kind \<Rightarrow> string" where
  "kind_name k = (case k of Training_job \<Rightarrow> ''training'' | Conversion_job \<Rightarrow> ''convert''
     | Preprocess_job \<Rightarrow> ''preprocess'' | _ \<Rightarrow> ''step'')"

definition reserved_record :: "job_env \<Rightarrow> string \<Rightarrow> string \<Rightarrow> job_kind \<Rightarrow> task_record" where
  "reserved_record e i name jk =
     new_record\<lparr>t_id := i, t_name := name, t_kind := kind_name jk, t_created_ms := e_now e, t_updated_ms := e_now e\<rparr>"

definition reserved_job :: "ticket \<Rightarrow> string \<Rightarrow> job_kind \<Rightarrow> job \<Rightarrow> job" where
  "reserved_job t name jk j =
     j\<lparr>j_running := True, j_generation := ti_generation t, j_attempt := ti_attempt t, j_id := ti_id t, j_name := name,
       j_stage := ''queued'', j_kind := jk, j_done := False, j_error := False, j_cancel_requested := False,
       j_cancelled := False, j_pause_requested := False, j_control_path := [], j_recoverable := False,
       j_notice := [], j_cancel_error := False, j_channel := False\<rparr>"

text \<open>\<open>room\<close> is the answer of \<^verbatim>\<open>require_storage_room\<close>; \<^const>\<open>None\<close> is the returned false.\<close>

definition reserve_job ::
  "job_env \<Rightarrow> unit result \<Rightarrow> string \<Rightarrow> job_kind \<Rightarrow> string \<Rightarrow> service \<Rightarrow> service \<times> ticket option result" where
  "reserve_job e room name jk requested s =
     (let j = sv_job s in
      if j_running j then (s, Inr None)
      else case room of Inl x \<Rightarrow> (s, Inl x)
      | Inr _ \<Rightarrow>
      if j_generation j = - 1 then (s, Inl (Runtime_error ''job generation exhausted''))
      else
      let g = j_generation j + 1;
          t = \<lparr>ti_generation = g,
               ti_id = (if requested = [] then sv_instance s @ ''-'' @ to_string g else requested), ti_attempt = 1\<rparr>
      in if sv_failed s then (s, Inl (Runtime_error ''task storage unavailable''))
         else if \<not> sv_tasks s then (with_job s (reserved_job t name jk), Inr (Some t))
         else
      let (s', out) = store_save e s (reserved_record e (ti_id t) name jk)
      in case out of
           Inr True \<Rightarrow> (with_job s' (reserved_job t name jk), Inr (Some t))
         | Inr False \<Rightarrow> (s', Inr None)
         | Inl x \<Rightarrow> if x = Task_capacity then (s', Inl (Workflow_error 409)) else (s'\<lparr>sv_failed := True\<rparr>, Inl x))"

definition set_stage :: "job_env \<Rightarrow> u64 \<Rightarrow> string \<Rightarrow> service \<Rightarrow> service \<times> unit result" where
  "set_stage e generation stage s =
     (if j_generation (sv_job s) \<noteq> generation then (s, Inr ())
      else persist_job e
        (if j_pause_requested (sv_job s) then ''pause_requested'' else if stage = ''queued'' then ''queued'' else ''running'')
        False (with_job s (\<lambda>j. j\<lparr>j_stage := stage\<rparr>)))"

definition finish :: "job_env \<Rightarrow> u64 \<Rightarrow> string \<Rightarrow> bool \<Rightarrow> service \<Rightarrow> service" where
  "finish e generation stage error s =
     (if j_generation (sv_job s) \<noteq> generation then s
      else let s' = persist_terminal e (if error then ''failed'' else ''succeeded'') s
           in with_job s' (\<lambda>j. j\<lparr>j_stage := stage, j_error := (error \<or> sv_failed s'), j_done := True, j_running := False\<rparr>))"

datatype training_outcome = Training_done | Training_error | Training_cancelled | Training_paused

definition outcome_state :: "training_outcome \<Rightarrow> string" where
  "outcome_state c = (case c of Training_paused \<Rightarrow> ''paused'' | Training_cancelled \<Rightarrow> ''cancelled''
     | Training_error \<Rightarrow> ''failed'' | Training_done \<Rightarrow> ''succeeded'')"

definition finish_training :: "job_env \<Rightarrow> u64 \<Rightarrow> training_outcome \<Rightarrow> service \<Rightarrow> service" where
  "finish_training e generation outcome s =
     (if j_generation (sv_job s) \<noteq> generation \<or> j_kind (sv_job s) \<noteq> Training_job then s
      else
      let o1 = (if j_cancel_error (sv_job s) then Training_error else outcome);
          s' = persist_terminal e (outcome_state o1) s;
          o2 = (if sv_failed s' then Training_error else o1)
      in with_job s' (\<lambda>j. j\<lparr>j_cancelled := (o2 = Training_cancelled), j_error := (o2 = Training_error),
           j_stage := (if o2 = Training_paused then ''paused'' else if o2 = Training_cancelled then ''cancelled''
                       else if o2 = Training_error then ''error'' else ''done''),
           j_done := (o2 \<noteq> Training_paused), j_running := False\<rparr>))"

definition cancellation_requested :: "u64 \<Rightarrow> service \<Rightarrow> bool" where
  "cancellation_requested generation s \<longleftrightarrow> j_generation (sv_job s) \<noteq> generation \<or> j_cancel_requested (sv_job s)"

definition training_checkpoint :: "job_env \<Rightarrow> u64 \<Rightarrow> string \<Rightarrow> service \<Rightarrow> service \<times> bool result" where
  "training_checkpoint e generation stage s =
     (let j = sv_job s in
      if j_generation j \<noteq> generation \<or> j_cancel_requested j \<or> j_cancel_error j then (s, Inr False)
      else let (s', out) = persist_job e ''running'' False (with_job s (\<lambda>j. j\<lparr>j_stage := stage\<rparr>))
           in (s', map_sum id (\<lambda>_. True) out))"

text \<open>The lease of the control channel: registered by the worker, closed when it ends.\<close>

definition open_channel :: "string \<Rightarrow> service \<Rightarrow> service" where
  "open_channel token s = with_job s (\<lambda>j. j\<lparr>j_control_path := token, j_channel := True\<rparr>)"

text \<open>\<^verbatim>\<open>run_training\<close> registers its channel unless the job was cancelled in the meantime.\<close>

definition register_training_channel :: "u64 \<Rightarrow> service \<Rightarrow> service \<times> bool" where
  "register_training_channel generation s =
     (if cancellation_requested generation s then (s, False) else (with_job s (\<lambda>j. j\<lparr>j_channel := True\<rparr>), True))"

definition close_channel :: "u64 \<Rightarrow> bool \<Rightarrow> service \<Rightarrow> service" where
  "close_channel generation clean s =
     (if j_generation (sv_job s) \<noteq> generation then s
      else with_job s (\<lambda>j. j\<lparr>j_cancel_error := (j_cancel_error j \<or> \<not> clean), j_channel := False\<rparr>))"

section \<open>The stages of audio and recoverable training tasks\<close>

definition audio_boundary :: "job_env \<Rightarrow> u64 \<Rightarrow> string \<Rightarrow> service \<Rightarrow> service \<times> unit result" where
  "audio_boundary e generation stage s =
     (let j = sv_job s in
      if generation = 0 then (s, Inr ())
      else if j_generation j \<noteq> generation \<or> j_cancel_error j
      then (s, Inl (Runtime_error ''task control ownership or I/O failed''))
      else if j_pause_requested j \<or> j_recoverable j \<and> j_cancel_requested j then (s, Inl Operation_paused)
      else if stage = [] then (s, Inr ())
      else persist_job e ''running'' False (with_job s (\<lambda>j. j\<lparr>j_stage := stage\<rparr>)))"

text \<open>\<^verbatim>\<open>run_audio_process\<close>: exit code 2 is a pause only when one was asked for.\<close>

definition audio_process_result :: "u64 \<Rightarrow> process_result \<Rightarrow> service \<Rightarrow> bool result" where
  "audio_process_result generation r s =
     (let j = sv_job s in
      if pr_termination r = Exited \<and> pr_exit_code r = 2 \<and> pr_io_error r = 0 \<and> pr_system_error r = 0
        \<and> pr_signal r = 0 \<and> generation \<noteq> 0
        \<and> j_generation j = generation \<and> (j_pause_requested j \<or> j_recoverable j \<and> j_cancel_requested j) \<and> \<not> j_cancel_error j
      then Inl Operation_paused
      else Inr (success r))"

text \<open>\<^verbatim>\<open>parameters.insert\<close> keeps what is there; then some are assigned.\<close>

definition insert_params :: "(string \<times> string) list \<Rightarrow> params \<Rightarrow> params" where
  "insert_params kvs ps = fold (\<lambda>(k, v) qs. case emplace k v qs of None \<Rightarrow> qs | Some qs' \<Rightarrow> qs') kvs ps"

definition assign_params :: "(string \<times> string) list \<Rightarrow> params \<Rightarrow> params" where
  "assign_params kvs ps = fold (\<lambda>(k, v). assign_param k v) kvs ps"

text \<open>
  The recipe a handler keeps with the record it reserved (\<^verbatim>\<open>start_audio_task\<close>, \<^verbatim>\<open>handle_train\<close>,
  \<^verbatim>\<open>inherit_audio_stages\<close>).  A record that is gone would be dereferenced; the store never loses one.
\<close>

definition retain_recipe ::
  "job_env \<Rightarrow> string \<Rightarrow> (string \<times> string) list \<Rightarrow> (string \<times> string) list \<Rightarrow> string \<Rightarrow> service \<Rightarrow> service \<times> unit result" where
  "retain_recipe e i inserted assigned message s =
     (case store_get e s i of Inl x \<Rightarrow> (s, Inl x)
      | Inr None \<Rightarrow> (s, Inl (Runtime_error ''no record''))
      | Inr (Some r) \<Rightarrow>
          save_or_throw e s (r\<lparr>t_params := assign_params assigned (insert_params inserted (t_params r))\<rparr>) message)"

text \<open>The end of \<^verbatim>\<open>prepare_training_task\<close>.\<close>

definition retain_training :: "job_env \<Rightarrow> string \<Rightarrow> bool \<Rightarrow> service \<Rightarrow> service \<times> unit result" where
  "retain_training e i preprocessed s =
     (let (s', out) = retain_recipe e i []
        [(''recovery'', ''training-full-v1''), (''inputs_preprocessed'', if preprocessed then ''1'' else ''0'')]
        ''cannot retain fixed training recipe'' s
      in ((if is_ok out then with_job s' (\<lambda>j. j\<lparr>j_recoverable := True\<rparr>) else s'), out))"

definition finished_record ::
  "job_env \<Rightarrow> job \<Rightarrow> string \<Rightarrow> string \<Rightarrow> bool \<Rightarrow> string \<Rightarrow> task_record \<Rightarrow> task_record" where
  "finished_record e j result error paused digest r =
     (let failed = (j_cancel_error j \<or> error \<noteq> []);
          pause = (paused \<and> \<not> j_cancel_error j);
          r1 = r\<lparr>t_error := (if j_cancel_error j then ''pause control I/O failed''
                               else if pause \<and> \<not> failed then j_notice j else take 4096 error),
                 t_state := (if failed then ''failed'' else if pause then ''paused'' else ''succeeded''),
                 t_result := result\<rparr>;
          r2 = (if t_state r1 = ''succeeded'' then r1\<lparr>t_params := assign_param ''result_sha256'' digest (t_params r1)\<rparr> else r1)
      in r2\<lparr>t_updated_ms := e_now e, t_finished_ms := (if pause then 0 else e_now e)\<rparr>)"

text \<open>\<open>digest\<close> is \<^verbatim>\<open>sha256_file\<close> of the result, asked for when the task succeeded.\<close>

definition finish_audio_task ::
  "job_env \<Rightarrow> ticket \<Rightarrow> string \<Rightarrow> string \<Rightarrow> bool \<Rightarrow> string result \<Rightarrow> service \<Rightarrow> service" where
  "finish_audio_task e t result error paused digest s =
     (let j = sv_job s in
      if j_generation j \<noteq> ti_generation t then s
      else
      let (s', out) = flag_failure
        (case store_get e s (ti_id t) of Inl x \<Rightarrow> (s, Inl x)
         | Inr None \<Rightarrow> (s, Inl (Runtime_error ''missing audio task record''))
         | Inr (Some r) \<Rightarrow>
             (case e_log e of Inl x \<Rightarrow> (s, Inl x)
              | Inr _ \<Rightarrow>
             (case (if j_cancel_error j \<or> error \<noteq> [] \<or> paused then Inr [] else digest) of Inl x \<Rightarrow> (s, Inl x)
              | Inr d \<Rightarrow> save_or_throw e s (finished_record e j result error paused d r) ''cannot retain audio task result'')))
      in with_job s' (\<lambda>j. j\<lparr>j_done := True, j_error := (error \<noteq> [] \<or> j_cancel_error j \<or> sv_failed s'), j_running := False\<rparr>))"

end
