(* ===== verification/JobControl.thy ===== *)
theory JobControl
  imports JobService
begin

text \<open>
  The requests that act on tasks in \<^verbatim>\<open>tools/web/web_service.cpp\<close>: cancel, pause, resume, rename and
  clean up, the storage guard, the status of the job, and the start of the service.  A handler answers
  with the status of its response; what the control channel, the disk and the floating point reader
  answer are arguments.
\<close>

section \<open>Cancel\<close>

definition cancel_job :: "string \<Rightarrow> bool \<Rightarrow> service \<Rightarrow> service \<times> nat" where
  "cancel_job i delivered s =
     (let j = sv_job s in
      if j_id j = [] then (s, 404)
      else if i \<noteq> j_id j then (s, 409)
      else if j_kind j \<noteq> Training_job then (s, 409)
      else if j_recoverable j \<and> 1 < j_attempt j then (s, 409)
      else if j_cancelled j \<and> \<not> j_running j then (s, 200)
      else if \<not> j_running j \<or> j_stage j = ''publishing'' then (s, 409)
      else (with_job s (\<lambda>j. j\<lparr>j_cancel_requested := True\<rparr>),
            if j_channel j \<and> \<not> delivered then 500 else if j_cancel_requested j then 200 else 202))"

definition cancel_form :: "part list \<Rightarrow> string option" where
  "cancel_form parts =
     (case parts of [p] \<Rightarrow> if p_name p \<noteq> ''job_id'' \<or> p_filename p \<noteq> [] \<or> \<not> safe_name (p_data p) then None else Some (p_data p)
      | _ \<Rightarrow> None)"

definition handle_cancel_train :: "part list \<Rightarrow> bool \<Rightarrow> service \<Rightarrow> service \<times> nat" where
  "handle_cancel_train parts delivered s =
     (case cancel_form parts of None \<Rightarrow> (s, 400) | Some i \<Rightarrow> cancel_job i delivered s)"

section \<open>Pause\<close>

text \<open>The task and the attempt a control request names.\<close>

definition control_form :: "part list \<Rightarrow> (string \<times> u64) option" where
  "control_form parts =
     (let i = field_of parts ''id'' [] in
      if \<not> valid_id i then None
      else map_option (\<lambda>n. (i, word_of_int n)) (parse_int_field (field_of parts ''attempt'' []) 1 2147483647))"

definition audio_job :: "job \<Rightarrow> bool" where
  "audio_job j \<longleftrightarrow> j_kind j = Conversion_job \<or> j_kind j = Preprocess_job"

text \<open>
  The part under the lock: its status, and whether there is a channel to write to.  The channel is
  written after the lock is released; a failed delivery takes the lock again.
\<close>

definition pause_job :: "job_env \<Rightarrow> string \<Rightarrow> u64 \<Rightarrow> service \<Rightarrow> service \<times> nat \<times> bool" where
  "pause_job e i attempt s =
     (let j = sv_job s in
      if \<not> sv_tasks s then (s, 503, False)
      else if j_running j \<and> j_id j = i then
        (if j_attempt j \<noteq> attempt then (s, 409, False)
         else if \<not> audio_job j \<and> \<not> j_recoverable j \<or> j_stage j = ''saving'' \<or> j_stage j = ''publishing'' then (s, 409, False)
         else (fst (persist_job e ''pause_requested'' False (with_job s (\<lambda>j. j\<lparr>j_pause_requested := True\<rparr>))), 202, j_channel j))
      else if sv_failed s then (s, 503, False)
      else case store_get e s i of Inl x \<Rightarrow> (s, 503, False)
      | Inr None \<Rightarrow> (s, 404, False)
      | Inr (Some r) \<Rightarrow> (s, if t_attempt r \<noteq> attempt \<or> t_state r \<noteq> ''paused'' then 409 else 200, False))"

definition pause_undelivered :: "string \<Rightarrow> u64 \<Rightarrow> service \<Rightarrow> service" where
  "pause_undelivered i attempt s =
     (if j_id (sv_job s) = i \<and> j_attempt (sv_job s) = attempt then with_job s (\<lambda>j. j\<lparr>j_cancel_error := True\<rparr>) else s)"

section \<open>Resume\<close>

text \<open>Fields a saved plan needs, in the order they are read: \<^verbatim>\<open>map::at\<close> throws on a missing one.\<close>

fun check_fields :: "task_record \<Rightarrow> (string \<times> (string \<Rightarrow> bool)) list \<Rightarrow> unit result" where
  "check_fields r [] = Inr ()"
| "check_fields r ((k, ok) # checks) =
     (case param r k of None \<Rightarrow> Inl (Runtime_error ''map::at'')
      | Some v \<Rightarrow> if ok v then check_fields r checks else Inl (Workflow_error 409))"

text \<open>
  What \<^verbatim>\<open>parse_double_field\<close> accepts between 0 and a bound, and whether the end of a preview lies after
  its start by no more than 15 seconds.
\<close>

record reals =
  r_upto :: "string \<Rightarrow> nat \<Rightarrow> bool"
  r_preview :: "string \<Rightarrow> string \<Rightarrow> bool"

definition restore_audio_plan :: "reals \<Rightarrow> task_record \<Rightarrow> unit result" where
  "restore_audio_plan q r =
     (if \<not> audio_kind r \<or> param r ''recovery'' \<noteq> Some ''audio-v1'' \<and> \<not> pitch_preview_task r then Inl (Workflow_error 409)
      else case (if \<not> pitch_preview_task r then Inr ()
                 else check_fields r
                   [(''analysis_id'', \<lambda>_. True), (''preview_start'', \<lambda>v. r_upto q v 600), (''preview_end'', \<lambda>v. r_upto q v 600),
                    (''preview_end'', \<lambda>v. r_preview q (the (param r ''preview_start'')) v), (''analysis_id'', valid_digest)])
           of Inl x \<Rightarrow> Inl x
      | Inr _ \<Rightarrow>
      case check_fields r
        [(''voice'', \<lambda>_. True), (''workflow'', \<lambda>_. True), (''output_kind'', \<lambda>_. True), (''pitch_edits'', \<lambda>_. True),
         (''f0_up_key'', \<lambda>v. parse_int_field v (- 48) 48 \<noteq> None), (''filter_radius'', \<lambda>v. parse_int_field v 0 31 \<noteq> None),
         (''index_rate'', \<lambda>v. r_upto q v 1), (''rms_mix_rate'', \<lambda>v. r_upto q v 1), (''protect'', \<lambda>v. r_upto q v 1),
         (''pp_separate'', \<lambda>v. parse_bool_field v \<noteq> None), (''pp_deharmony'', \<lambda>v. parse_bool_field v \<noteq> None),
         (''pp_dereverb'', \<lambda>v. parse_bool_field v \<noteq> None), (''pp_deecho'', \<lambda>v. parse_bool_field v \<noteq> None),
         (''pp_denoise'', \<lambda>v. parse_bool_field v \<noteq> None)]
      of Inl x \<Rightarrow> Inl x
      | Inr _ \<Rightarrow>
         (let workflow = the (param r ''workflow''); output = the (param r ''output_kind'')
          in if workflow \<notin> set [''song'', ''harmonies'', ''dry'', ''manual''] \<or> output \<notin> set [''vocal'', ''mix'']
               \<or> output = ''mix'' \<and> workflow \<noteq> ''song''
             then Inl (Workflow_error 409) else Inr ()))"

definition resumed_record :: "job_env \<Rightarrow> u64 \<Rightarrow> task_record \<Rightarrow> task_record" where
  "resumed_record e attempt r =
     r\<lparr>t_attempt := t_attempt r + 1, t_params := assign_param ''resumed_from'' (to_string attempt) (t_params r),
       t_state := ''queued'', t_stage := ''queued'', t_phase := [], t_unit := [], t_completed := 0, t_total := 0,
       t_error := [], t_result := [], t_finished_ms := 0, t_updated_ms := e_now e, t_progress_at_ms := e_now e\<rparr>"

definition resumed_job :: "ticket \<Rightarrow> task_record \<Rightarrow> bool \<Rightarrow> job \<Rightarrow> job" where
  "resumed_job t r training j =
     j\<lparr>j_generation := ti_generation t, j_attempt := ti_attempt t, j_id := ti_id t, j_name := t_name r, j_stage := ''queued'',
       j_kind := (if training then Training_job else if t_kind r = ''preprocess'' then Preprocess_job else Conversion_job),
       j_recoverable := training, j_notice := [], j_done := False, j_error := False, j_cancel_requested := False,
       j_pause_requested := False, j_cancelled := False, j_cancel_error := False, j_channel := False,
       j_control_path := [], j_running := True\<rparr>"

definition full_training_task :: "task_record \<Rightarrow> bool" where
  "full_training_task r \<longleftrightarrow> t_kind r = ''training'' \<and> param r ''recovery'' = Some ''training-full-v1''"

definition workflow_status :: "exn \<Rightarrow> nat" where
  "workflow_status x = (case x of Workflow_error c \<Rightarrow> c | _ \<Rightarrow> 503)"

text \<open>
  The answer and the ticket of the execution to start; a second request for the same resumption is
  accepted without one.  A worker that cannot be started ends the job with the operations above.
\<close>

definition resume_job ::
  "job_env \<Rightarrow> reals \<Rightarrow> unit result \<Rightarrow> string \<Rightarrow> u64 \<Rightarrow> service \<Rightarrow> service \<times> nat \<times> ticket option" where
  "resume_job e q room i attempt s =
     (let j = sv_job s in
      if \<not> sv_tasks s \<or> sv_failed s then (s, 503, None)
      else case store_get e s i of Inl x \<Rightarrow> (s, 503, None)
      | Inr None \<Rightarrow> (s, 404, None)
      | Inr (Some r) \<Rightarrow>
      if t_attempt r = attempt + 1 \<and> param r ''resumed_from'' = Some (to_string attempt) then (s, 202, None)
      else if t_attempt r \<noteq> attempt then (s, 409, None)
      else if j_running j then (s, 409, None)
      else case room of Inl x \<Rightarrow> (s, workflow_status x, None)
      | Inr _ \<Rightarrow>
      let training = full_training_task r in
      if t_state r \<notin> set [''paused'', ''interrupted'', ''failed''] \<and> \<not> (training \<and> t_state r = ''cancelled'') then (s, 409, None)
      else case (if training then Inr () else restore_audio_plan q r) of Inl x \<Rightarrow> (s, workflow_status x, None)
      | Inr _ \<Rightarrow>
      if t_attempt r \<ge> 2147483647 \<or> j_generation j = - 1 then (s, 409, None)
      else
      let t = \<lparr>ti_generation = j_generation j + 1, ti_id = i, ti_attempt = t_attempt r + 1\<rparr>;
          (s', out) = save_or_throw e s (resumed_record e attempt r) ''resume revision changed''
      in case out of Inl x \<Rightarrow> (s'\<lparr>sv_failed := True\<rparr>, 503, None)
         | Inr _ \<Rightarrow> (with_job s' (resumed_job t r training), 202, Some t))"

section \<open>Rename and clean up\<close>

definition rename_task :: "job_env \<Rightarrow> string \<Rightarrow> string \<Rightarrow> string \<Rightarrow> service \<Rightarrow> service \<times> nat" where
  "rename_task e i name expected s =
     (if \<not> sv_tasks s \<or> sv_failed s then (s, 503)
      else case store_get e s i of Inl x \<Rightarrow> (s, 503)
      | Inr None \<Rightarrow> (s, 404)
      | Inr (Some r) \<Rightarrow>
          if display_name r = name then (s, 200)
          else if display_name r \<noteq> expected then (s, 409)
          else
          let (s', out) = store_save e s
            (r\<lparr>t_params := assign_param ''display_name'' name (t_params r), t_updated_ms := e_now e\<rparr>)
          in (s', case out of Inl x \<Rightarrow> 503 | Inr saved \<Rightarrow> if saved then 200 else 409))"

definition trim_spaces :: "string \<Rightarrow> string" where
  "trim_spaces s = rev (dropWhile (\<lambda>c. c = CHR '' '') (rev (dropWhile (\<lambda>c. c = CHR '' '') s)))"

definition rename_form :: "part list \<Rightarrow> bool" where
  "rename_form parts \<longleftrightarrow>
     valid_id (field_of parts ''id'' []) \<and> valid_display_name (trim_spaces (field_of parts ''name'' []))
     \<and> length (field_of parts ''expected_name'' []) \<le> 4096 \<and> length parts = 3
     \<and> list_all (\<lambda>p. p_filename p = [] \<and> p_name p \<in> set [''id'', ''name'', ''expected_name'']) parts
     \<and> list_all (\<lambda>p. length (filter (\<lambda>q. p_name q = p_name p) parts) = 1) parts"

definition handle_task_rename :: "job_env \<Rightarrow> part list \<Rightarrow> service \<Rightarrow> service \<times> nat" where
  "handle_task_rename e parts s =
     (if \<not> rename_form parts then (s, 400)
      else rename_task e (field_of parts ''id'' []) (trim_spaces (field_of parts ''name'' []))
        (field_of parts ''expected_name'' []) s)"

text \<open>\<open>pruned\<close> is the answer of \<^verbatim>\<open>prune_task_copies\<close>.\<close>

definition cleanup_task :: "job_env \<Rightarrow> string \<Rightarrow> u64 \<Rightarrow> unit result \<Rightarrow> service \<Rightarrow> service \<times> nat" where
  "cleanup_task e i attempt pruned s =
     (if \<not> sv_tasks s then (s, 503)
      else if j_running (sv_job s) then (s, 409)
      else case store_get e s i of Inl x \<Rightarrow> (s, 503)
      | Inr None \<Rightarrow> (s, 404)
      | Inr (Some r) \<Rightarrow>
          if t_attempt r \<noteq> attempt \<or> t_state r \<noteq> ''succeeded'' then (s, 409)
          else if param r ''retention'' \<noteq> None then (s, 200)
          else case pruned of Inl x \<Rightarrow> (s, workflow_status x)
          | Inr _ \<Rightarrow>
          let (s', out) = flag_failure (save_or_throw e s
            (r\<lparr>t_params := assign_param ''retention'' ''pruned-v1'' (t_params r), t_updated_ms := e_now e\<rparr>)
            ''cleanup revision changed'')
          in (s', if is_ok out then 200 else 503))"

section \<open>The storage guard\<close>

definition guard_wanted :: "bool \<Rightarrow> u64 \<Rightarrow> service \<Rightarrow> bool" where
  "guard_wanted enforce generation s \<longleftrightarrow>
     sv_tasks s \<and> enforce \<and> generation \<noteq> 0
     \<and> \<not> (j_generation (sv_job s) \<noteq> generation \<or> \<not> j_running (sv_job s) \<or> j_pause_requested (sv_job s)
          \<or> \<not> audio_job (sv_job s) \<and> \<not> j_recoverable (sv_job s))"

text \<open>
  The second part of \<^verbatim>\<open>guard_task_storage\<close>, for a reason found between the two locked parts; it
  returns whether there is a channel to write to.
\<close>

definition guard_pause :: "job_env \<Rightarrow> u64 \<Rightarrow> string \<Rightarrow> string \<Rightarrow> service \<Rightarrow> service \<times> bool result" where
  "guard_pause e generation i reason s =
     (let j = sv_job s in
      if j_generation j \<noteq> generation \<or> \<not> j_running j \<or> j_stage j = ''publishing'' \<or> j_stage j = ''saving'' then (s, Inr False)
      else
      let s1 = with_job s (\<lambda>j. j\<lparr>j_pause_requested := True, j_notice := reason\<rparr>);
          (s2, out) = flag_failure
            (case store_get e s1 i of Inl x \<Rightarrow> (s1, Inl x)
             | Inr None \<Rightarrow> (s1, Inl (Runtime_error ''storage guard task missing''))
             | Inr (Some r) \<Rightarrow> save_or_throw e s1 (r\<lparr>t_error := reason\<rparr>) ''storage guard revision changed'')
      in case out of Inl x \<Rightarrow> (s2, Inl x)
      | Inr _ \<Rightarrow>
      let (s3, out') = persist_job e ''pause_requested'' False s2
      in (s3, map_sum id (\<lambda>_. j_channel j) out'))"

definition guard_undelivered :: "u64 \<Rightarrow> service \<Rightarrow> service \<times> unit result" where
  "guard_undelivered generation s =
     (if j_generation (sv_job s) = generation then with_job s (\<lambda>j. j\<lparr>j_cancel_error := True\<rparr>) else s,
      Inl (Runtime_error ''storage protection pause delivery failed''))"

section \<open>Status\<close>

definition job_state_name :: "job \<Rightarrow> string" where
  "job_state_name j =
     (if \<not> j_running j then
        (if j_stage j = ''paused'' then ''paused'' else if j_cancelled j then ''cancelled'' else if j_error j then ''error''
         else if j_done j then ''done'' else ''idle'')
      else if j_cancel_requested j then ''cancel_requested'' else if j_stage j = ''queued'' then ''queued''
      else if j_stage j = ''publishing'' then ''publishing'' else ''running'')"

definition cancellable :: "job \<Rightarrow> bool" where
  "cancellable j \<longleftrightarrow> j_running j \<and> j_kind j = Training_job \<and> j_stage j \<noteq> ''publishing''"

section \<open>Start\<close>

definition needs_signal :: "task_record \<Rightarrow> bool" where
  "needs_signal r \<longleftrightarrow> t_state r = ''interrupted''
     \<and> (param r ''recovery'' = Some ''audio-v1'' \<or> param r ''recovery'' = Some ''training-full-v1'')"

definition signal_error :: string where
  "signal_error = ''Previous worker control channel could not be signalled; GPU ownership may still be held.''"

text \<open>\<open>signalled\<close> is the answer of \<^verbatim>\<open>stop_interrupted_execution\<close> for the record's channel.\<close>

fun signal_loop :: "job_env \<Rightarrow> (task_record \<Rightarrow> bool) \<Rightarrow> task_record list \<Rightarrow> service \<Rightarrow> service result" where
  "signal_loop e signalled [] s = Inr s"
| "signal_loop e signalled (r # rs) s =
     (if \<not> needs_signal r \<or> signalled r then signal_loop e signalled rs s
      else case save_or_throw e s (r\<lparr>t_error := signal_error\<rparr>) ''cannot retain interrupted control failure'' of
        (s', Inl x) \<Rightarrow> Inl x
      | (s', Inr _) \<Rightarrow> signal_loop e signalled rs s')"

text \<open>
  The constructor with a task store: the records another process left active are retired, and the
  pages of the listing are visited.  The store does not change but by the saves of the loop, which keep
  its order, so the pages are those of one listing.
\<close>

definition start_service ::
  "job_env \<Rightarrow> (task_record \<Rightarrow> bool) \<Rightarrow> string \<Rightarrow> nat \<Rightarrow> root \<Rightarrow> service result" where
  "start_service e signalled instance_id capacity root =
     (case recover_interrupted (e_save e) root (e_now e) of
        (states, Inl x) \<Rightarrow> Inl x
      | (states, Inr _) \<Rightarrow>
          (case list_locked (e_list e) (last states) of Inl x \<Rightarrow> Inl x
           | Inr rs \<Rightarrow> signal_loop e signalled rs
               \<lparr>sv_tasks = True, sv_root = last states, sv_capacity = capacity, sv_failed = False,
                sv_instance = instance_id, sv_job = idle_job\<rparr>))"

end
