(* ===== verification/TaskStoreContract.thy ===== *)
theory TaskStoreContract
  imports TaskStore "HOL-Library.Multiset"
begin

text \<open>
  What the task store promises: the map of the records it holds, every write as a step of that map that
  raises one revision by one, whatever the kernel answers and wherever a crash falls, and the
  consequences for its clients.
\<close>

section \<open>The map of records\<close>

definition stored :: "root \<Rightarrow> string \<Rightarrow> task_record option" where
  "stored root i = (case read_locked task_calm root i of Inl e \<Rightarrow> None | Inr found \<Rightarrow> found)"

definition readable :: "root \<Rightarrow> string \<Rightarrow> bool" where
  "readable root i \<longleftrightarrow> is_ok (read_locked task_calm root i)"

lemma task_calm_simps [simp]: "\<not> tk_fails task_calm c" "tk_replies task_calm c = []"
  by (simp_all add: task_calm_def)

lemma transfer_in_all [simp]: "transfer_in [] (length b) b = Some b"
  by (cases b) simp_all

lemma read_record_calm:
  assumes "read_record k i f = Inr found"
  shows "read_record task_calm i f = Inr found"
proof -
  from assms obtain b where "transfer_in (tk_replies k (Call_read i)) (length (content f)) (content f) = Some b"
    by (auto simp: read_record_def split: if_splits option.splits)
  moreover from this have "b = content f" by (auto dest: transfer_in_sound)
  ultimately show ?thesis using assms by (simp add: read_record_def split: if_splits)
qed

lemma read_locked_calm:
  "read_locked k root i = Inr found \<Longrightarrow> read_locked task_calm root i = Inr found"
  by (auto simp: read_locked_def read_record_calm split: if_splits option.splits node.splits)

lemma read_locked_stored: "read_locked k root i = Inr found \<Longrightarrow> found = stored root i"
  by (simp add: stored_def read_locked_calm)

lemma read_recordD:
  "read_record k i f = Inr (Some r) \<Longrightarrow> t_id r = i \<and> validate r = Inr () \<and> map_order (t_params r) \<and> t_revision r \<noteq> 0"
  by (auto simp: read_record_def decodeD split: if_splits option.splits sum.splits)

lemma read_record_Some: "read_record k i f = Inr found \<Longrightarrow> found \<noteq> None"
  by (auto simp: read_record_def split: if_splits option.splits sum.splits)

lemma read_lockedD:
  "read_locked k root i = Inr (Some r) \<Longrightarrow>
     t_id r = i \<and> validate r = Inr () \<and> map_order (t_params r) \<and> t_revision r \<noteq> 0 \<and> valid_id i"
  by (auto simp: read_locked_def dest: read_recordD split: if_splits option.splits node.splits)

lemma storedD:
  "stored root i = Some r \<Longrightarrow>
     t_id r = i \<and> validate r = Inr () \<and> map_order (t_params r) \<and> t_revision r \<noteq> 0 \<and> valid_id i"
  by (auto simp: stored_def dest: read_lockedD split: sum.splits)

lemma stored_cong: "map_of t i = map_of root i \<Longrightarrow> stored t i = stored root i"
  by (simp add: stored_def read_locked_def)

lemma stored_dir:
  "map_of t i = Some (Dir fs) \<Longrightarrow> map_of root i = Some (Dir es) \<Longrightarrow> map_of fs record_name = map_of es record_name
     \<Longrightarrow> stored t i = stored root i"
  by (simp add: stored_def read_locked_def)

lemma stored_new_dir:
  "map_of t i = Some (Dir fs) \<Longrightarrow> map_of root i = None \<Longrightarrow> map_of fs record_name = None \<Longrightarrow> stored t i = stored root i"
  by (simp add: stored_def read_locked_def)

lemma length_record_text: "record_text r \<noteq> []"
  by (simp add: record_text_def header_v2_def)

lemma stored_written:
  assumes "encode r = Inr b" and "map_order (t_params r)" and "t_revision r \<noteq> 0"
    and "map_of t (t_id r) = Some (Dir fs)" and "map_of fs record_name = Some (fresh_file b)"
  shows "stored t (t_id r) = Some r"
proof -
  note e = encodeD [OF assms(1)]
  have d: "decode b = Inr r" using e decode_text [of r] assms(2,3) by simp
  have v: "valid_id (t_id r)" using e validateD(1) by blast
  have "read_record task_calm (t_id r) (fresh_file b) = Inr (Some r)"
    using e d length_record_text [of r] by (auto simp: read_record_def fresh_file_def)
  then show ?thesis using assms(4,5) v by (simp add: stored_def read_locked_def)
qed

section \<open>One write\<close>

lemma temp_not_record [simp]: "temp_name k i \<noteq> record_name" "record_name \<noteq> temp_name k i"
  by (simp_all add: temp_name_def record_name_def)

lemma drop_temp_record [simp]: "map_of (drop_temp k i es) record_name = map_of es record_name"
  by (simp add: drop_temp_def)

lemma write_staged_states:
  assumes "write_staged k i es b = (states, result)" and "fs \<in> set states"
  shows "map_of fs record_name = map_of es record_name \<or> map_of fs record_name = Some (fresh_file b)"
proof -
  obtain w ok where w: "transfer_out (tk_replies k (Call_write i)) [] b = (w, ok)" by (cases "transfer_out (tk_replies k (Call_write i)) [] b")
  have ne: "w \<noteq> []" using transfer_out_nonempty [of "tk_replies k (Call_write i)" "[]" b] by (simp add: w)
  have l: "last (map (\<lambda>v. dir_put (temp_name k i) (fresh_file v) es) w) = dir_put (temp_name k i) (fresh_file (last w)) es"
    using ne by (simp add: last_map)
  have all: "ok \<Longrightarrow> last w = b" using transfer_out_last [of "tk_replies k (Call_write i)" "[]" b] by (simp add: w)
  show ?thesis
    using assms ne by (auto simp: write_staged_def Let_def w l all map_of_dir_rename split: if_splits)
qed

lemma write_staged_nonempty: "write_staged k i es b = (states, result) \<Longrightarrow> states \<noteq> []"
  by (auto simp: write_staged_def Let_def split: if_splits prod.splits)

lemma write_staged_last:
  assumes "write_staged k i es b = (states, result)"
  shows "(result = Inr () \<longrightarrow> map_of (last states) record_name = Some (fresh_file b))
    \<and> (result \<noteq> Inr () \<and> result \<noteq> Inl (Runtime_error ''task directory sync failed'')
         \<longrightarrow> map_of (last states) record_name = map_of es record_name)"
proof -
  obtain w ok where w: "transfer_out (tk_replies k (Call_write i)) [] b = (w, ok)" by (cases "transfer_out (tk_replies k (Call_write i)) [] b")
  have ne: "w \<noteq> []" using transfer_out_nonempty [of "tk_replies k (Call_write i)" "[]" b] by (simp add: w)
  have l: "last (map (\<lambda>v. dir_put (temp_name k i) (fresh_file v) es) w) = dir_put (temp_name k i) (fresh_file (last w)) es"
    using ne by (simp add: last_map)
  have all: "ok \<Longrightarrow> last w = b" using transfer_out_last [of "tk_replies k (Call_write i)" "[]" b] by (simp add: w)
  show ?thesis
    using assms ne by (auto simp: write_staged_def Let_def w l all map_of_dir_rename split: if_splits)
qed

lemma update_state:
  assumes "map_of root i \<noteq> Some Other"
    and "map_of fs record_name = map_of (task_files root i) record_name"
  shows "stored (AList.update i (Dir fs) root) i = stored root i"
proof (cases "map_of root i")
  case None
  then show ?thesis using assms by (intro stored_new_dir) (simp_all add: update_conv' task_files_def)
next
  case (Some n)
  then obtain es where "map_of root i = Some (Dir es)" using assms(1) by (cases n) auto
  then show ?thesis using assms(2)
    by (intro stored_dir [where fs = fs and es = es]) (simp_all add: update_conv' task_files_def)
qed

lemma write_locked_cases:
  assumes "write_locked k root r = (states, result)"
  obtains (refused) "states = [root]" "result \<noteq> Inr ()"
  | (made) b where "encode r = Inr b" "map_of root (t_id r) \<noteq> Some Other" "result \<noteq> Inr ()"
      "states = [root, AList.update (t_id r) (Dir (task_files root (t_id r))) root]"
  | (staged) b ss where "encode r = Inr b" "map_of root (t_id r) \<noteq> Some Other"
      "write_staged k (t_id r) (task_files root (t_id r)) b = (ss, result)"
      "states = root # map (\<lambda>fs. AList.update (t_id r) (Dir fs) root) (task_files root (t_id r) # ss)"
  using assms by (auto simp: write_locked_def Let_def split: sum.splits if_splits prod.splits)

lemma write_locked_shape:
  assumes "write_locked k root r = (states, result)" and "t \<in> set states"
  shows "t = root \<or> (\<exists>b fs. encode r = Inr b \<and> map_of root (t_id r) \<noteq> Some Other \<and> t = AList.update (t_id r) (Dir fs) root
    \<and> (map_of fs record_name = map_of (task_files root (t_id r)) record_name \<or> map_of fs record_name = Some (fresh_file b)))"
  using assms(1)
proof (cases rule: write_locked_cases)
  case (staged b ss)
  then show ?thesis using assms(2) write_staged_states [OF staged(3)] by auto
qed (use assms(2) in auto)

lemma write_locked_states:
  assumes "write_locked k root r = (states, result)" and "map_order (t_params r)" and "t_revision r \<noteq> 0"
    and "t \<in> set states"
  shows "stored t = stored root \<or> validate r = Inr () \<and> stored t = (stored root)(t_id r \<mapsto> r)"
proof (cases "t = root")
  case False
  with write_locked_shape [OF assms(1,4)] obtain b fs where b: "encode r = Inr b" "map_of root (t_id r) \<noteq> Some Other"
    and t: "t = AList.update (t_id r) (Dir fs) root"
    and fs: "map_of fs record_name = map_of (task_files root (t_id r)) record_name \<or> map_of fs record_name = Some (fresh_file b)"
    by blast
  have others: "stored t j = stored root j" if "j \<noteq> t_id r" for j
    using that by (intro stored_cong) (simp add: t update_conv')
  from fs show ?thesis
  proof
    assume "map_of fs record_name = map_of (task_files root (t_id r)) record_name"
    then have "stored t (t_id r) = stored root (t_id r)" unfolding t by (rule update_state [OF b(2)])
    with others have "stored t = stored root" by (intro ext) metis
    then show ?thesis ..
  next
    assume "map_of fs record_name = Some (fresh_file b)"
    then have "stored t (t_id r) = Some r"
      by (intro stored_written [OF b(1) assms(2,3)]) (simp_all add: t update_conv')
    with others have "stored t = (stored root)(t_id r \<mapsto> r)" by (intro ext) simp
    with encodeD [OF b(1)] show ?thesis by simp
  qed
qed simp

lemma write_locked_last:
  assumes "write_locked k root r = (states, result)" and "map_order (t_params r)" and "t_revision r \<noteq> 0"
  shows "states \<noteq> []"
    and "result = Inr () \<Longrightarrow> stored (last states) = (stored root)(t_id r \<mapsto> r)"
    and "result \<noteq> Inr () \<Longrightarrow> result \<noteq> Inl (Runtime_error ''task directory sync failed'') \<Longrightarrow> stored (last states) = stored root"
proof -
  show ne: "states \<noteq> []" using assms(1) by (auto simp: write_locked_def Let_def split: sum.splits if_splits prod.splits)
  show "stored (last states) = (stored root)(t_id r \<mapsto> r)" if "result = Inr ()"
    using assms(1)
  proof (cases rule: write_locked_cases)
    case (staged b ss)
    have ss: "ss \<noteq> []" by (rule write_staged_nonempty [OF staged(3)])
    have t: "last states = AList.update (t_id r) (Dir (last ss)) root" using ss by (simp add: staged(4) last_map)
    have "stored (last states) (t_id r) = Some r"
      using write_staged_last [OF staged(3)] that
      by (intro stored_written [OF staged(1) assms(2,3)]) (auto simp: t update_conv')
    moreover have "stored (last states) j = stored root j" if "j \<noteq> t_id r" for j
      using that by (intro stored_cong) (simp add: t update_conv')
    ultimately show ?thesis by (intro ext) simp
  qed (use that in simp_all)
  show "stored (last states) = stored root" if r: "result \<noteq> Inr ()" "result \<noteq> Inl (Runtime_error ''task directory sync failed'')"
    using assms(1)
  proof (cases rule: write_locked_cases)
    case (made b)
    have "stored (last states) (t_id r) = stored root (t_id r)" using made(2,4) by (simp add: update_state)
    moreover have "stored (last states) j = stored root j" if "j \<noteq> t_id r" for j
      using that by (intro stored_cong) (simp add: made(4) update_conv')
    ultimately show ?thesis by (intro ext) metis
  next
    case (staged b ss)
    have ss: "ss \<noteq> []" by (rule write_staged_nonempty [OF staged(3)])
    have t: "last states = AList.update (t_id r) (Dir (last ss)) root" using ss by (simp add: staged(4) last_map)
    have "stored (last states) (t_id r) = stored root (t_id r)"
      unfolding t using write_staged_last [OF staged(3)] r by (intro update_state [OF staged(2)]) simp
    moreover have "stored (last states) j = stored root j" if "j \<noteq> t_id r" for j
      using that by (intro stored_cong) (simp add: t update_conv')
    ultimately show ?thesis by (intro ext) metis
  qed simp
qed

section \<open>The abstract store\<close>

text \<open>
  Commits of the map of records: one valid record is put, with the revision after the one it replaces.
\<close>

definition next_revision :: "(string \<Rightarrow> task_record option) \<Rightarrow> task_record \<Rightarrow> bool" where
  "next_revision m r \<longleftrightarrow> validate r = Inr ()
     \<and> unat (t_revision r) = Suc (case m (t_id r) of None \<Rightarrow> 0 | Some p \<Rightarrow> unat (t_revision p))"

inductive commit :: "(string \<Rightarrow> task_record option) \<Rightarrow> (string \<Rightarrow> task_record option) \<Rightarrow> bool" where
  stay: "commit m m"
| put: "next_revision m r \<Longrightarrow> commit m (m(t_id r \<mapsto> r))"

inductive commits :: "(string \<Rightarrow> task_record option) \<Rightarrow> (string \<Rightarrow> task_record option) \<Rightarrow> bool" where
  none: "commits m m"
| more: "commits m n \<Longrightarrow> commit n p \<Longrightarrow> commits m p"

definition revision_of :: "(string \<Rightarrow> task_record option) \<Rightarrow> string \<Rightarrow> nat" where
  "revision_of m i = (case m i of None \<Rightarrow> 0 | Some r \<Rightarrow> unat (t_revision r))"

lemma commit_revision: "commit m n \<Longrightarrow> revision_of m i \<le> revision_of n i"
  by (induction rule: commit.induct) (auto simp: revision_of_def next_revision_def)

lemma commits_revision: "commits m n \<Longrightarrow> revision_of m i \<le> revision_of n i"
  by (induction rule: commits.induct) (auto intro: commit_revision order_trans)

lemma commits_trans: "commits n p \<Longrightarrow> commits m n \<Longrightarrow> commits m p"
  by (induction rule: commits.induct) (auto intro: commits.intros)

lemma task_save_cases:
  assumes "save_task k l cap root r e = (states, r', out)" and "map_order (t_params r)"
  obtains (refused) "states = [root]" "r' = r" "out \<noteq> Inr True"
  | (written) result where "write_locked k root (r\<lparr>t_revision := e + 1\<rparr>) = (states, result)"
      "t_revision r = e" "e \<noteq> - 1" "stored root (t_id r) = None \<longrightarrow> e = 0"
      "\<forall>p. stored root (t_id r) = Some p \<longrightarrow> t_revision p = e"
      "r' = (if is_ok result then r\<lparr>t_revision := e + 1\<rparr> else r)" "out = map_sum id (\<lambda>_. True) result"
proof -
  show thesis
  proof (cases "read_locked k root (t_id r)")
    case (Inl x)
    then show thesis using assms by (auto simp: save_task_def intro!: refused split: sum.splits if_splits)
  next
    case (Inr old)
    have old: "read_locked k root (t_id r) = Inr (stored root (t_id r))" using Inr read_locked_stored [OF Inr] by simp
    show thesis
    proof (cases "states = [root] \<and> r' = r \<and> out \<noteq> Inr True")
      case True
      then show thesis by (auto intro: refused)
    next
      case False
      then have go: "t_revision r = e" "e \<noteq> - 1"
        "\<not> (case stored root (t_id r) of Some p \<Rightarrow> t_revision p \<noteq> e | None \<Rightarrow> e \<noteq> 0)"
        and w: "(let (states, result) = write_locked k root (r\<lparr>t_revision := e + 1\<rparr>)
            in (states, (if is_ok result then r\<lparr>t_revision := e + 1\<rparr> else r), map_sum id (\<lambda>_. True) result)) = (states, r', out)"
        using assms(1) by (auto simp: save_task_def old split: sum.splits if_splits)
      obtain ss result where "write_locked k root (r\<lparr>t_revision := e + 1\<rparr>) = (ss, result)" by fastforce
      with w go show thesis by (intro written [of result]) (auto split: option.splits)
    qed
  qed
qed

lemma word_next: "e \<noteq> - 1 \<Longrightarrow> e + 1 \<noteq> 0" "e \<noteq> - 1 \<Longrightarrow> unat (e + 1) = Suc (unat e)"
  for e :: "'a::len word"
  using unatSuc [of e] by (simp_all add: eq_neg_iff_add_eq_0 add.commute)

lemma save_state_commit:
  assumes "save_task k l cap root r e = (states, r', out)" and "map_order (t_params r)" and "t \<in> set states"
  shows "commit (stored root) (stored t)"
  using assms(1,2)
proof (cases rule: task_save_cases)
  case refused
  with assms(3) show ?thesis by (simp add: commit.stay)
next
  case (written result)
  define r1 where "r1 = r\<lparr>t_revision := e + 1\<rparr>"
  have nz: "t_revision r1 \<noteq> 0" using word_next(1) [OF written(3)] by (simp add: r1_def)
  have u: "unat (t_revision r1) = Suc (unat e)" using word_next(2) [OF written(3)] by (simp add: r1_def)
  from write_locked_states [OF written(1)[folded r1_def] _ nz assms(3)] assms(2)
  consider "stored t = stored root" | "validate r1 = Inr ()" "stored t = (stored root)(t_id r1 \<mapsto> r1)"
    by (auto simp: r1_def)
  then show ?thesis
  proof cases
    case 1
    then show ?thesis by (simp add: commit.stay)
  next
    case 2
    have "next_revision (stored root) r1"
      using 2(1) u written(4,5) by (cases "stored root (t_id r)") (auto simp: next_revision_def r1_def)
    then show ?thesis unfolding 2(2) by (rule commit.put)
  qed
qed

lemma task_save_committed:
  assumes "save_task k l cap root r e = (states, r', out)" and "map_order (t_params r)"
  shows "states \<noteq> []
    \<and> (if out = Inr True
       then stored (last states) = (stored root)(t_id r \<mapsto> r\<lparr>t_revision := e + 1\<rparr>)
         \<and> r' = r\<lparr>t_revision := e + 1\<rparr> \<and> e \<noteq> - 1 \<and> revision_of (stored root) (t_id r) = unat e
       else r' = r \<and> (stored (last states) = stored root \<or> out = Inl (Runtime_error ''task directory sync failed'')))"
  using assms
proof (cases rule: task_save_cases)
  case (written result)
  define r1 where "r1 = r\<lparr>t_revision := e + 1\<rparr>"
  have nz: "t_revision r1 \<noteq> 0" using word_next(1) [OF written(3)] by (simp add: r1_def)
  have o: "map_order (t_params r1)" using assms(2) by (simp add: r1_def)
  note w = write_locked_last [OF written(1) [folded r1_def] o nz]
  show ?thesis
  proof (cases result)
    case (Inl x)
    then have "out = Inl x" "r' = r" using written(6,7) by simp_all
    moreover have "stored (last states) = stored root \<or> x = Runtime_error ''task directory sync failed''"
      using w(3) Inl by blast
    ultimately show ?thesis using w(1) by simp
  next
    case (Inr u)
    then have "out = Inr True" "r' = r1" using written(6,7) by (simp_all add: r1_def)
    moreover have "revision_of (stored root) (t_id r) = unat e"
      using written(4,5) by (cases "stored root (t_id r)") (simp_all add: revision_of_def)
    moreover have "stored (last states) = (stored root)(t_id r \<mapsto> r1)" using w(2) Inr by (simp add: r1_def)
    ultimately show ?thesis using w(1) written(3) by (simp add: r1_def)
  qed
qed simp

section \<open>Listing\<close>

definition records_of :: "root \<Rightarrow> task_record list" where
  "records_of root = List.map_filter (stored root) (map fst root)"

lemma scan_tasks_found:
  "scan_tasks k root n rs names = Inr rs' \<Longrightarrow> rs' = rs @ List.map_filter (stored root) names"
proof (induction names arbitrary: n rs)
  case (Cons i names)
  show ?case
  proof (cases "valid_id i")
    case False
    then have "stored root i = None" using storedD [of root i] by (cases "stored root i") auto
    with False Cons show ?thesis by (auto simp: map_filter_simps split: if_splits)
  next
    case True
    then obtain found where f: "read_locked k root i = Inr found" using Cons.prems by (auto split: if_splits sum.splits)
    with True Cons show ?thesis
      by (cases found) (auto simp: read_locked_stored [OF f, symmetric] map_filter_simps Let_def split: if_splits dest!: Cons.IH)
  qed
qed (simp add: map_filter_simps)

lemma list_locked_records: "list_locked k root = Inr rs \<Longrightarrow> rs = newest_first (records_of root)"
  by (cases "scan_tasks k root 0 [] (map fst root)")
     (auto simp: list_locked_def records_of_def dest: scan_tasks_found split: if_splits)

lemma set_records: "set (records_of root) = {r. \<exists>i. stored root i = Some r}"
proof -
  have "i \<in> set (map fst root)" if "stored root i = Some r" for i r
    using that by (force simp: stored_def read_locked_def dest: map_of_SomeD split: if_splits option.splits)
  then show ?thesis by (force simp: records_of_def map_filter_def)
qed

lemma records_stored: "q \<in> set (records_of root) \<Longrightarrow> stored root (t_id q) = Some q"
  by (auto simp: set_records dest: storedD)

lemma set_newest_first [simp]: "set (newest_first rs) = set rs"
  by (simp add: newest_first_def)

lemma ids_of_records: "map t_id (records_of root) = filter (\<lambda>i. stored root i \<noteq> None) (map fst root)"
proof -
  have "map t_id (List.map_filter (stored root) ns) = filter (\<lambda>i. stored root i \<noteq> None) ns" for ns
    by (induction ns) (auto simp: map_filter_simps dest: storedD split: option.splits)
  then show ?thesis by (simp add: records_of_def)
qed

lemma distinct_newest_first: "distinct (map t_id (newest_first rs)) = distinct (map t_id rs)"
proof -
  have "mset (map t_id (newest_first rs)) = image_mset t_id (mset (newest_first rs))" by simp
  also have "\<dots> = mset (map t_id rs)" by (simp add: newest_first_def)
  finally have "mset (map t_id (newest_first rs)) = mset (map t_id rs)" .
  then show ?thesis by (metis mset_eq_imp_distinct_iff)
qed

lemma list_tasks_page:
  assumes "list_locked k root = Inr rs" and "0 < limit" and "limit \<le> 100"
  shows "list_tasks k root offset limit = Inr (take limit (drop offset rs))"
  using assms by (auto simp: list_tasks_def drop_take min_def)

lemma concat_pages:
  assumes "0 < limit"
  shows "concat (map (\<lambda>j. take limit (drop (j * limit) rs)) [0..<n]) = take (n * limit) rs"
proof (induction n)
  case (Suc n)
  have "take (Suc n * limit) rs = take (n * limit) rs @ take limit (drop (n * limit) rs)"
    using take_add [of "n * limit" limit rs] by (simp only: mult_Suc add.commute)
  with Suc show ?case by simp
qed simp

lemma newest_first_sorted:
  "sorted_wrt (\<lambda>r q. (t_created_ms q, t_id q) \<le> (t_created_ms r, t_id r)) (newest_first rs)"
proof -
  have "sorted (map (\<lambda>r. (t_created_ms r, t_id r)) (sort_key (\<lambda>r. (t_created_ms r, t_id r)) rs))" by simp
  then show ?thesis by (simp add: newest_first_def sorted_wrt_rev sorted_map)
qed

section \<open>Recovery\<close>

lemma interrupted_simps [simp]:
  "t_id (interrupted now r) = t_id r" "t_params (interrupted now r) = t_params r"
  "t_revision (interrupted now r) = t_revision r + 1" "t_state (interrupted now r) = ''interrupted''"
  by (simp_all add: interrupted_def)

definition active :: "task_record \<Rightarrow> bool" where
  "active r \<longleftrightarrow> t_state r \<in> set active_states"

definition retire :: "u64 \<Rightarrow> task_record list \<Rightarrow> (string \<Rightarrow> task_record option) \<Rightarrow> string \<Rightarrow> task_record option" where
  "retire now rs m = (\<lambda>i. if \<exists>r \<in> set rs. t_id r = i \<and> active r then map_option (interrupted now) (m i) else m i)"

lemma interrupt_step:
  assumes "write_locked k root (interrupted now r) = (states, result)" and "stored root (t_id r) = Some r"
    and "t_revision r \<noteq> - 1"
  shows "t \<in> set states \<Longrightarrow> commit (stored root) (stored t)"
    and "t \<in> set states \<Longrightarrow> stored t = stored root \<or> stored t = (stored root)(t_id r \<mapsto> interrupted now r)"
    and "states \<noteq> []"
    and "result = Inr () \<Longrightarrow> stored (last states) = (stored root)(t_id r \<mapsto> interrupted now r)"
proof -
  have o: "map_order (t_params (interrupted now r))" using storedD [OF assms(2)] by simp
  have nz: "t_revision (interrupted now r) \<noteq> 0" using word_next(1) [OF assms(3)] by simp
  note w = write_locked_states [OF assms(1) o nz] write_locked_last [OF assms(1) o nz]
  show "stored t = stored root \<or> stored t = (stored root)(t_id r \<mapsto> interrupted now r)" if "t \<in> set states"
    using w(1) [OF that] by auto
  show "commit (stored root) (stored t)" if "t \<in> set states"
  proof (cases "stored t = stored root")
    case False
    with w(1) [OF that] have "validate (interrupted now r) = Inr ()" and t: "stored t = (stored root)(t_id (interrupted now r) \<mapsto> interrupted now r)"
      by auto
    then have "next_revision (stored root) (interrupted now r)"
      using assms(2) word_next(2) [OF assms(3)] by (simp add: next_revision_def)
    then show ?thesis unfolding t by (rule commit.put)
  qed (simp add: commit.stay)
  show "states \<noteq> []" by (rule w(2))
  show "stored (last states) = (stored root)(t_id r \<mapsto> interrupted now r)" if "result = Inr ()"
    using w(3) [OF that] by simp
qed

lemma recover_loop_states:
  assumes "recover_loop k now root rs = (states, out)" and "\<forall>r \<in> set rs. stored root (t_id r) = Some r"
    and "distinct (map t_id rs)"
  shows "states \<noteq> [] \<and> (\<forall>t \<in> set states. commits (stored root) (stored t)
      \<and> (\<forall>i. stored t i = stored root i \<or> stored t i = retire now rs (stored root) i))
    \<and> (\<forall>n. out = Inr n \<longrightarrow> stored (last states) = retire now rs (stored root) \<and> n = length (filter active rs))"
  using assms
proof (induction rs arbitrary: root states out)
  case Nil
  then show ?case by (auto simp: retire_def intro: commits.none)
next
  case (Cons r rs)
  have here: "stored root (t_id r) = Some r" using Cons.prems(2) by simp
  have new: "t_id q \<noteq> t_id r" if "q \<in> set rs" for q
    using Cons.prems(3) that by (metis distinct.simps(2) image_eqI list.simps(9) set_map)
  show ?case
  proof (cases "active r")
    case False
    then have "recover_loop k now root rs = (states, out)" using Cons.prems(1) by (simp add: active_def)
    from Cons.IH [OF this] Cons.prems show ?thesis using False by (simp add: retire_def)
  next
    case act: True
    show ?thesis
    proof (cases "t_revision r = - 1")
      case True
      then show ?thesis using act Cons.prems(1) by (auto simp: active_def intro: commits.none)
    next
      case False
      obtain ss result where w: "write_locked k root (interrupted now r) = (ss, result)"
        by (cases "write_locked k root (interrupted now r)")
      note step = interrupt_step [OF w here False]
      have one: "stored t i = stored root i \<or> stored t i = retire now (r # rs) (stored root) i" if "t \<in> set ss" for t i
        using step(2) [OF that] act here by (auto simp: retire_def)
      have com: "commits (stored root) (stored t)" if "t \<in> set ss" for t
        using commits.more [OF commits.none step(1) [OF that]] .
      show ?thesis
      proof (cases result)
        case (Inl e)
        then have "recover_loop k now root (r # rs) = (ss, Inl e)" using act False w by (simp add: active_def)
        then have "states = ss" "out = Inl e" using Cons.prems(1) by simp_all
        then show ?thesis using step(3) one com by auto
      next
        case (Inr u)
        obtain rest count where l: "recover_loop k now (last ss) rs = (rest, count)"
          by (cases "recover_loop k now (last ss) rs")
        have "recover_loop k now root (r # rs) = (ss @ rest, map_sum id Suc count)"
          using act False w l Inr by (simp add: active_def)
        then have st: "states = ss @ rest" "out = map_sum id Suc count" using Cons.prems(1) by simp_all
        have mid: "stored (last ss) = (stored root)(t_id r \<mapsto> interrupted now r)" using step(4) Inr by simp
        have "\<forall>q \<in> set rs. stored (last ss) (t_id q) = Some q"
        proof
          fix q assume q: "q \<in> set rs"
          then have "t_id q \<noteq> t_id r" by (rule new)
          moreover have "stored root (t_id q) = Some q" using Cons.prems(2) q by simp
          ultimately show "stored (last ss) (t_id q) = Some q" unfolding mid by (metis fun_upd_other)
        qed
        from Cons.IH [OF l this] Cons.prems(3) have ih: "rest \<noteq> []"
          "\<forall>t \<in> set rest. commits (stored (last ss)) (stored t)
            \<and> (\<forall>i. stored t i = stored (last ss) i \<or> stored t i = retire now rs (stored (last ss)) i)"
          "\<And>n. count = Inr n \<Longrightarrow> stored (last rest) = retire now rs (stored (last ss)) \<and> n = length (filter active rs)"
          by auto
        have later: "retire now rs (stored (last ss)) = retire now (r # rs) (stored root)"
          using act here new by (auto simp: retire_def mid fun_eq_iff)
        have "stored (last ss) i = stored root i \<or> stored (last ss) i = retire now (r # rs) (stored root) i" for i
          using act here by (auto simp: retire_def mid)
        with ih(2) later have rest: "stored t i = stored root i \<or> stored t i = retire now (r # rs) (stored root) i"
          if "t \<in> set rest" for t i using that by metis
        have "commits (stored root) (stored t)" if "t \<in> set rest" for t
          using ih(2) that com [OF last_in_set [OF step(3)]] by (blast intro: commits_trans)
        with one com rest have all: "\<forall>t \<in> set states. commits (stored root) (stored t)
            \<and> (\<forall>i. stored t i = stored root i \<or> stored t i = retire now (r # rs) (stored root) i)"
          unfolding st(1) set_append by blast
        have "stored (last states) = retire now (r # rs) (stored root) \<and> n = length (filter active (r # rs))"
          if out: "out = Inr n" for n
        proof -
          obtain m where m: "count = Inr m" "n = Suc m" using out st(2) by (cases count) auto
          show ?thesis using ih(1) ih(3) [OF m(1)] later act by (simp add: st(1) m(2))
        qed
        with all ih(1) show ?thesis unfolding st(1) by blast
      qed
    qed
  qed
qed

section \<open>A store of versions\<close>

text \<open>
  What a client of the store relies on: versions never go back, and a swap that succeeds found the
  version it expected and left the next one.
\<close>

locale versioned_store =
  fixes version :: "'s \<Rightarrow> 'k \<Rightarrow> nat"
    and step :: "'s \<Rightarrow> 's \<Rightarrow> bool"
    and swap :: "'s \<Rightarrow> 'k \<Rightarrow> nat \<Rightarrow> 's \<Rightarrow> bool"
  assumes step_grows: "step s t \<Longrightarrow> version s i \<le> version t i"
    and swap_found: "swap s i v t \<Longrightarrow> version s i = v"
    and swap_left: "swap s i v t \<Longrightarrow> version t i = Suc v"
begin

lemma run_grows: "step\<^sup>*\<^sup>* s t \<Longrightarrow> version s i \<le> version t i"
  by (induction rule: rtranclp_induct) (auto intro: step_grows order_trans)

lemma swap_once: "swap s i v t \<Longrightarrow> step\<^sup>*\<^sup>* t u \<Longrightarrow> \<not> swap u i v w"
  using run_grows [of t u i] swap_left [of s i v t] swap_found [of u i v w] by auto

end

text \<open>
  A step of the store: a save or a recovery, stopped after any of its calls.  The names in a directory
  are distinct.
\<close>

inductive store_step :: "root \<Rightarrow> root \<Rightarrow> bool" where
  saving: "map_order (t_params r) \<Longrightarrow> save_task k l cap root r e = (states, r', out) \<Longrightarrow> t \<in> set states \<Longrightarrow> store_step root t"
| recovering: "distinct (map fst root) \<Longrightarrow> recover_interrupted k root now = (states, out) \<Longrightarrow> t \<in> set states \<Longrightarrow> store_step root t"

inductive saved :: "root \<Rightarrow> string \<Rightarrow> nat \<Rightarrow> root \<Rightarrow> bool" where
  "map_order (t_params r) \<Longrightarrow> save_task k l cap root r e = (states, r', Inr True) \<Longrightarrow> saved root (t_id r) (unat e) (last states)"

lemma task_recover_states:
  assumes "recover_interrupted k root now = (states, out)" and "distinct (map fst root)"
  shows "states \<noteq> [] \<and> (\<forall>t \<in> set states. commits (stored root) (stored t)
      \<and> (\<forall>i. stored t i = stored root i \<or> stored t i = retire now (records_of root) (stored root) i))
    \<and> (\<forall>n. out = Inr n \<longrightarrow> stored (last states) = retire now (records_of root) (stored root)
         \<and> n = length (filter active (records_of root)))"
proof (cases "list_locked k root")
  case (Inl e)
  then show ?thesis using assms(1) by (auto simp: recover_interrupted_def intro: commits.none)
next
  case (Inr rs)
  have rs: "rs = newest_first (records_of root)" by (rule list_locked_records [OF Inr])
  have "\<forall>r \<in> set rs. stored root (t_id r) = Some r" by (auto simp: rs set_records dest: storedD)
  moreover have "distinct (map t_id rs)"
    using assms(2) by (simp only: rs distinct_newest_first ids_of_records distinct_filter)
  moreover have "recover_loop k now root rs = (states, out)" using assms(1) Inr by (simp add: recover_interrupted_def)
  moreover have "retire now rs = retire now (records_of root)" by (simp add: retire_def rs fun_eq_iff)
  moreover have "length (filter active rs) = length (filter active (records_of root))"
    by (simp add: rs newest_first_def rev_filter [symmetric] filter_sort)
  ultimately show ?thesis using recover_loop_states [of k now root rs states out] by simp
qed

lemma store_step_revision: "store_step s t \<Longrightarrow> revision_of (stored s) i \<le> revision_of (stored t) i"
proof (induction rule: store_step.induct)
  case (saving r k l cap root e states r' out t)
  show ?case by (rule commit_revision [OF save_state_commit [OF saving(2,1,3)]])
next
  case (recovering root k now states out t)
  then show ?case using task_recover_states [OF recovering(2,1)] commits_revision by blast
qed

interpretation ts: versioned_store "\<lambda>root. revision_of (stored root)" store_step saved
proof
  show "store_step s t \<Longrightarrow> revision_of (stored s) i \<le> revision_of (stored t) i" for s t i
    by (rule store_step_revision)
  show "saved s i v t \<Longrightarrow> revision_of (stored s) i = v" for s i v t
    by (induction rule: saved.induct) (use task_save_committed in fastforce)
  show "saved s i v t \<Longrightarrow> revision_of (stored t) i = Suc v" for s i v t
  proof (induction rule: saved.induct)
    case (1 r k l cap root e states r')
    have "stored (last states) = (stored root)(t_id r \<mapsto> r\<lparr>t_revision := e + 1\<rparr>)" "e \<noteq> - 1"
      using task_save_committed [OF 1(2,1)] by simp_all
    then show ?case using word_next(2) [of e] by (simp add: revision_of_def)
  qed
qed

lemma retire_map:
  "retire now (records_of root) (stored root) i
     = map_option (\<lambda>r. if active r then interrupted now r else r) (stored root i)"
proof (cases "stored root i")
  case (Some r)
  have id: "t_id q = i \<longleftrightarrow> q = r" if "q \<in> set (records_of root)" for q
    using records_stored [OF that] Some storedD [OF Some] by (metis option.inject)
  have "r \<in> set (records_of root)" using Some by (auto simp: set_records)
  with Some id show ?thesis by (auto simp: retire_def)
qed (simp add: retire_def)

section \<open>The properties\<close>

text \<open>C25: A save, under any answers of the kernel and stopped after any of its calls, leaves the records
  as they were or puts exactly the new record with the next revision.  It returns true only when the
  record is stored and the revision it replaced was the expected one; otherwise the caller's record
  is unchanged, and so is the store unless only the last directory sync failed.\<close>

theorem save_is_commit:
  assumes "save_task k l cap root r e = (states, r', out)" and "map_order (t_params r)"
  shows "(\<forall>t \<in> set states. commit (stored root) (stored t))
    \<and> (if out = Inr True
       then stored (last states) = (stored root)(t_id r \<mapsto> r\<lparr>t_revision := e + 1\<rparr>)
         \<and> r' = r\<lparr>t_revision := e + 1\<rparr> \<and> e \<noteq> - 1 \<and> revision_of (stored root) (t_id r) = unat e
       else r' = r \<and> (stored (last states) = stored root \<or> out = Inl (Runtime_error ''task directory sync failed'')))"
  using task_save_committed [OF assms] save_state_commit [OF assms] by blast

text \<open>C26: Of two saves that expect the same revision of a task at most one succeeds, whatever saves and
  recoveries, whole or interrupted, happen between them.\<close>

theorem no_lost_update:
  assumes "save_task k l cap root r e = (states, r', Inr True)" and "map_order (t_params r)"
    and "store_step\<^sup>*\<^sup>* (last states) later" and "map_order (t_params q)" and "t_id q = t_id r"
  shows "snd (snd (save_task k' l' cap' later q e)) \<noteq> Inr True"
proof
  assume "snd (snd (save_task k' l' cap' later q e)) = Inr True"
  then obtain states' q' where s: "save_task k' l' cap' later q e = (states', q', Inr True)" by (metis prod.collapse)
  have "saved root (t_id r) (unat e) (last states)" by (rule saved.intros [OF assms(2,1)])
  moreover have "saved later (t_id r) (unat e) (last states')" using saved.intros [OF assms(4) s] assms(5) by simp
  ultimately show False using ts.swap_once assms(3) by blast
qed

text \<open>C27: A recovery that returns has retired every execution a former service left active, exactly those,
  and says how many; at every moment before that each record is as it was or retired, every change
  raises a revision by one, and a recovery right after it finds nothing to do.\<close>

theorem recovery_retires:
  assumes "recover_interrupted k root now = (states, out)" and "distinct (map fst root)"
  shows "(\<forall>t \<in> set states. commits (stored root) (stored t)
      \<and> (\<forall>i. stored t i = stored root i
           \<or> (\<exists>r. stored root i = Some r \<and> active r \<and> stored t i = Some (interrupted now r))))
    \<and> (\<forall>n. out = Inr n \<longrightarrow> n = length (filter active (records_of root))
         \<and> (\<forall>i. stored (last states) i = map_option (\<lambda>r. if active r then interrupted now r else r) (stored root i))
         \<and> filter active (records_of (last states)) = [])"
proof -
  have inactive: "\<not> active (interrupted now r)" for r by (simp add: active_def active_states_def)
  note r = task_recover_states [OF assms]
  have state: "stored t i = stored root i \<or> (\<exists>r. stored root i = Some r \<and> active r \<and> stored t i = Some (interrupted now r))"
    if t: "t \<in> set states" for t i
  proof -
    have "stored t i = stored root i \<or> stored t i = retire now (records_of root) (stored root) i" using r t by blast
    then show ?thesis unfolding retire_map by (cases "stored root i") (auto split: if_splits)
  qed
  have none: "filter active (records_of (last states)) = []"
    if "\<forall>i. stored (last states) i = map_option (\<lambda>r. if active r then interrupted now r else r) (stored root i)"
    using that inactive by (auto simp: filter_empty_conv set_records split: if_splits)
  have last: "n = length (filter active (records_of root))
      \<and> (\<forall>i. stored (last states) i = map_option (\<lambda>r. if active r then interrupted now r else r) (stored root i))"
    if "out = Inr n" for n using r that retire_map by simp
  show ?thesis using r state none last by blast
qed

text \<open>The pages of the listing, one after the other, are all records of the store, each once, newest
  first; a page is never longer than was asked.\<close>

lemma pages_list_all:
  assumes "list_locked k root = Inr rs" and "distinct (map fst root)" and "0 < limit" and "limit \<le> 100"
    and "length rs \<le> n * limit"
  shows "concat (map (\<lambda>j. projr (list_tasks k root (j * limit) limit)) [0..<n]) = rs
    \<and> (\<forall>j. is_ok (list_tasks k root (j * limit) limit) \<and> length (projr (list_tasks k root (j * limit) limit)) \<le> limit)
    \<and> set rs = {r. \<exists>i. stored root i = Some r} \<and> distinct (map t_id rs)
    \<and> sorted_wrt (\<lambda>r q. (t_created_ms q, t_id q) \<le> (t_created_ms r, t_id r)) rs"
proof -
  note page = list_tasks_page [OF assms(1,3,4)]
  have rs: "rs = newest_first (records_of root)" by (rule list_locked_records [OF assms(1)])
  have "distinct (map t_id rs)" using assms(2) by (simp only: rs distinct_newest_first ids_of_records distinct_filter)
  moreover have "set rs = {r. \<exists>i. stored root i = Some r}" by (simp add: rs set_records)
  moreover have "sorted_wrt (\<lambda>r q. (t_created_ms q, t_id q) \<le> (t_created_ms r, t_id r)) rs"
    unfolding rs by (rule newest_first_sorted)
  moreover have "concat (map (\<lambda>j. take limit (drop (j * limit) rs)) [0..<n]) = rs"
    using concat_pages [OF assms(3), where rs = rs and n = n] assms(5) by simp
  ultimately show ?thesis by (simp add: page)
qed

section \<open>A store with one task\<close>

definition sample_root :: root where
  "sample_root = [(''task-0001'', Dir [(''record'', fresh_file (record_text sample_record))])]"

lemma sample_same: "sample_record\<lparr>t_revision := 1\<rparr> = sample_record"
  by (simp add: sample_record_def new_record_def)

lemma task_sample_read:
  "map_of root ''task-0001'' = Some (Dir es) \<Longrightarrow> map_of es ''record'' = Some (fresh_file (record_text (sample_record\<lparr>t_revision := v\<rparr>)))
     \<Longrightarrow> v \<noteq> 0 \<Longrightarrow> read_locked task_calm root ''task-0001'' = Inr (Some (sample_record\<lparr>t_revision := v\<rparr>))"
proof -
  assume r: "map_of root ''task-0001'' = Some (Dir es)" "map_of es ''record'' = Some (fresh_file (record_text (sample_record\<lparr>t_revision := v\<rparr>)))" "v \<noteq> 0"
  have d: "decode (record_text (sample_record\<lparr>t_revision := v\<rparr>)) = Inr (sample_record\<lparr>t_revision := v\<rparr>)"
    using r(3) by (intro decode_text) (simp_all add: sample_valid)
  show ?thesis using r(1,2) d encodeD [OF sample_encodes [of v]] length_record_text [of "sample_record\<lparr>t_revision := v\<rparr>"]
    by (simp add: read_locked_def read_record_def record_name_def fresh_file_def)
qed

lemma sample_held:
  "read_locked task_calm sample_root ''task-0001'' = Inr (Some sample_record)"
  using task_sample_read [of sample_root _ 1] by (simp add: sample_root_def sample_same)

lemma transfer_out_calmly [simp]: "transfer_out [] acc d = (if d = [] then [acc] else [acc, acc @ d], True)"
  by (cases d) simp_all

lemma task_sample_names: "distinct (map fst sample_root)"
  by (simp add: sample_root_def)

lemma calm_write:
  "encode r = Inr b \<Longrightarrow> map_of root (t_id r) \<noteq> Some Other \<Longrightarrow> map_of (task_files root (t_id r)) (temp_name task_calm (t_id r)) = None
     \<Longrightarrow> snd (write_locked task_calm root r) = Inr ()"
  using length_record_text [of r] encodeD [of r b]
  by (cases b) (auto simp: write_locked_def Let_def task_calm_def write_staged_def split: prod.split)

lemma calm_save:
  assumes "validate r = Inr ()" and "encode (r\<lparr>t_revision := t_revision r + 1\<rparr>) = Inr b"
    and "read_locked task_calm root (t_id r) = Inr (Some p)" and "t_revision p = t_revision r" and "t_revision r \<noteq> - 1"
    and "map_of (task_files root (t_id r)) (temp_name task_calm (t_id r)) = None"
  shows "\<exists>states. save_task task_calm l cap root r (t_revision r) = (states, r\<lparr>t_revision := t_revision r + 1\<rparr>, Inr True)"
proof -
  have "map_of root (t_id r) \<noteq> Some Other" using assms(3) by (auto simp: read_locked_def split: if_splits)
  then have "snd (write_locked task_calm root (r\<lparr>t_revision := t_revision r + 1\<rparr>)) = Inr ()"
    using assms(2,6) by (intro calm_write) simp_all
  then show ?thesis
    using assms(1,3,4,5) by (simp add: save_task_def Let_def case_prod_beta)
qed

lemma sample_save:
  "save_task task_calm task_calm 2 sample_root sample_record 1
     = (fst (write_locked task_calm sample_root (sample_record\<lparr>t_revision := 2\<rparr>)), sample_record\<lparr>t_revision := 2\<rparr>, Inr True)"
proof -
  have "snd (write_locked task_calm sample_root (sample_record\<lparr>t_revision := 2\<rparr>)) = Inr ()"
    by (rule calm_write [OF sample_encodes]) (simp_all add: sample_root_def task_files_def temp_name_def task_calm_def)
  then show ?thesis
    using sample_valid [of 1] sample_held by (simp add: save_task_def Let_def sample_same case_prod_beta)
qed

lemma sample_listed: "list_locked task_calm sample_root = Inr [sample_record]"
  using sample_held
  by (simp add: list_locked_def sample_root_def scan_limit_def history_limit_def newest_first_def)

lemma sample_stored: "stored sample_root ''task-0001'' = Some sample_record"
  by (simp add: stored_def sample_held)

theorem save_is_commit_witness:
  "\<exists>states. save_task task_calm task_calm 2 sample_root sample_record 1 = (states, sample_record\<lparr>t_revision := 2\<rparr>, Inr True)
     \<and> stored (last states) ''task-0001'' = Some (sample_record\<lparr>t_revision := 2\<rparr>)"
proof -
  have "stored (last (fst (write_locked task_calm sample_root (sample_record\<lparr>t_revision := 2\<rparr>)))) ''task-0001''
      = Some (sample_record\<lparr>t_revision := 2\<rparr>)"
    using save_is_commit [OF sample_save] by simp
  with sample_save show ?thesis by blast
qed

theorem no_lost_update_witness:
  "snd (snd (save_task task_calm task_calm 1
      (last (fst (write_locked task_calm sample_root (sample_record\<lparr>t_revision := 2\<rparr>)))) sample_record 1)) \<noteq> Inr True"
  using no_lost_update [OF sample_save] by simp

theorem recovery_retires_witness:
  "\<exists>states out. recover_interrupted task_calm sample_root 7 = (states, out)
     \<and> (\<forall>n. out = Inr n \<longrightarrow> stored (last states) ''task-0001'' = Some (interrupted 7 sample_record))"
proof -
  obtain states out where r: "recover_interrupted task_calm sample_root 7 = (states, out)" by fastforce
  have "active sample_record" by (simp add: active_def active_states_def)
  then have "\<forall>n. out = Inr n \<longrightarrow> stored (last states) ''task-0001'' = Some (interrupted 7 sample_record)"
    using recovery_retires [OF r task_sample_names] sample_stored by simp
  with r show ?thesis by blast
qed

theorem pages_list_all_witness:
  "concat (map (\<lambda>j. projr (list_tasks task_calm sample_root (j * 1) 1)) [0..<1]) = [sample_record]"
  using pages_list_all [OF sample_listed, of 1 1] task_sample_names by simp

end
