(* ===== verification/JobContract.thy ===== *)
theory JobContract
  imports JobControl TaskStoreContract
begin

text \<open>
  What the job service promises.  Its operations are the steps of a machine on its state, interleaved in
  any order its owners allow; the job, its generation and the records of the store keep an invariant,
  and the consequences are what a client of the service relies on.
\<close>

section \<open>Writes of the service\<close>

lemma save_state_put:
  assumes "save_task k l cap root r e = (states, r', out)" and "map_order (t_params r)" and "t \<in> set states"
  shows "stored t = stored root \<or> stored t = (stored root)(t_id r \<mapsto> r\<lparr>t_revision := e + 1\<rparr>)"
  using assms(1,2)
proof (cases rule: task_save_cases)
  case (written result)
  then show ?thesis
    using write_locked_states [OF written(1) _ _ assms(3)] assms(2) word_next(1) [OF written(3)] by auto
qed (use assms(3) in simp)

text \<open>What one save does to the state of the service, whatever the kernel answers.\<close>

definition put_record :: "service \<Rightarrow> task_record \<Rightarrow> root \<Rightarrow> bool" where
  "put_record s r root \<longleftrightarrow> stored root = (stored (sv_root s))(t_id r \<mapsto> r\<lparr>t_revision := t_revision r + 1\<rparr>)"

lemma store_save_cases:
  assumes "store_save e s r = (s', out)" and "map_order (t_params r)"
  obtains root where "s' = s\<lparr>sv_root := root\<rparr>" "out \<noteq> Inr True" "stored root = stored (sv_root s)"
  | root where "s' = s\<lparr>sv_root := root\<rparr>" "put_record s r root" "out = Inr True \<or> (\<exists>m. out = Inl (Runtime_error m))"
proof -
  obtain states r' o1 where save: "save_task (e_save e) (e_list e) (sv_capacity s) (sv_root s) r (t_revision r) = (states, r', o1)"
    using prod_cases3 by blast
  then have s': "s' = s\<lparr>sv_root := last states\<rparr>" "out = o1" using assms(1) by (simp_all add: store_save_def)
  note c = task_save_committed [OF save assms(2)]
  have "stored (last states) = stored (sv_root s) \<or> put_record s r (last states)"
    using save_state_put [OF save assms(2), of "last states"] c by (auto simp: put_record_def)
  with c s' that show thesis by (cases "out = Inr True") (auto simp: put_record_def)
qed

lemma store_get_Some:
  "store_get e s i = Inr (Some r) \<Longrightarrow> stored (sv_root s) i = Some r \<and> t_id r = i \<and> map_order (t_params r)"
  using read_locked_stored [of "e_get e" "sv_root s" i "Some r"] storedD [of "sv_root s" i r]
  by (simp add: store_get_def get_task_def)

definition record_changed :: "(task_record \<Rightarrow> task_record) \<Rightarrow> string \<Rightarrow> root \<Rightarrow> root \<Rightarrow> bool" where
  "record_changed f i root root' \<longleftrightarrow>
     (\<exists>r v. stored root i = Some r \<and> stored root' = (stored root)(i \<mapsto> (f r)\<lparr>t_revision := v\<rparr>))"

definition proper :: "(task_record \<Rightarrow> task_record) \<Rightarrow> bool" where
  "proper f \<longleftrightarrow> (\<forall>r. t_id (f r) = t_id r \<and> (map_order (t_params r) \<longrightarrow> map_order (t_params (f r))))"

lemma save_or_throw_cases:
  assumes "store_get e s i = Inr (Some r)" and "save_or_throw e s (f r) m = (s', out)" and "proper f"
  obtains root where "s' = s\<lparr>sv_root := root\<rparr>" "record_changed f i (sv_root s) root"
  | root where "s' = s\<lparr>sv_root := root\<rparr>" "\<not> is_ok out" "stored root = stored (sv_root s)"
proof -
  note g = store_get_Some [OF assms(1)]
  have o: "map_order (t_params (f r))" "t_id (f r) = i" using g assms(3) by (simp_all add: proper_def)
  obtain s1 o1 where save: "store_save e s (f r) = (s1, o1)" by fastforce
  have s': "s' = s1" "out = (case o1 of Inl x \<Rightarrow> Inl x | Inr True \<Rightarrow> Inr () | Inr False \<Rightarrow> Inl (Runtime_error m))"
    using assms(2) by (simp_all add: save_or_throw_def save)
  have put: "record_changed f i (sv_root s) root" if "put_record s (f r) root" for root
    using that g o(2) by (auto simp: record_changed_def put_record_def)
  show thesis
    using save o(1)
  proof (cases rule: store_save_cases)
    case (1 root)
    then show thesis using s' that(2) [of root] by (simp split: sum.splits bool.splits)
  next
    case (2 root)
    then show thesis using s' that(1) [of root] put by simp
  qed
qed

text \<open>The outcome of an update of one record: written, or refused and reported.\<close>

definition wrote :: "(task_record \<Rightarrow> task_record) \<Rightarrow> string \<Rightarrow> service \<Rightarrow> service \<times> 'a result \<Rightarrow> bool" where
  "wrote f i s p \<longleftrightarrow> (\<exists>root. fst p = s\<lparr>sv_root := root\<rparr>
     \<and> (record_changed f i (sv_root s) root \<or> stored root = stored (sv_root s) \<and> \<not> is_ok (snd p)))"

lemma wrote_save:
  "store_get e s i = Inr (Some r) \<Longrightarrow> proper f \<Longrightarrow> wrote f i s (save_or_throw e s (f r) m)"
  by (cases "save_or_throw e s (f r) m", erule (1) save_or_throw_cases) (auto simp: wrote_def)

lemma wrote_refused: "wrote f i s (s, Inl x)"
  unfolding wrote_def by (rule exI [of _ "sv_root s"]) simp

lemma wrote_update:
  "proper f \<Longrightarrow> wrote f i s (case store_get e s i of Inl x \<Rightarrow> (s, Inl x) | Inr None \<Rightarrow> (s, Inl y)
     | Inr (Some r) \<Rightarrow> save_or_throw e s (f r) m)"
  by (auto simp: wrote_refused wrote_save split: sum.split option.split)

text \<open>The same with its failure recorded in \<^const>\<open>sv_failed\<close>.\<close>

definition wrote_or_failed :: "(task_record \<Rightarrow> task_record) \<Rightarrow> string \<Rightarrow> service \<Rightarrow> service \<times> 'a result \<Rightarrow> bool" where
  "wrote_or_failed f i s p \<longleftrightarrow> (\<exists>root. fst p = s\<lparr>sv_root := root, sv_failed := (sv_failed s \<or> \<not> is_ok (snd p))\<rparr>
     \<and> (record_changed f i (sv_root s) root \<or> stored root = stored (sv_root s) \<and> \<not> is_ok (snd p)))"

lemma wrote_flag: "wrote f i s p \<Longrightarrow> wrote_or_failed f i s (flag_failure p)"
  by (auto simp: wrote_def wrote_or_failed_def flag_failure_def)

lemma wrote_failed: "sv_failed s \<Longrightarrow> wrote_or_failed f i s (s, Inl x)"
  unfolding wrote_or_failed_def by (rule exI [of _ "sv_root s"]) simp

lemma persisted_proper [simp]: "proper (persisted_record e state terminal j)"
  by (simp add: proper_def persisted_record_def Let_def)

lemma persist_job_wrote:
  "sv_tasks s \<Longrightarrow>
     wrote_or_failed (persisted_record e state terminal (sv_job s)) (j_id (sv_job s)) s (persist_job e state terminal s)"
  unfolding persist_job_def
  by (auto simp: wrote_failed wrote_refused wrote_save intro!: wrote_flag split: sum.split option.split)

section \<open>The steps\<close>

text \<open>
  The operations of the service as one step relation.  A worker calls its own operations only while its
  job runs, which \<open>owned\<close> says of the generation it holds; a ticket names the job of its generation.
  \<^verbatim>\<open>run_training\<close> calls \<^const>\<open>training_checkpoint\<close> and the other workers \<^const>\<open>audio_boundary\<close>; the stages
  \<^verbatim>\<open>set_stage\<close> and \<^verbatim>\<open>finish\<close> are called with are those of the code.
\<close>

definition owned :: "u64 \<Rightarrow> (job \<Rightarrow> bool) \<Rightarrow> service \<Rightarrow> bool" where
  "owned g P s \<longleftrightarrow> (j_generation (sv_job s) = g \<longrightarrow> j_running (sv_job s) \<and> P (sv_job s))"

definition staged_job :: "job \<Rightarrow> bool" where
  "staged_job j \<longleftrightarrow> audio_job j \<or> j_recoverable j"

inductive job_step :: "service \<Rightarrow> service \<Rightarrow> bool" where
  reserving: "job_step s (fst (reserve_job e room name jk requested s))"
| staging: "owned g (\<lambda>_. True) s \<Longrightarrow> stage = ''queued'' \<or> starts_with stage ''step:'' \<Longrightarrow> job_step s (fst (set_stage e g stage s))"
| checkpointing: "owned g (\<lambda>j. \<not> staged_job j) s \<Longrightarrow> job_step s (fst (training_checkpoint e g stage s))"
| bounding: "owned g staged_job s \<Longrightarrow> job_step s (fst (audio_boundary e g stage s))"
| progressing: "job_step s (fst (observe_progress e g p s))"
| finishing: "owned g (\<lambda>_. True) s \<Longrightarrow> stage \<in> {''error'', ''step-done''} \<Longrightarrow> job_step s (finish e g stage error s)"
| finishing_training: "owned g (\<lambda>_. True) s \<Longrightarrow> job_step s (finish_training e g outcome s)"
| finishing_audio: "owned (ti_generation t) (\<lambda>j. j_id j = ti_id t) s \<Longrightarrow>
    job_step s (finish_audio_task e t result error paused digest s)"
| channelling: "j_running (sv_job s) \<Longrightarrow> job_step s (open_channel token s)"
| registering: "job_step s (fst (register_training_channel g s))"
| closing: "job_step s (close_channel g clean s)"
| retaining: "job_step s (fst (retain_recipe e i inserted assigned m s))"
| retaining_training: "owned g (\<lambda>j. j_id j = i \<and> j_kind j = Training_job) s \<Longrightarrow> j_generation (sv_job s) = g \<Longrightarrow>
    job_step s (fst (retain_training e i preprocessed s))"
| cancelling: "job_step s (fst (cancel_job i delivered s))"
| pausing: "job_step s (fst (pause_job e i attempt s))"
| pausing_failed: "job_step s (pause_undelivered i attempt s)"
| resuming: "job_step s (fst (resume_job e q room i attempt s))"
| renaming: "job_step s (fst (rename_task e i name expected s))"
| cleaning: "job_step s (fst (cleanup_task e i attempt pruned s))"
| guarding: "owned g (\<lambda>j. j_id j = i \<and> staged_job j) s \<Longrightarrow> job_step s (fst (guard_pause e g i reason s))"
| guarding_failed: "job_step s (fst (guard_undelivered g s))"

section \<open>What every step keeps\<close>

text \<open>Of a record: its attempt never falls, and within one phase of one stage neither does its progress.\<close>

definition record_grows :: "task_record option \<Rightarrow> task_record option \<Rightarrow> bool" where
  "record_grows old new \<longleftrightarrow> (case (old, new) of
      (Some r, Some q) \<Rightarrow> t_attempt r \<le> t_attempt q
        \<and> (t_attempt q = t_attempt r \<and> t_stage q = t_stage r \<and> t_phase q = t_phase r \<and> t_unit q = t_unit r
             \<and> t_total q = t_total r \<longrightarrow> t_completed r \<le> t_completed q)
    | (Some r, None) \<Rightarrow> False
    | _ \<Rightarrow> True)"

definition store_grows :: "root \<Rightarrow> root \<Rightarrow> bool" where
  "store_grows root root' \<longleftrightarrow> (\<forall>i. record_grows (stored root i) (stored root' i))"

text \<open>Of the job: its generation never falls, and within one generation what a request decided stays.\<close>

definition stage_allowed :: "job \<Rightarrow> string \<Rightarrow> bool" where
  "stage_allowed j stage \<longleftrightarrow> stage \<notin> {''saving'', ''publishing''}
     \<or> (if staged_job j then \<not> j_pause_requested j \<and> \<not> (j_recoverable j \<and> j_cancel_requested j)
        else \<not> j_cancel_requested j)"

definition same_job :: "job \<Rightarrow> job \<Rightarrow> bool" where
  "same_job j k \<longleftrightarrow> j_id k = j_id j \<and> j_kind k = j_kind j \<and> j_attempt k = j_attempt j
     \<and> (j_recoverable j \<longrightarrow> j_recoverable k) \<and> (j_cancel_requested j \<longrightarrow> j_cancel_requested k)
     \<and> (j_pause_requested j \<longrightarrow> j_pause_requested k) \<and> (j_running k \<longrightarrow> j_running j)
     \<and> (j_stage k = j_stage j \<or> stage_allowed j (j_stage k))"

definition job_grows :: "job \<Rightarrow> job \<Rightarrow> bool" where
  "job_grows j k \<longleftrightarrow> j_generation k = j_generation j \<and> same_job j k
     \<or> j_generation j \<noteq> - 1 \<and> j_generation k = j_generation j + 1 \<and> \<not> j_running j"

lemma store_grows_refl [simp]: "store_grows root root"
  by (auto simp: store_grows_def record_grows_def split: option.split)

lemma store_grows_stored: "stored root' = stored root \<Longrightarrow> store_grows root root'"
  by (auto simp: store_grows_def record_grows_def split: option.split)

definition grows_by :: "(task_record \<Rightarrow> task_record) \<Rightarrow> string \<Rightarrow> root \<Rightarrow> bool" where
  "grows_by f i root \<longleftrightarrow> (\<forall>r. stored root i = Some r \<longrightarrow> record_grows (Some r) (Some (f r)))"

lemma store_grows_changed:
  assumes "record_changed f i root root'" and "grows_by f i root"
  shows "store_grows root root'"
proof -
  from assms(1) obtain r v where r: "stored root i = Some r" "stored root' = (stored root)(i \<mapsto> (f r)\<lparr>t_revision := v\<rparr>)"
    by (auto simp: record_changed_def)
  with assms(2) have "record_grows (Some r) (Some (f r))" by (simp add: grows_by_def)
  then have "record_grows (stored root j) (stored root' j)" for j
    using r by (auto simp: record_grows_def split: option.split)
  then show ?thesis by (simp add: store_grows_def)
qed

lemma same_job_refl [simp]: "same_job j j" and job_grows_refl [simp]: "job_grows j j"
  by (simp_all add: same_job_def job_grows_def)

section \<open>The active execution\<close>

text \<open>The attempts the store shows as active, and the one the service runs.\<close>

definition live :: "root \<Rightarrow> string \<Rightarrow> u64 option" where
  "live root i = (case stored root i of None \<Rightarrow> None | Some r \<Rightarrow> if active r then Some (t_attempt r) else None)"

definition running_job :: "job \<Rightarrow> string \<Rightarrow> u64 option" where
  "running_job j = (if j_running j then [j_id j \<mapsto> j_attempt j] else Map.empty)"

definition exclusive :: "service \<Rightarrow> bool" where
  "exclusive s \<longleftrightarrow> (sv_tasks s \<and> \<not> sv_failed s \<longrightarrow> live (sv_root s) = running_job (sv_job s))"

lemma live_stored: "stored root' = stored root \<Longrightarrow> live root' = live root"
  by (simp add: live_def fun_eq_iff)

lemma live_changed:
  "record_changed f i root root' \<Longrightarrow>
     \<exists>r. stored root i = Some r \<and> live root' = (live root)(i := if active (f r) then Some (t_attempt (f r)) else None)"
  by (force simp: record_changed_def live_def fun_eq_iff active_def)

text \<open>An update that leaves the state and the attempt of a record.\<close>

definition harmless :: "(task_record \<Rightarrow> task_record) \<Rightarrow> bool" where
  "harmless f \<longleftrightarrow> (\<forall>r. active (f r) = active r \<and> t_attempt (f r) = t_attempt r)"

lemma live_harmless: "record_changed f i root root' \<Longrightarrow> harmless f \<Longrightarrow> live root' = live root"
  by (drule live_changed) (auto simp: harmless_def live_def fun_eq_iff)

definition step_ok :: "service \<Rightarrow> service \<Rightarrow> bool" where
  "step_ok s t \<longleftrightarrow> sv_tasks t = sv_tasks s \<and> (sv_failed s \<longrightarrow> sv_failed t) \<and> store_grows (sv_root s) (sv_root t)
     \<and> job_grows (sv_job s) (sv_job t) \<and> (exclusive s \<longrightarrow> exclusive t)"

lemma step_ok_refl [simp]: "step_ok s s"
  by (simp add: step_ok_def)

lemma set_own_job: "sv_job t = k \<Longrightarrow> t\<lparr>sv_job := k\<rparr> = t"
  by (cases t) simp

text \<open>A step of the job alone.\<close>

lemma step_ok_job:
  "job_grows (sv_job s) (f (sv_job s)) \<Longrightarrow> running_job (f (sv_job s)) = running_job (sv_job s) \<Longrightarrow> step_ok s (with_job s f)"
  by (simp add: step_ok_def exclusive_def)

text \<open>A write that leaves the active executions.\<close>

lemma step_ok_harmless:
  assumes "wrote f i s p \<or> wrote_or_failed f i s p" and "harmless f" and "grows_by f i (sv_root s)"
    and "job_grows (sv_job s) k" and "running_job k = running_job (sv_job s)"
  shows "step_ok s ((fst p)\<lparr>sv_job := k\<rparr>)"
proof -
  from assms(1) obtain root b where p: "fst p = s\<lparr>sv_root := root, sv_failed := (sv_failed s \<or> b)\<rparr>"
    and r: "record_changed f i (sv_root s) root \<or> stored root = stored (sv_root s)"
  proof (elim disjE)
    assume "wrote f i s p"
    then show thesis using that [where b = False] by (auto simp: wrote_def)
  qed (use that [where b = "\<not> is_ok (snd p)"] in \<open>auto simp: wrote_or_failed_def\<close>)
  have "store_grows (sv_root s) root \<and> live root = live (sv_root s)"
    using r assms(2,3) store_grows_changed live_harmless store_grows_stored live_stored by blast
  with p assms(4,5) show ?thesis by (simp add: step_ok_def exclusive_def)
qed

lemma step_ok_harmless_same:
  assumes "wrote f i s p \<or> wrote_or_failed f i s p" and "harmless f" and "grows_by f i (sv_root s)"
  shows "step_ok s (fst p)"
proof -
  have "sv_job (fst p) = sv_job s" using assms(1) by (auto simp: wrote_def wrote_or_failed_def)
  then show ?thesis using step_ok_harmless [OF assms, of "sv_job s"] by (simp add: set_own_job)
qed

section \<open>Persisting the job\<close>

lemma persisted_grows: "grows_by (persisted_record e state terminal j) i root"
  by (simp add: grows_by_def record_grows_def persisted_record_def Let_def)

lemma persisted_simps [simp]:
  "t_state (persisted_record e state terminal j r) = state" "t_attempt (persisted_record e state terminal j r) = t_attempt r"
  by (simp_all add: persisted_record_def Let_def)

definition persisted :: "service \<Rightarrow> service \<Rightarrow> bool" where
  "persisted s t \<longleftrightarrow> sv_job t = sv_job s \<and> sv_tasks t = sv_tasks s \<and> (sv_failed s \<longrightarrow> sv_failed t)
     \<and> store_grows (sv_root s) (sv_root t)"

lemma persist_job_persisted: "persisted s (fst (persist_job e state terminal s))"
proof (cases "sv_tasks s")
  case True
  from persist_job_wrote [OF this, of e state terminal] show ?thesis
    using store_grows_changed [OF _ persisted_grows] store_grows_stored
    by (auto simp: wrote_or_failed_def persisted_def)
qed (simp add: persist_job_def persisted_def)

text \<open>A running job persisted in a state: still the one active execution, or the last one.\<close>

lemma persist_live:
  assumes "j_running (sv_job s)" and "exclusive s" and "fst (persist_job e state terminal s) = t"
    and "sv_tasks s" and "\<not> sv_failed t"
  shows "live (sv_root t) = (if state \<in> set active_states then running_job (sv_job s) else Map.empty)"
proof -
  let ?f = "persisted_record e state terminal (sv_job s)" and ?i = "j_id (sv_job s)"
  from persist_job_wrote [OF assms(4), of e state terminal] assms(3,5)
  have c: "\<not> sv_failed s" "record_changed ?f ?i (sv_root s) (sv_root t)"
    by (auto simp: wrote_or_failed_def)
  have l: "live (sv_root s) = [?i \<mapsto> j_attempt (sv_job s)]"
    using assms(1,2,4) c(1) by (simp add: exclusive_def running_job_def)
  from live_changed [OF c(2)] obtain r where r: "stored (sv_root s) ?i = Some r"
    "live (sv_root t) = (live (sv_root s))(?i := if active (?f r) then Some (t_attempt (?f r)) else None)" by blast
  have a: "t_attempt r = j_attempt (sv_job s)"
    using fun_cong [OF l, of ?i] r(1) by (simp add: live_def split: if_splits)
  show ?thesis unfolding r(2) using l a assms(1) by (simp add: active_def running_job_def)
qed

text \<open>An operation that changes the job, persists it as active, and may change it again.\<close>

lemma step_ok_persist:
  assumes "j_running k" and "running_job k = running_job (sv_job s)" and "state \<in> set active_states"
    and "fst (persist_job e state False (s\<lparr>sv_job := k\<rparr>)) = t"
    and "job_grows (sv_job s) k'" and "running_job k' = running_job k"
  shows "step_ok s (t\<lparr>sv_job := k'\<rparr>)"
proof -
  note p = persist_job_persisted [of "s\<lparr>sv_job := k\<rparr>" e state False, unfolded assms(4) persisted_def]
  have "live (sv_root t) = running_job k" if "exclusive s" "sv_tasks s" "\<not> sv_failed t"
  proof -
    have "exclusive (s\<lparr>sv_job := k\<rparr>)" using that(1) assms(2) by (simp add: exclusive_def)
    then show ?thesis using persist_live [OF _ _ assms(4)] that(2,3) assms(1,3) by simp
  qed
  then show ?thesis using p assms(5,6) by (simp add: step_ok_def exclusive_def)
qed

lemma step_ok_persist_same:
  assumes "j_running k" and "running_job k = running_job (sv_job s)" and "state \<in> set active_states" and "job_grows (sv_job s) k"
  shows "step_ok s (fst (persist_job e state False (s\<lparr>sv_job := k\<rparr>)))"
proof -
  have "sv_job (fst (persist_job e state False (s\<lparr>sv_job := k\<rparr>))) = k"
    using persist_job_persisted [of "s\<lparr>sv_job := k\<rparr>" e state False] by (simp add: persisted_def)
  then show ?thesis using step_ok_persist [OF assms(1-3) refl assms(4) refl, of e] by (simp add: set_own_job)
qed

text \<open>The end of a job.\<close>

lemma step_ok_terminal:
  assumes "j_running (sv_job s)" and "state \<notin> set active_states" and "job_grows (sv_job s) k" and "\<not> j_running k"
  shows "step_ok s ((fst (persist_job e state True s))\<lparr>sv_job := k\<rparr>)"
proof -
  obtain t where t: "fst (persist_job e state True s) = t" by simp
  have "live (sv_root t) = running_job k" if "exclusive s" "sv_tasks s" "\<not> sv_failed t"
    using persist_live [OF assms(1) that(1) t that(2,3)] assms(2,4) by (simp add: running_job_def)
  then show ?thesis
    using persist_job_persisted [of s e state True] assms(3) by (simp add: t persisted_def step_ok_def exclusive_def)
qed

section \<open>Every operation is such a step\<close>

lemma word_next_ne: "g \<noteq> - 1 \<Longrightarrow> g + 1 \<noteq> g" for g :: u64
  by simp

lemma next_job: "\<not> j_running j \<Longrightarrow> j_generation j \<noteq> - 1 \<Longrightarrow> j_generation k = j_generation j + 1 \<Longrightarrow> job_grows j k"
  by (simp add: job_grows_def)

lemma same_generation: "j_generation k = j_generation j \<Longrightarrow> same_job j k \<Longrightarrow> job_grows j k"
  by (simp add: job_grows_def)

lemma with_job_fold: "s\<lparr>sv_job := f (sv_job s)\<rparr> = with_job s f" ..

lemma put_new_record:
  assumes "put_record s r root" and "stored (sv_root s) (t_id r) = None"
  shows "store_grows (sv_root s) root
    \<and> live root = (live (sv_root s))(t_id r := if active r then Some (t_attempt r) else None)"
proof
  show "store_grows (sv_root s) root"
    using assms by (auto simp: put_record_def store_grows_def record_grows_def split: option.split)
  show "live root = (live (sv_root s))(t_id r := if active r then Some (t_attempt r) else None)"
    using assms by (simp add: put_record_def live_def fun_eq_iff active_def)
qed

lemma save_new_unstored:
  assumes "store_save e s r = (s', out)" and "map_order (t_params r)" and "t_revision r = 0"
    and "stored (sv_root s) (t_id r) \<noteq> None"
  shows "stored (sv_root s') = stored (sv_root s) \<and> out \<noteq> Inr True \<and> sv_job s' = sv_job s"
proof -
  obtain states r' o1 where save: "save_task (e_save e) (e_list e) (sv_capacity s) (sv_root s) r 0 = (states, r', o1)"
    using prod_cases3 by blast
  then have s': "s' = s\<lparr>sv_root := last states\<rparr>" "out = o1" using assms(1,3) by (simp_all add: store_save_def)
  from save assms(2) show ?thesis
  proof (cases rule: task_save_cases)
    case (written result)
    from assms(4) obtain p where p: "stored (sv_root s) (t_id r) = Some p" by blast
    with written(5) have "t_revision p = 0" by simp
    with storedD [OF p] show ?thesis by simp
  qed (simp add: s')
qed

lemma reserve_ok: "step_ok s (fst (reserve_job e room name jk requested s))"
proof (cases "j_running (sv_job s) \<or> (\<exists>x. room = Inl x) \<or> j_generation (sv_job s) = - 1 \<or> sv_failed s")
  case True
  then show ?thesis by (auto simp: reserve_job_def Let_def split: sum.split)
next
  case False
  define g where "g = j_generation (sv_job s) + 1"
  define t where "t = \<lparr>ti_generation = g, ti_id = (if requested = [] then sv_instance s @ ''-'' @ to_string g else requested),
    ti_attempt = 1\<rparr>"
  define k where "k = reserved_job t name jk (sv_job s)"
  define r where "r = reserved_record e (ti_id t) name jk"
  obtain s' out where save: "store_save e s r = (s', out)" by fastforce
  have go: "reserve_job e room name jk requested s =
     (if \<not> sv_tasks s then (s\<lparr>sv_job := k\<rparr>, Inr (Some t))
      else case out of Inr True \<Rightarrow> (s'\<lparr>sv_job := reserved_job t name jk (sv_job s')\<rparr>, Inr (Some t)) | Inr False \<Rightarrow> (s', Inr None)
         | Inl x \<Rightarrow> if x = Task_capacity then (s', Inl (Workflow_error 409)) else (s'\<lparr>sv_failed := True\<rparr>, Inl x))"
    unfolding reserve_job_def Let_def g_def [symmetric] t_def [symmetric] r_def [symmetric] save
    using False by (cases room) (simp_all add: k_def)
  have grows: "job_grows (sv_job s) k"
    using False by (intro next_job) (simp_all add: k_def reserved_job_def t_def g_def)
  have o: "map_order (t_params r)" and rev: "t_revision r = 0" and act: "active r" and att: "t_attempt r = j_attempt k"
    and id: "t_id r = j_id k" and run: "j_running k"
    by (simp_all add: r_def reserved_record_def new_record_def active_def active_states_def k_def reserved_job_def t_def)
  show ?thesis
  proof (cases "sv_tasks s")
    case False
    then show ?thesis using grows by (simp add: go step_ok_def exclusive_def)
  next
    case tasks: True
    from save o show ?thesis
    proof (cases rule: store_save_cases)
      case (1 root)
      have "store_grows (sv_root s) root \<and> live root = live (sv_root s)"
        using 1(3) store_grows_stored live_stored by blast
      then show ?thesis using 1 tasks by (auto simp: go step_ok_def exclusive_def split: sum.split bool.split)
    next
      case (2 root)
      have new: "stored (sv_root s) (t_id r) = None" if "out = Inr True"
        using save_new_unstored [OF save o rev] that by blast
      have "put_record s r root \<Longrightarrow> stored (sv_root s) (t_id r) \<noteq> None \<Longrightarrow> stored root = stored (sv_root s)"
        using save_new_unstored [OF save o rev] 2(1) by auto
      then have g: "store_grows (sv_root s) root"
        using put_new_record [OF 2(2)] 2(2) store_grows_stored by blast
      show ?thesis
      proof (cases "out = Inr True")
        case True
        have "live root = (live (sv_root s))(j_id k \<mapsto> j_attempt k)"
          using put_new_record [OF 2(2) new [OF True]] act att id by simp
        then show ?thesis
          using True 2(1) tasks g grows False run
          by (simp add: go step_ok_def exclusive_def running_job_def flip: k_def)
      next
        case no: False
        then obtain m where m: "out = Inl (Runtime_error m)" using 2(3) by blast
        then show ?thesis using 2(1) tasks g by (simp add: go step_ok_def exclusive_def)
      qed
    qed
  qed
qed

lemma running_job_cong:
  "j_running k = j_running j \<Longrightarrow> j_id k = j_id j \<Longrightarrow> j_attempt k = j_attempt j \<Longrightarrow> running_job k = running_job j"
  by (simp add: running_job_def)

lemmas job_defs = same_job_def stage_allowed_def staged_job_def audio_job_def

lemma starts_with_step: "starts_with stage ''step:'' \<Longrightarrow> stage \<notin> {''saving'', ''publishing''}"
  by (auto simp: starts_with_def)

lemma set_stage_ok:
  assumes "owned g (\<lambda>_. True) s" and "stage = ''queued'' \<or> starts_with stage ''step:''"
  shows "step_ok s (fst (set_stage e g stage s))"
proof (cases "j_generation (sv_job s) = g")
  case True
  let ?k = "(sv_job s)\<lparr>j_stage := stage\<rparr>"
  have "stage_allowed (sv_job s) stage" using assms(2) starts_with_step by (auto simp: stage_allowed_def)
  then have "job_grows (sv_job s) ?k" by (intro same_generation) (simp_all add: same_job_def)
  moreover have "j_running ?k" using assms(1) True by (simp add: owned_def)
  moreover have "running_job ?k = running_job (sv_job s)" by (rule running_job_cong) simp_all
  ultimately show ?thesis using True
    by (simp add: set_stage_def step_ok_persist_same active_states_def)
qed (simp add: set_stage_def)

lemma training_checkpoint_ok:
  assumes "owned g (\<lambda>j. \<not> staged_job j) s"
  shows "step_ok s (fst (training_checkpoint e g stage s))"
proof (cases "j_generation (sv_job s) \<noteq> g \<or> j_cancel_requested (sv_job s) \<or> j_cancel_error (sv_job s)")
  case False
  let ?k = "(sv_job s)\<lparr>j_stage := stage\<rparr>"
  have k: "j_running ?k" "job_grows (sv_job s) ?k"
    using assms False by (auto simp: owned_def job_defs intro!: same_generation)
  have "step_ok s (fst (persist_job e ''running'' False (s\<lparr>sv_job := ?k\<rparr>)))"
    by (rule step_ok_persist_same [OF k(1) running_job_cong _ k(2)]) (simp_all add: active_states_def)
  then show ?thesis using False by (simp add: training_checkpoint_def Let_def case_prod_beta)
qed (simp add: training_checkpoint_def Let_def)

lemma audio_boundary_ok:
  assumes "owned g staged_job s"
  shows "step_ok s (fst (audio_boundary e g stage s))"
proof (cases "g = 0 \<or> j_generation (sv_job s) \<noteq> g \<or> j_cancel_error (sv_job s) \<or> j_pause_requested (sv_job s)
    \<or> j_recoverable (sv_job s) \<and> j_cancel_requested (sv_job s) \<or> stage = []")
  case False
  let ?k = "(sv_job s)\<lparr>j_stage := stage\<rparr>"
  have k: "j_running ?k" "job_grows (sv_job s) ?k"
    using assms False by (auto simp: owned_def job_defs intro!: same_generation)
  have "step_ok s (fst (persist_job e ''running'' False (s\<lparr>sv_job := ?k\<rparr>)))"
    by (rule step_ok_persist_same [OF k(1) running_job_cong _ k(2)]) (simp_all add: active_states_def)
  then show ?thesis using False by (auto simp: audio_boundary_def Let_def)
qed (auto simp: audio_boundary_def Let_def)

lemma finish_ok:
  assumes "owned g (\<lambda>_. True) s" and "stage \<in> {''error'', ''step-done''}"
  shows "step_ok s (finish e g stage error s)"
proof (cases "j_generation (sv_job s) = g")
  case True
  define t where "t = fst (persist_job e (if error then ''failed'' else ''succeeded'') True s)"
  define k where "k = (sv_job s)\<lparr>j_stage := stage, j_error := (error \<or> sv_failed t), j_done := True, j_running := False\<rparr>"
  have job: "sv_job t = sv_job s" unfolding t_def using persist_job_persisted by (simp add: persisted_def)
  have "job_grows (sv_job s) k"
    using assms(2) by (intro same_generation) (auto simp: k_def same_job_def stage_allowed_def)
  then have "step_ok s (t\<lparr>sv_job := k\<rparr>)"
    unfolding t_def using assms(1) True
    by (intro step_ok_terminal) (auto simp: owned_def k_def active_states_def)
  then show ?thesis using True by (simp add: finish_def persist_terminal_def Let_def job k_def flip: t_def)
qed (simp add: finish_def)

lemma finish_training_ok:
  assumes "owned g (\<lambda>_. True) s"
  shows "step_ok s (finish_training e g outcome s)"
proof (cases "j_generation (sv_job s) = g \<and> j_kind (sv_job s) = Training_job")
  case True
  define o1 where "o1 = (if j_cancel_error (sv_job s) then Training_error else outcome)"
  define t where "t = fst (persist_job e (outcome_state o1) True s)"
  define o2 where "o2 = (if sv_failed t then Training_error else o1)"
  define k where "k = (sv_job s)\<lparr>j_cancelled := (o2 = Training_cancelled), j_error := (o2 = Training_error),
     j_stage := (if o2 = Training_paused then ''paused'' else if o2 = Training_cancelled then ''cancelled''
                 else if o2 = Training_error then ''error'' else ''done''),
     j_done := (o2 \<noteq> Training_paused), j_running := False\<rparr>"
  have job: "sv_job t = sv_job s" unfolding t_def using persist_job_persisted by (simp add: persisted_def)
  have "job_grows (sv_job s) k" by (intro same_generation) (simp_all add: k_def same_job_def stage_allowed_def)
  then have "step_ok s (t\<lparr>sv_job := k\<rparr>)"
    unfolding t_def using assms True
    by (intro step_ok_terminal) (auto simp: owned_def k_def active_states_def outcome_state_def split: training_outcome.split)
  then show ?thesis
    unfolding finish_training_def persist_terminal_def Let_def o1_def [symmetric] t_def [symmetric] o2_def [symmetric]
    using True by (simp add: job k_def)
qed (auto simp: finish_training_def)

text \<open>Updates of a record beside the job's own persistence.\<close>

lemma progress_harmless: "harmless (progress_record e p)" "proper (progress_record e p)"
  by (simp_all add: harmless_def proper_def progress_record_def active_def)

lemma observe_progress_ok: "step_ok s (fst (observe_progress e g p s))"
proof (cases "j_generation (sv_job s) \<noteq> g \<or> \<not> j_running (sv_job s) \<or> sv_failed s")
  case False
  let ?i = "j_id (sv_job s)"
  show ?thesis
  proof (cases "store_get e s ?i")
    case (Inl x)
    then have "fst (observe_progress e g p s) = s\<lparr>sv_failed := True\<rparr>"
      using False by (simp add: observe_progress_def flag_failure_def)
    then show ?thesis by (simp add: step_ok_def exclusive_def)
  next
    case (Inr found)
    show ?thesis
    proof (cases found)
      case None
      then have "fst (observe_progress e g p s) = s\<lparr>sv_failed := True\<rparr>"
        using False Inr by (simp add: observe_progress_def flag_failure_def)
      then show ?thesis by (simp add: step_ok_def exclusive_def)
    next
      case (Some r)
      note r = Inr [unfolded Some]
      define changed where "changed \<longleftrightarrow> t_phase r \<noteq> p_phase p \<or> t_unit r \<noteq> p_unit p \<or> t_total r \<noteq> p_total p"
      define k where "k = (sv_job s)\<lparr>j_progress_saved := e_steady e\<rparr>"
      obtain s' out where save: "save_or_throw e s (progress_record e p r) ''task progress revision changed'' = (s', out)"
        by fastforce
      have w0: "wrote (progress_record e p) ?i s (s', out)"
        using wrote_save [OF r progress_harmless(2)] save by metis
      then have w: "wrote_or_failed (progress_record e p) ?i s (flag_failure (s', out))" by (rule wrote_flag)
      have job: "sv_job s' = sv_job s" using w0 by (auto simp: wrote_def)
      define u where "u = (if is_ok out then with_job s' (\<lambda>j. j\<lparr>j_progress_saved := e_steady e\<rparr>) else s', out)"
      have obs: "observe_progress e g p s = flag_failure
          (if \<not> changed \<and> p_completed p < t_completed r then (s, Inl (Runtime_error ''task progress moved backwards''))
           else if \<not> changed \<and> p_completed p = t_completed r then (s, Inr ())
           else if \<not> changed \<and> p_completed p \<noteq> p_total p \<and> e_steady e - j_progress_saved (sv_job s) < 1000 then (s, Inr ())
           else u)"
        unfolding observe_progress_def r sum.case option.case Let_def changed_def [symmetric] save prod.case u_def using False by simp
      have stop: "step_ok s (fst (flag_failure (s, x :: unit result)))" for x
        by (simp add: flag_failure_def step_ok_def exclusive_def)
      have "step_ok s (fst (flag_failure u))" if "changed \<or> t_completed r \<le> p_completed p"
      proof -
        have "stored (sv_root s) ?i = Some r" using store_get_Some [OF r] by simp
        then have grows: "grows_by (progress_record e p) ?i (sv_root s)"
          using that by (auto simp: grows_by_def record_grows_def progress_record_def changed_def)
        have k: "job_grows (sv_job s) k" "running_job k = running_job (sv_job s)"
          by (simp_all add: k_def same_generation same_job_def running_job_def)
        note w' = disjI2 [OF w] progress_harmless(1) grows
        show ?thesis
          using step_ok_harmless [OF w' k] step_ok_harmless_same [OF w'] job
          by (cases "is_ok out") (simp_all add: u_def flag_failure_def k_def)
      qed
      then show ?thesis using stop by (cases changed) (simp_all add: obs)
    qed
  qed
qed (auto simp: observe_progress_def)

lemma finished_simps [simp]:
  "t_attempt (finished_record e j result error paused d r) = t_attempt r"
  "t_stage (finished_record e j result error paused d r) = t_stage r"
  "t_completed (finished_record e j result error paused d r) = t_completed r"
  by (simp_all add: finished_record_def Let_def)

lemma finished_state: "\<not> active (finished_record e j result error paused d r)"
  by (simp add: finished_record_def Let_def active_def active_states_def)

lemma finished_proper: "proper (finished_record e j result error paused d)"
  by (simp add: proper_def finished_record_def Let_def assign_order)

lemma finish_audio_ok:
  assumes "owned (ti_generation t) (\<lambda>j. j_id j = ti_id t) s"
  shows "step_ok s (finish_audio_task e t result error paused digest s)"
proof (cases "j_generation (sv_job s) = ti_generation t")
  case True
  with assms have run: "j_running (sv_job s)" and id: "j_id (sv_job s) = ti_id t" by (simp_all add: owned_def)
  define f where "f = finished_record e (sv_job s) result error paused"
  define D where "D = (if j_cancel_error (sv_job s) \<or> error \<noteq> [] \<or> paused then Inr [] else digest)"
  define p where "p = flag_failure
    (case store_get e s (ti_id t) of Inl x \<Rightarrow> (s, Inl x)
     | Inr None \<Rightarrow> (s, Inl (Runtime_error ''missing audio task record''))
     | Inr (Some r) \<Rightarrow>
         (case e_log e of Inl x \<Rightarrow> (s, Inl x)
          | Inr _ \<Rightarrow>
         (case D of Inl x \<Rightarrow> (s, Inl x)
          | Inr d \<Rightarrow> save_or_throw e s (f d r) ''cannot retain audio task result'')))"
  have "wrote_or_failed (f (projr D)) (ti_id t) s p"
    unfolding p_def
    by (auto simp: wrote_refused wrote_save finished_proper f_def intro!: wrote_flag split: sum.split option.split)
  then obtain d root where p: "fst p = s\<lparr>sv_root := root, sv_failed := (sv_failed s \<or> \<not> is_ok (snd p))\<rparr>"
    and r: "record_changed (f d) (ti_id t) (sv_root s) root \<or> stored root = stored (sv_root s) \<and> \<not> is_ok (snd p)"
    by (auto simp: wrote_or_failed_def)
  define k where "k = (sv_job s)\<lparr>j_done := True, j_error := (error \<noteq> [] \<or> j_cancel_error (sv_job s) \<or> sv_failed (fst p)), j_running := False\<rparr>"
  have grows: "store_grows (sv_root s) root"
    using r store_grows_changed [of "f d" "ti_id t"] store_grows_stored
    by (auto simp: f_def grows_by_def record_grows_def)
  have "live root = running_job k" if "exclusive s" "sv_tasks s" "\<not> sv_failed s" "is_ok (snd p)"
  proof -
    have l: "live (sv_root s) = [ti_id t \<mapsto> j_attempt (sv_job s)]"
      using that run id by (simp add: exclusive_def running_job_def)
    from r that(4) have "record_changed (f d) (ti_id t) (sv_root s) root" by simp
    from live_changed [OF this] show ?thesis
      using finished_state by (auto simp: l f_def k_def running_job_def)
  qed
  moreover have "job_grows (sv_job s) k" by (intro same_generation) (simp_all add: k_def same_job_def)
  ultimately have "step_ok s ((fst p)\<lparr>sv_job := k\<rparr>)"
    using grows by (auto simp: p step_ok_def exclusive_def)
  moreover have "finish_audio_task e t result error paused digest s = (fst p)\<lparr>sv_job := k\<rparr>"
    using True unfolding finish_audio_task_def Let_def f_def [symmetric] D_def [symmetric] p_def [symmetric]
    by (simp add: case_prod_beta p k_def)
  ultimately show ?thesis by simp
qed (simp add: finish_audio_task_def)

text \<open>The control channel changes the job alone.\<close>

lemma same_job_step:
  "j_generation (f (sv_job s)) = j_generation (sv_job s) \<Longrightarrow> same_job (sv_job s) (f (sv_job s))
     \<Longrightarrow> j_running (f (sv_job s)) = j_running (sv_job s) \<Longrightarrow> step_ok s (with_job s f)"
  by (intro step_ok_job same_generation) (simp_all add: same_job_def running_job_def)

lemma channel_ok:
  "step_ok s (open_channel token s)" "step_ok s (fst (register_training_channel g s))" "step_ok s (close_channel g clean s)"
  by (auto simp: open_channel_def register_training_channel_def close_channel_def same_job_def intro!: same_job_step)

lemma cancel_ok: "step_ok s (fst (cancel_job i delivered s))"
proof -
  have "fst (cancel_job i delivered s) \<in> {s, with_job s (\<lambda>j. j\<lparr>j_cancel_requested := True\<rparr>)}"
    by (simp add: cancel_job_def Let_def)
  moreover have "step_ok s (with_job s (\<lambda>j. j\<lparr>j_cancel_requested := True\<rparr>))"
    by (intro same_job_step) (simp_all add: same_job_def)
  ultimately show ?thesis using step_ok_refl [of s] by auto
qed

text \<open>Updates of the parameters of a record.\<close>

lemma insert_order: "map_order ps \<Longrightarrow> map_order (insert_params kvs ps)"
  by (induction kvs arbitrary: ps) (auto simp: insert_params_def emplace_order split: option.split prod.split)

lemma assign_params_order: "map_order ps \<Longrightarrow> map_order (assign_params kvs ps)"
  by (induction kvs arbitrary: ps) (auto simp: assign_params_def assign_order split: prod.split)

lemma grows_unchanged:
  assumes "\<And>r. t_attempt (f r) = t_attempt r \<and> t_completed (f r) = t_completed r"
  shows "grows_by f i root"
  using assms by (simp add: grows_by_def record_grows_def)

lemma retain_wrote:
  "wrote (\<lambda>r. r\<lparr>t_params := assign_params assigned (insert_params inserted (t_params r))\<rparr>) i s
     (retain_recipe e i inserted assigned m s)"
  unfolding retain_recipe_def by (rule wrote_update) (simp add: proper_def insert_order assign_params_order)

lemma params_harmless: "harmless (\<lambda>r. r\<lparr>t_params := g r\<rparr>)" "grows_by (\<lambda>r. r\<lparr>t_params := g r\<rparr>) i root"
  by (auto simp: harmless_def active_def intro!: grows_unchanged)

lemma retain_ok: "step_ok s (fst (retain_recipe e i inserted assigned m s))"
  by (rule step_ok_harmless_same [OF disjI1 [OF retain_wrote]]) (simp_all add: params_harmless)

lemma retain_training_ok:
  assumes "j_running (sv_job s)"
  shows "step_ok s (fst (retain_training e i preprocessed s))"
proof -
  define k where "k = (sv_job s)\<lparr>j_recoverable := True\<rparr>"
  obtain s' out where r: "retain_recipe e i []
      [(''recovery'', ''training-full-v1''), (''inputs_preprocessed'', if preprocessed then ''1'' else ''0'')]
      ''cannot retain fixed training recipe'' s = (s', out)" by fastforce
  note w = retain_wrote [of "[(''recovery'', ''training-full-v1''), (''inputs_preprocessed'', if preprocessed then ''1'' else ''0'')]"
      "[]" i s e "''cannot retain fixed training recipe''", unfolded r]
  have job: "sv_job s' = sv_job s" using w by (auto simp: wrote_def)
  have k: "job_grows (sv_job s) k" "running_job k = running_job (sv_job s)"
    by (simp_all add: k_def same_generation same_job_def running_job_def)
  have "step_ok s (s'\<lparr>sv_job := k\<rparr>)" "step_ok s s'"
    using step_ok_harmless [OF disjI1 [OF w] params_harmless(1) params_harmless(2) k]
      step_ok_harmless_same [OF disjI1 [OF w] params_harmless(1) params_harmless(2)] by simp_all
  then show ?thesis by (simp add: retain_training_def r job k_def)
qed

text \<open>Pausing.\<close>

lemma pause_ok: "step_ok s (fst (pause_job e i attempt s))"
proof (cases "sv_tasks s \<and> j_running (sv_job s) \<and> j_id (sv_job s) = i \<and> j_attempt (sv_job s) = attempt
    \<and> (audio_job (sv_job s) \<or> j_recoverable (sv_job s)) \<and> j_stage (sv_job s) \<noteq> ''saving'' \<and> j_stage (sv_job s) \<noteq> ''publishing''")
  case True
  define k where "k = (sv_job s)\<lparr>j_pause_requested := True\<rparr>"
  define t where "t = fst (persist_job e ''pause_requested'' False (s\<lparr>sv_job := k\<rparr>))"
  have g: "job_grows (sv_job s) k" by (auto simp: k_def same_job_def intro!: same_generation)
  have k: "j_running k" "running_job k = running_job (sv_job s)"
    using True by (simp_all add: k_def running_job_def)
  have a: "''pause_requested'' \<in> set active_states" by (simp add: active_states_def)
  have "step_ok s t" unfolding t_def by (rule step_ok_persist_same [OF k a g])
  moreover have c: "(\<not> sv_tasks s) = False" "(j_running (sv_job s) \<and> j_id (sv_job s) = i) = True"
    "(j_attempt (sv_job s) \<noteq> attempt) = False"
    "(\<not> audio_job (sv_job s) \<and> \<not> j_recoverable (sv_job s) \<or> j_stage (sv_job s) = ''saving'' \<or> j_stage (sv_job s) = ''publishing'') = False"
    using True by auto
  then have "fst (pause_job e i attempt s) = t"
    unfolding pause_job_def Let_def k_def [symmetric] t_def [symmetric] c if_True if_False by simp
  ultimately show ?thesis by simp
next
  case False
  then have "fst (pause_job e i attempt s) = s"
    by (auto simp: pause_job_def Let_def split: sum.split option.split)
  then show ?thesis by simp
qed

lemma undelivered_ok: "step_ok s (pause_undelivered i attempt s)" "step_ok s (fst (guard_undelivered g s))"
  by (auto simp: pause_undelivered_def guard_undelivered_def same_job_def intro!: same_job_step)

lemma reason_harmless:
  "harmless (\<lambda>r. r\<lparr>t_error := m\<rparr>)" "grows_by (\<lambda>r. r\<lparr>t_error := m\<rparr>) i root" "proper (\<lambda>r. r\<lparr>t_error := m\<rparr>)"
  by (auto simp: harmless_def active_def proper_def intro!: grows_unchanged)

text \<open>An update of a record that leaves what \<^const>\<open>record_grows\<close> looks at, before another one.\<close>

definition store_kept :: "root \<Rightarrow> root \<Rightarrow> bool" where
  "store_kept root root' \<longleftrightarrow> (\<forall>i. map_option (\<lambda>r. (t_attempt r, t_stage r, t_phase r, t_unit r, t_total r, t_completed r)) (stored root' i)
     = map_option (\<lambda>r. (t_attempt r, t_stage r, t_phase r, t_unit r, t_total r, t_completed r)) (stored root i))"

lemma store_kept_grows:
  assumes "store_kept root root'" and "store_grows root' root''"
  shows "store_grows root root''"
proof -
  have "record_grows (stored root i) (stored root'' i)" for i
  proof -
    have "record_grows (stored root' i) (stored root'' i)" using assms(2) by (simp add: store_grows_def)
    moreover have "map_option (\<lambda>r. (t_attempt r, t_stage r, t_phase r, t_unit r, t_total r, t_completed r)) (stored root' i)
       = map_option (\<lambda>r. (t_attempt r, t_stage r, t_phase r, t_unit r, t_total r, t_completed r)) (stored root i)"
      using assms(1) by (simp add: store_kept_def)
    ultimately show ?thesis by (cases "stored root i"; cases "stored root' i"; cases "stored root'' i") (auto simp: record_grows_def)
  qed
  then show ?thesis by (simp add: store_grows_def)
qed

lemma reason_kept: "record_changed (\<lambda>r. r\<lparr>t_error := m\<rparr>) i root root' \<Longrightarrow> store_kept root root'"
  by (auto simp: record_changed_def store_kept_def)

text \<open>The storage guard: the reason is written first, then the pause.\<close>

lemma guard_after_reason:
  assumes "wrote_or_failed (\<lambda>r. r\<lparr>t_error := m\<rparr>) i s1 p" and "s1 = s\<lparr>sv_job := k\<rparr>"
    and "job_grows (sv_job s) k" and "running_job k = running_job (sv_job s)" and "j_running k"
    and "is_ok (snd p)" and "fst (persist_job e ''pause_requested'' False (fst p)) = t"
  shows "step_ok s t"
proof -
  from assms(1,6) obtain root where p: "fst p = s1\<lparr>sv_root := root\<rparr>"
    and c: "record_changed (\<lambda>r. r\<lparr>t_error := m\<rparr>) i (sv_root s1) root"
    by (auto simp: wrote_or_failed_def)
  have kept: "store_kept (sv_root s) root" and live: "live root = live (sv_root s)"
    using reason_kept [OF c] live_harmless [OF c reason_harmless(1)] by (simp_all add: assms(2))
  have q: "sv_job (fst p) = k" "sv_tasks (fst p) = sv_tasks s" "sv_failed (fst p) = sv_failed s" "sv_root (fst p) = root"
    using p assms(1,2,6) by (auto simp: wrote_or_failed_def)
  note t = persist_job_persisted [of "fst p" e "''pause_requested''" False, unfolded assms(7) persisted_def q]
  have "live (sv_root t) = running_job k" if "exclusive s" "sv_tasks s" "\<not> sv_failed t"
  proof -
    have "exclusive (fst p)" using that(1) by (simp add: exclusive_def q live assms(4))
    then show ?thesis
      using persist_live [OF _ _ assms(7)] that(2,3) assms(5) by (simp add: q active_states_def)
  qed
  then show ?thesis
    using t store_kept_grows [OF kept] assms(3) by (simp add: step_ok_def exclusive_def)
qed

lemma guard_ok: "step_ok s (fst (guard_pause e g i reason s))"
proof (cases "j_generation (sv_job s) \<noteq> g \<or> \<not> j_running (sv_job s) \<or> j_stage (sv_job s) = ''publishing'' \<or> j_stage (sv_job s) = ''saving''")
  case False
  define k where "k = (sv_job s)\<lparr>j_pause_requested := True, j_notice := reason\<rparr>"
  define s1 where "s1 = s\<lparr>sv_job := k\<rparr>"
  define p where "p = flag_failure
    (case store_get e s1 i of Inl x \<Rightarrow> (s1, Inl x)
     | Inr None \<Rightarrow> (s1, Inl (Runtime_error ''storage guard task missing''))
     | Inr (Some r) \<Rightarrow> save_or_throw e s1 (r\<lparr>t_error := reason\<rparr>) ''storage guard revision changed'')"
  have w: "wrote_or_failed (\<lambda>r. r\<lparr>t_error := reason\<rparr>) i s1 p"
    unfolding p_def by (rule wrote_flag, rule wrote_update, rule reason_harmless)
  have g: "job_grows (sv_job s) k" by (auto simp: k_def same_job_def intro!: same_generation)
  have k: "j_running k" "running_job k = running_job (sv_job s)"
    using False by (simp_all add: k_def running_job_def)
  have failed: "step_ok s (fst p)"
  proof -
    have "step_ok s1 (fst p)" by (rule step_ok_harmless_same [OF disjI2 [OF w] reason_harmless(1,2)])
    moreover have "exclusive s1 = exclusive s" by (simp add: exclusive_def s1_def k(2))
    moreover have "sv_job (fst p) = k" using w by (auto simp: wrote_or_failed_def s1_def)
    ultimately show ?thesis using g by (simp add: step_ok_def) (simp add: s1_def)
  qed
  have paused: "step_ok s (fst (persist_job e ''pause_requested'' False (fst p)))" if "is_ok (snd p)"
    by (rule guard_after_reason [OF w s1_def g k(2,1) that refl])
  have c: "(j_generation (sv_job s) \<noteq> g \<or> \<not> j_running (sv_job s) \<or> j_stage (sv_job s) = ''publishing''
      \<or> j_stage (sv_job s) = ''saving'') = False" using False by simp
  have "fst (guard_pause e g i reason s) =
      (case snd p of Inl x \<Rightarrow> fst p | Inr _ \<Rightarrow> fst (persist_job e ''pause_requested'' False (fst p)))"
    unfolding guard_pause_def Let_def k_def [symmetric] s1_def [symmetric] p_def [symmetric] c if_False case_prod_beta
    by (simp split: sum.split)
  then show ?thesis using failed paused by (auto split: sum.splits)
qed (auto simp: guard_pause_def Let_def)

text \<open>Requests on tasks at rest.\<close>

lemma rename_ok: "step_ok s (fst (rename_task e i name expected s))"
proof -
  define f :: "task_record \<Rightarrow> task_record" where "f = (\<lambda>r. r\<lparr>t_params := assign_param ''display_name'' name (t_params r), t_updated_ms := e_now e\<rparr>)"
  have f: "harmless f" "\<And>i root. grows_by f i root" "proper f"
    by (auto simp: f_def harmless_def active_def proper_def assign_order intro!: grows_unchanged)
  have "step_ok s (fst (store_save e s (f r)))" if "store_get e s i = Inr (Some r)" for r
  proof -
    have o: "map_order (t_params (f r))" using store_get_Some [OF that] f(3) by (simp add: proper_def)
    obtain t out where save: "store_save e s (f r) = (t, out)" by fastforce
    have "wrote f i s (t, case out of Inr True \<Rightarrow> Inr () | _ \<Rightarrow> Inl Task_capacity)"
      using save o
    proof (cases rule: store_save_cases)
      case (2 root)
      then show ?thesis using store_get_Some [OF that] f(3) by (auto simp: wrote_def record_changed_def put_record_def proper_def)
    qed (auto simp: wrote_def split: sum.split bool.split)
    from step_ok_harmless_same [OF disjI1 [OF this] f(1,2)] save show ?thesis by simp
  qed
  then show ?thesis by (simp add: rename_task_def Let_def case_prod_beta f_def split: sum.split option.split)
qed

lemma cleanup_ok: "step_ok s (fst (cleanup_task e i attempt pruned s))"
proof -
  define f :: "task_record \<Rightarrow> task_record" where "f = (\<lambda>r. r\<lparr>t_params := assign_param ''retention'' ''pruned-v1'' (t_params r), t_updated_ms := e_now e\<rparr>)"
  have f: "harmless f" "\<And>i root. grows_by f i root" "proper f"
    by (auto simp: f_def harmless_def active_def proper_def assign_order intro!: grows_unchanged)
  have "step_ok s (fst (flag_failure (save_or_throw e s (f r) m)))" if "store_get e s i = Inr (Some r)" for r m
    using wrote_flag [OF wrote_save [OF that f(3)]] step_ok_harmless_same f(1,2) by blast
  then show ?thesis by (auto simp: cleanup_task_def Let_def case_prod_beta f_def split: sum.split option.split)
qed

section \<open>Resuming\<close>

lemma resumed_proper: "proper (resumed_record e a)"
  by (simp add: proper_def resumed_record_def assign_order)

lemma resume_cases:
  obtains "fst (resume_job e q room i attempt s) = s" "snd (snd (resume_job e q room i attempt s)) = None"
  | r root t where "stored (sv_root s) i = Some r" "t_attempt r = attempt" "t_attempt r < 2147483647"
      "\<not> j_running (sv_job s)" "j_generation (sv_job s) \<noteq> - 1" "\<not> sv_failed s"
      "t = \<lparr>ti_generation = j_generation (sv_job s) + 1, ti_id = i, ti_attempt = t_attempt r + 1\<rparr>"
      "record_changed (resumed_record e attempt) i (sv_root s) root"
      "resume_job e q room i attempt s
         = (s\<lparr>sv_root := root, sv_job := resumed_job t r (full_training_task r) (sv_job s)\<rparr>, 202, Some t)"
  | r root where "stored (sv_root s) i = Some r" "t_attempt r = attempt" "t_attempt r < 2147483647"
      "record_changed (resumed_record e attempt) i (sv_root s) root \<or> stored root = stored (sv_root s)"
      "resume_job e q room i attempt s = (s\<lparr>sv_root := root, sv_failed := True\<rparr>, 503, None)"
proof (cases "fst (resume_job e q room i attempt s) = s \<and> snd (snd (resume_job e q room i attempt s)) = None")
  case False
  then obtain r where r: "store_get e s i = Inr (Some r)" and go: "t_attempt r = attempt" "\<not> j_running (sv_job s)"
    "\<not> 2147483647 \<le> t_attempt r" "j_generation (sv_job s) \<noteq> - 1" "\<not> sv_failed s"
    by (auto simp: resume_job_def Let_def split: if_splits sum.splits option.splits)
  define t where "t = \<lparr>ti_generation = j_generation (sv_job s) + 1, ti_id = i, ti_attempt = t_attempt r + 1\<rparr>"
  obtain s' out where save: "save_or_throw e s (resumed_record e attempt r) ''resume revision changed'' = (s', out)" by fastforce
  have eq: "resume_job e q room i attempt s =
      (case out of Inl x \<Rightarrow> (s'\<lparr>sv_failed := True\<rparr>, 503, None)
       | Inr _ \<Rightarrow> (with_job s' (resumed_job t r (full_training_task r)), 202, Some t))"
    using False r save unfolding resume_job_def Let_def
    by (simp add: t_def split: if_splits sum.splits)
  from wrote_save [OF r resumed_proper, of e attempt "''resume revision changed''"] save
  obtain root where s': "s' = s\<lparr>sv_root := root\<rparr>"
    and c: "record_changed (resumed_record e attempt) i (sv_root s) root \<or> stored root = stored (sv_root s) \<and> \<not> is_ok out"
    by (auto simp: wrote_def)
  show thesis
  proof (cases out)
    case (Inl x)
    then show thesis using that(3) [of r root] r go c eq s' store_get_Some [OF r] by auto
  next
    case (Inr u)
    then show thesis using that(2) [of r t root] go c eq s' store_get_Some [OF r] by (simp add: t_def)
  qed
qed (use that(1) in simp)

lemma resumed_grows: "t_attempt r = a \<Longrightarrow> t_attempt r < 2147483647 \<Longrightarrow> record_grows (Some r) (Some (resumed_record e a r))"
proof -
  assume a: "t_attempt r = a" "t_attempt r < 2147483647"
  have "t_attempt r \<noteq> - 1" using a(2) by auto
  then have "t_attempt r < t_attempt r + 1" using word_next(2) [of "t_attempt r"] by (simp add: word_less_nat_alt)
  then show ?thesis by (simp add: record_grows_def resumed_record_def)
qed

lemma resume_ok: "step_ok s (fst (resume_job e q room i attempt s))"
proof (cases rule: resume_cases [of e q room i attempt s])
  case 1
  then show ?thesis by simp
next
  case (2 r root t)
  have "grows_by (resumed_record e attempt) i (sv_root s)"
    using 2(1,2,3) resumed_grows by (auto simp: grows_by_def)
  with 2(8) have grows: "store_grows (sv_root s) root" by (rule store_grows_changed)
  have run: "live (sv_root s) = Map.empty" if "exclusive s" "sv_tasks s"
    using that 2(4,6) by (simp add: exclusive_def running_job_def)
  from live_changed [OF 2(8)] 2(1)
  have live: "live root = (live (sv_root s))(i \<mapsto> t_attempt r + 1)"
    by (auto simp: resumed_record_def active_def active_states_def)
  have "job_grows (sv_job s) (resumed_job t r (full_training_task r) (sv_job s))"
    using 2(4,5,7) by (intro next_job) (simp_all add: resumed_job_def)
  then show ?thesis
    using run live grows 2(4,7) by (simp add: 2(9) step_ok_def exclusive_def running_job_def resumed_job_def)
next
  case (3 r root)
  have "grows_by (resumed_record e attempt) i (sv_root s)"
    using 3(1,2,3) resumed_grows by (auto simp: grows_by_def)
  then have "store_grows (sv_root s) root" using 3(4) store_grows_changed store_grows_stored by blast
  then show ?thesis by (simp add: 3(5) step_ok_def exclusive_def)
qed

lemma job_step_ok: "job_step s t \<Longrightarrow> step_ok s t"
proof (induction rule: job_step.induct)
  case (retaining_training g i s e preprocessed)
  then show ?case by (intro retain_training_ok) (simp add: owned_def)
qed (simp_all add: reserve_ok set_stage_ok training_checkpoint_ok audio_boundary_ok observe_progress_ok finish_ok
    finish_training_ok finish_audio_ok channel_ok retain_ok cancel_ok pause_ok resume_ok rename_ok cleanup_ok guard_ok undelivered_ok)

section \<open>Two counters\<close>

text \<open>
  The generation of the job and the attempt of each record are versions: no step lowers them, and an
  operation that issues a ticket raises the one it found by one.
\<close>

inductive issues :: "service \<Rightarrow> ticket \<Rightarrow> service \<Rightarrow> bool" where
  reserved: "reserve_job e room name jk requested s = (t, Inr (Some k)) \<Longrightarrow> issues s k t"
| resumed: "resume_job e q room i attempt s = (t, code, Some k) \<Longrightarrow> issues s k t"

inductive resumes :: "service \<Rightarrow> string \<Rightarrow> nat \<Rightarrow> service \<Rightarrow> bool" where
  "resume_job e q room i attempt s = (t, code, Some k) \<Longrightarrow> resumes s i (unat attempt) t"

definition attempt_of :: "root \<Rightarrow> string \<Rightarrow> nat" where
  "attempt_of root i = (case stored root i of None \<Rightarrow> 0 | Some r \<Rightarrow> unat (t_attempt r))"

lemma issues_step: "issues s k t \<Longrightarrow> job_step s t"
  by (induction rule: issues.induct) (metis job_step.reserving job_step.resuming fst_conv)+

lemma reserve_ticket:
  assumes "reserve_job e room name jk requested s = (t, Inr (Some k))"
  shows "j_generation (sv_job s) \<noteq> - 1 \<and> ti_generation k = j_generation (sv_job s) + 1
    \<and> j_generation (sv_job t) = ti_generation k"
  using assms
  by (auto simp: reserve_job_def Let_def reserved_job_def split: if_splits sum.splits prod.splits bool.splits)

lemma resume_ticket:
  assumes "resume_job e q room i attempt s = (t, code, Some k)"
  shows "j_generation (sv_job s) \<noteq> - 1 \<and> ti_generation k = j_generation (sv_job s) + 1
    \<and> j_generation (sv_job t) = ti_generation k \<and> attempt_of (sv_root s) i = unat attempt
    \<and> attempt_of (sv_root t) i = Suc (unat attempt)"
proof (cases rule: resume_cases [of e q room i attempt s])
  case (2 r root t')
  then have t: "k = t'" "t = s\<lparr>sv_root := root, sv_job := resumed_job t' r (full_training_task r) (sv_job s)\<rparr>"
    using assms by simp_all
  have "t_attempt r \<noteq> - 1" using 2(3) by auto
  then have "unat (t_attempt r + 1) = Suc (unat (t_attempt r))" by (rule word_next(2))
  moreover obtain v where "stored root i = Some ((resumed_record e attempt r)\<lparr>t_revision := v\<rparr>)"
    using 2(1,8) by (auto simp: record_changed_def)
  ultimately show ?thesis
    using 2(1,2,5,7) by (simp add: t resumed_job_def attempt_of_def resumed_record_def)
qed (use assms in auto)

lemma issues_ticket:
  "issues s k t \<Longrightarrow> j_generation (sv_job s) \<noteq> - 1 \<and> ti_generation k = j_generation (sv_job s) + 1
     \<and> j_generation (sv_job t) = ti_generation k"
  by (induction rule: issues.induct) (use reserve_ticket resume_ticket in blast)+

lemma job_grows_generation: "job_grows j k \<Longrightarrow> unat (j_generation j) \<le> unat (j_generation k)"
  by (auto simp: job_grows_def word_next(2))

lemma store_grows_attempt: "store_grows root root' \<Longrightarrow> attempt_of root i \<le> attempt_of root' i"
  unfolding store_grows_def
  by (drule spec [of _ i]) (auto simp: attempt_of_def record_grows_def word_le_nat_alt split: option.splits)

interpretation gen: versioned_store "\<lambda>s (u :: unit). unat (j_generation (sv_job s))" job_step
  "\<lambda>s u v t. v = unat (j_generation (sv_job s)) \<and> (\<exists>k. issues s k t)"
proof
  show "unat (j_generation (sv_job s)) \<le> unat (j_generation (sv_job t))" if "job_step s t" for s t
    using job_step_ok [OF that] job_grows_generation by (simp add: step_ok_def)
  show "unat (j_generation (sv_job t)) = Suc v" if "v = unat (j_generation (sv_job s)) \<and> (\<exists>k. issues s k t)" for s v t
  proof -
    from that obtain k where "issues s k t" by blast
    from issues_ticket [OF this] that word_next(2) [of "j_generation (sv_job s)"] show ?thesis by simp
  qed
qed simp

interpretation att: versioned_store "\<lambda>s. attempt_of (sv_root s)" job_step resumes
proof
  show "attempt_of (sv_root s) i \<le> attempt_of (sv_root t) i" if "job_step s t" for s t i
    using job_step_ok [OF that] store_grows_attempt by (simp add: step_ok_def)
  show "resumes s i v t \<Longrightarrow> attempt_of (sv_root s) i = v" for s i v t
    by (induction rule: resumes.induct) (use resume_ticket in blast)
  show "resumes s i v t \<Longrightarrow> attempt_of (sv_root t) i = Suc v" for s i v t
    by (induction rule: resumes.induct) (use resume_ticket in blast)
qed

section \<open>Requests that decided\<close>

text \<open>What holds of the job of a generation once a cancel or a pause was accepted.\<close>

definition decided :: "job \<Rightarrow> bool" where
  "decided j \<longleftrightarrow> j_stage j \<noteq> ''publishing'' \<and>
     (j_kind j = Training_job \<and> j_cancel_requested j \<or> staged_job j \<and> j_pause_requested j)"

lemma decided_kept: "same_job j k \<Longrightarrow> decided j \<Longrightarrow> decided k"
  by (auto simp: decided_def same_job_def stage_allowed_def staged_job_def audio_job_def split: if_splits)

lemma decided_step:
  assumes "job_step s t" and "j_generation (sv_job t) = j_generation (sv_job s)" and "decided (sv_job s)"
  shows "decided (sv_job t)"
proof -
  have "job_grows (sv_job s) (sv_job t)" using job_step_ok [OF assms(1)] by (simp add: step_ok_def)
  then have "same_job (sv_job s) (sv_job t)" using assms(2) by (auto simp: job_grows_def)
  then show ?thesis using assms(3) by (rule decided_kept)
qed

lemma decided_run:
  assumes "job_step\<^sup>*\<^sup>* s t" and "decided (sv_job s)" and "j_generation (sv_job t) = j_generation (sv_job s)"
  shows "decided (sv_job t)"
  using assms(1,3)
proof (induction rule: rtranclp_induct)
  case (step t u)
  have "unat (j_generation (sv_job s)) \<le> unat (j_generation (sv_job t))" using gen.run_grows [OF step(1)] by simp
  moreover have "unat (j_generation (sv_job t)) \<le> unat (j_generation (sv_job u))" using gen.step_grows [OF step(2)] by simp
  ultimately have "j_generation (sv_job t) = j_generation (sv_job s)" using step(4) by (simp add: unsigned_word_eqI)
  then show ?case using step(2,3,4) by (intro decided_step [OF step(2)]) simp_all
qed (use assms(2) in simp)

lemma cancel_decides: "cancel_job i delivered s = (t, 202) \<Longrightarrow> decided (sv_job t) \<and> j_generation (sv_job t) = j_generation (sv_job s)"
  by (auto simp: cancel_job_def Let_def decided_def split: if_splits)

lemma persist_job_job [simp]: "sv_job (fst (persist_job e state terminal s)) = sv_job s"
  using persist_job_persisted [of s e state terminal] by (simp add: persisted_def)

lemma pause_decides:
  "pause_job e i attempt s = (t, 202, source) \<Longrightarrow> decided (sv_job t) \<and> j_generation (sv_job t) = j_generation (sv_job s)"
  by (auto simp: pause_job_def Let_def decided_def staged_job_def audio_job_def split: if_splits sum.splits option.splits)

end
