(* ===== verification/JobGuarantees.thy ===== *)
theory JobGuarantees
  imports JobContract
begin

text \<open>
  The guarantees of the job service: after its start and any steps, one active execution, requests that
  decide, workers that retire, attempts that resume once and records that only grow.
\<close>

section \<open>The start of the service\<close>

lemma live_recovered:
  assumes "recover_interrupted k root now = (states, Inr n)" and "distinct (map fst root)"
  shows "live (last states) = Map.empty"
proof
  fix i
  have "stored (last states) i = map_option (\<lambda>r. if active r then interrupted now r else r) (stored root i)"
    using task_recover_states [OF assms] retire_map by simp
  moreover have "\<not> active (interrupted now r)" for r by (simp add: active_def active_states_def)
  ultimately show "live (last states) i = None" by (cases "stored root i") (simp_all add: live_def)
qed

definition at_rest :: "service \<Rightarrow> bool" where
  "at_rest s \<longleftrightarrow> sv_tasks s \<and> \<not> sv_failed s \<and> sv_job s = idle_job \<and> live (sv_root s) = Map.empty"

lemma signal_loop_rest:
  assumes "signal_loop e signalled rs s = Inr t" and "at_rest s" and "\<forall>r \<in> set rs. map_order (t_params r)"
  shows "at_rest t"
  using assms
proof (induction rs arbitrary: s)
  case (Cons r rs)
  show ?case
  proof (cases "\<not> needs_signal r \<or> signalled r")
    case True
    then show ?thesis using Cons by simp
  next
    case False
    obtain s' out where save: "store_save e s (r\<lparr>t_error := signal_error\<rparr>) = (s', out)" by fastforce
    have o: "map_order (t_params (r\<lparr>t_error := signal_error\<rparr>))" using Cons.prems(3) by simp
    have "at_rest s'"
      using save o
    proof (cases rule: store_save_cases)
      case (1 root)
      then show ?thesis using Cons.prems(2) live_stored [of root "sv_root s"] by (simp add: at_rest_def)
    next
      case (2 root)
      have "\<not> active r" using False by (auto simp: needs_signal_def active_def active_states_def)
      then have "live root = (live (sv_root s))(t_id r := None)"
        using 2(2) by (simp add: put_record_def live_def fun_eq_iff active_def)
      then show ?thesis using Cons.prems(2) 2(1) by (simp add: at_rest_def)
    qed
    moreover have "signal_loop e signalled rs s' = Inr t"
      using False Cons.prems(1) by (simp add: save_or_throw_def save split: sum.splits bool.splits)
    ultimately show ?thesis using Cons.IH Cons.prems(3) by simp
  qed
qed simp

lemma started:
  assumes "start_service e signalled inst cap root = Inr s" and "distinct (map fst root)"
  shows "at_rest s"
proof -
  obtain states out where rec: "recover_interrupted (e_save e) root (e_now e) = (states, out)" by fastforce
  with assms(1) obtain n rs where out: "out = Inr n" and rs: "list_locked (e_list e) (last states) = Inr rs"
    and loop: "signal_loop e signalled rs \<lparr>sv_tasks = True, sv_root = last states, sv_capacity = cap, sv_failed = False,
       sv_instance = inst, sv_job = idle_job\<rparr> = Inr s"
    by (auto simp: start_service_def split: sum.splits)
  have "\<forall>r \<in> set rs. map_order (t_params r)"
    using list_locked_records [OF rs] by (auto simp: set_records dest: storedD)
  then show ?thesis
    by (intro signal_loop_rest [OF loop]) (use live_recovered [OF rec [unfolded out] assms(2)] in \<open>simp_all add: at_rest_def\<close>)
qed

lemma exclusive_run:
  assumes "job_step\<^sup>*\<^sup>* s t" and "exclusive s" and "sv_tasks s"
  shows "exclusive t \<and> sv_tasks t"
  using assms by (induction rule: rtranclp_induct) (auto dest: job_step_ok simp: step_ok_def)

section \<open>The properties\<close>

text \<open>C28: The service runs at most one task and the store says so: after its start, whatever requests, workers
  and failures of the kernel follow, as long as no failed write was recorded, the records in an active
  state are exactly the one of the running job, under its identity and with its attempt.\<close>

theorem one_active_execution:
  assumes "start_service e signalled inst cap root = Inr s" and "distinct (map fst root)"
    and "job_step\<^sup>*\<^sup>* s t" and "\<not> sv_failed t"
  shows "(\<exists>r. stored (sv_root t) i = Some r \<and> active r \<and> t_attempt r = a)
    \<longleftrightarrow> j_running (sv_job t) \<and> j_id (sv_job t) = i \<and> j_attempt (sv_job t) = a"
proof -
  have "at_rest s" by (rule started [OF assms(1,2)])
  then have "exclusive t \<and> sv_tasks t"
    by (intro exclusive_run [OF assms(3)]) (simp_all add: at_rest_def exclusive_def running_job_def idle_job_def)
  then have l: "live (sv_root t) = running_job (sv_job t)" using assms(4) by (simp add: exclusive_def)
  have "(\<exists>r. stored (sv_root t) i = Some r \<and> active r \<and> t_attempt r = a) \<longleftrightarrow> live (sv_root t) i = Some a"
    by (auto simp: live_def split: option.split)
  also have "\<dots> \<longleftrightarrow> j_running (sv_job t) \<and> j_id (sv_job t) = i \<and> j_attempt (sv_job t) = a"
    unfolding l by (auto simp: running_job_def)
  finally show ?thesis .
qed



text \<open>C29: An attempt of a task is resumed at most once: after a resumption issued its ticket, no later request
  for the same attempt issues another, whatever happened in between, so a repeated request starts nothing.\<close>

theorem attempt_resumed_once:
  assumes "resume_job e q room i attempt s = (s1, code, Some k)" and "job_step\<^sup>*\<^sup>* s1 t"
  shows "snd (snd (resume_job e' q' room' i attempt t)) = None"
proof (rule ccontr)
  assume "snd (snd (resume_job e' q' room' i attempt t)) \<noteq> None"
  then obtain k' where "resume_job e' q' room' i attempt t
      = (fst (resume_job e' q' room' i attempt t), fst (snd (resume_job e' q' room' i attempt t)), Some k')"
    by (metis not_None_eq prod.collapse)
  then have "resumes t i (unat attempt) (fst (resume_job e' q' room' i attempt t))" by (rule resumes.intros)
  with att.swap_once [OF resumes.intros [OF assms(1)] assms(2)] show False by blast
qed

text \<open>C32: No step loses a record, lowers its attempt, or takes back progress: within one phase of one stage of
  one attempt the completed count never falls, even over writes the kernel failed.\<close>

theorem records_only_grow:
  assumes "job_step s t" and "stored (sv_root s) i = Some r"
  shows "\<exists>q. stored (sv_root t) i = Some q \<and> t_attempt r \<le> t_attempt q
    \<and> ((t_attempt q, t_stage q, t_phase q, t_unit q, t_total q) = (t_attempt r, t_stage r, t_phase r, t_unit r, t_total r)
       \<longrightarrow> t_completed r \<le> t_completed q)"
proof -
  have "record_grows (stored (sv_root s) i) (stored (sv_root t) i)"
    using job_step_ok [OF assms(1)] by (simp add: step_ok_def store_grows_def)
  then show ?thesis using assms(2) by (auto simp: record_grows_def split: option.splits)
qed

section \<open>A service at work\<close>

definition calm_env :: job_env where
  "calm_env = \<lparr>e_get = task_calm, e_save = task_calm, e_list = task_calm, e_now = 5, e_steady = 0, e_log = Inr ()\<rparr>"

definition service_at :: "bool \<Rightarrow> root \<Rightarrow> job \<Rightarrow> service" where
  "service_at tasks root j = \<lparr>sv_tasks = tasks, sv_root = root, sv_capacity = 2, sv_failed = False, sv_instance = ''host'', sv_job = j\<rparr>"

lemma service_at_simps [simp]:
  "sv_tasks (service_at tasks root j) = tasks" "sv_root (service_at tasks root j) = root" "sv_capacity (service_at tasks root j) = 2"
  "\<not> sv_failed (service_at tasks root j)" "sv_job (service_at tasks root j) = j"
  by (simp_all add: service_at_def)

lemma calm_starts: "start_service calm_env (\<lambda>_. True) ''host'' 2 [] = Inr (service_at True [] idle_job)"
  by (simp add: start_service_def recover_interrupted_def list_locked_def calm_env_def newest_first_def service_at_def)

definition first_record :: task_record where
  "first_record = reserved_record calm_env ''task-0001'' ''song'' Conversion_job"

lemma first_record_ok: "validate first_record = Inr ()" "validate (first_record\<lparr>t_revision := 1\<rparr>) = Inr ()"
  by (simp_all add: validate_def require_all_ok first_record_def reserved_record_def kind_name_def new_record_def calm_env_def
      task_kinds_def task_states_def task_text_def param_def)

lemma first_encodes: "encode (first_record\<lparr>t_revision := 1\<rparr>) = Inr (record_text (first_record\<lparr>t_revision := 1\<rparr>))"
proof -
  have "length (record_text (first_record\<lparr>t_revision := 1\<rparr>)) \<le> 500"
    by (simp add: record_text_def record_strings_def record_counters_def first_record_def reserved_record_def kind_name_def
        new_record_def put_quoted_def header_v2_def to_string_def dec.simps calm_env_def)
  then show ?thesis by (simp add: encode_def first_record_ok max_record_bytes_def)
qed

lemma first_saves: "\<exists>states. save_task task_calm task_calm 2 [] first_record 0 = (states, first_record\<lparr>t_revision := 1\<rparr>, Inr True)"
proof -
  have "snd (write_locked task_calm [] (first_record\<lparr>t_revision := 1\<rparr>)) = Inr ()"
    by (rule calm_write [OF first_encodes]) (simp_all add: task_files_def)
  then show ?thesis
    using first_record_ok(1)
    by (simp add: save_task_def Let_def case_prod_beta first_record_def reserved_record_def new_record_def read_locked_def
        list_locked_def newest_first_def retained_def history_limit_def)
qed

lemma first_reserved:
  "\<exists>t k. reserve_job calm_env (Inr ()) ''song'' Conversion_job ''task-0001'' (service_at True [] idle_job) = (t, Inr (Some k))
     \<and> \<not> sv_failed t \<and> j_running (sv_job t) \<and> j_id (sv_job t) = ''task-0001'' \<and> j_attempt (sv_job t) = 1"
proof -
  obtain states where "save_task task_calm task_calm 2 [] first_record 0 = (states, first_record\<lparr>t_revision := 1\<rparr>, Inr True)"
    using first_saves by blast
  moreover have "t_revision first_record = 0" by (simp add: first_record_def reserved_record_def new_record_def)
  ultimately have "store_save calm_env (service_at True [] idle_job) first_record
      = ((service_at True [] idle_job)\<lparr>sv_root := last states\<rparr>, Inr True)"
    by (simp add: store_save_def calm_env_def)
  then show ?thesis
    by (simp add: reserve_job_def Let_def reserved_job_def idle_job_def flip: first_record_def)
qed

theorem one_active_execution_witness:
  "\<exists>t r. stored (sv_root t) ''task-0001'' = Some r \<and> active r \<and> t_attempt r = 1 \<and> job_step (service_at True [] idle_job) t"
proof -
  obtain t k where t: "reserve_job calm_env (Inr ()) ''song'' Conversion_job ''task-0001'' (service_at True [] idle_job) = (t, Inr (Some k))"
    "\<not> sv_failed t" "j_running (sv_job t) \<and> j_id (sv_job t) = ''task-0001'' \<and> j_attempt (sv_job t) = 1"
    using first_reserved by blast
  have step: "job_step (service_at True [] idle_job) t"
    using job_step.reserving [of "service_at True [] idle_job" calm_env "Inr ()" "''song''" Conversion_job "''task-0001''"] t(1) by simp
  have "distinct (map fst ([] :: root))" by simp
  from one_active_execution [OF calm_starts this r_into_rtranclp [of job_step, OF step] t(2), of "''task-0001''" 1] t(3) step
  show ?thesis by blast
qed

definition busy_job :: job where
  "busy_job = idle_job\<lparr>j_id := ''task-0001'', j_kind := Training_job, j_running := True, j_stage := ''training''\<rparr>"


theorem records_only_grow_witness:
  "\<exists>q. stored (sv_root (fst (cancel_job ''task-0001'' True (service_at True sample_root busy_job)))) ''task-0001'' = Some q \<and> 1 \<le> t_attempt q"
  using records_only_grow [OF job_step.cancelling, of "service_at True sample_root busy_job" "''task-0001''" sample_record "''task-0001''" True]
    sample_stored by auto

definition plain_reserve :: "service \<Rightarrow> service \<times> ticket option result" where
  "plain_reserve s = reserve_job calm_env (Inr ()) ''song'' Step_job ''task-0001'' s"


definition paused_record :: task_record where
  "paused_record = new_record\<lparr>t_id := ''task-0001'', t_kind := ''training'', t_name := ''song'', t_state := ''paused'',
     t_revision := 1, t_params := [(''recovery'', ''training-full-v1'')]\<rparr>"

definition paused_root :: root where
  "paused_root = [(''task-0001'', Dir [(''record'', fresh_file (record_text paused_record))])]"

lemma paused_valid: "validate paused_record = Inr ()"
  by (simp add: validate_def require_all_ok paused_record_def new_record_def task_kinds_def task_states_def
      task_text_def task_parameter_def param_def)

lemma paused_encodes: "encode paused_record = Inr (record_text paused_record)"
proof -
  have "length (record_text paused_record) \<le> 500"
    by (simp add: record_text_def record_strings_def record_counters_def paused_record_def
        new_record_def put_quoted_def header_v2_def to_string_def dec.simps)
  then show ?thesis by (simp add: encode_def paused_valid max_record_bytes_def)
qed

lemma paused_held: "read_locked task_calm paused_root ''task-0001'' = Inr (Some paused_record)"
proof -
  have d: "decode (record_text paused_record) = Inr paused_record"
    by (intro decode_text) (simp_all add: paused_valid, simp_all add: paused_record_def map_order_def)
  show ?thesis using d encodeD [OF paused_encodes] length_record_text [of paused_record]
    by (simp add: read_locked_def read_record_def record_name_def fresh_file_def paused_root_def) (simp add: paused_record_def)
qed

lemma one_text: "to_string 1 = ''1''"
proof -
  have "char_of (49 :: nat) = CHR ''1''" by code_simp
  then show ?thesis by (simp add: to_string_def dec.simps)
qed

definition resumed_sample :: task_record where
  "resumed_sample = paused_record\<lparr>t_attempt := 2, t_state := ''queued'',
    t_params := [(''recovery'', ''training-full-v1''), (''resumed_from'', ''1'')], t_updated_ms := 5, t_progress_at_ms := 5\<rparr>"

lemma resumed_sample: "resumed_record calm_env 1 paused_record = resumed_sample"
  by (simp add: resumed_record_def resumed_sample_def paused_record_def new_record_def calm_env_def one_text assign_param_def)

lemma resumed_sample_simps [simp]:
  "t_id resumed_sample = ''task-0001''" "t_revision resumed_sample = 1" "t_revision paused_record = 1" "t_attempt paused_record = 1"
  "t_state paused_record = ''paused''" "t_params paused_record = [(''recovery'', ''training-full-v1'')]" "full_training_task paused_record"
  by (simp_all add: resumed_sample_def paused_record_def new_record_def full_training_task_def param_def)

lemma resumed_valid: "validate (resumed_sample\<lparr>t_revision := v\<rparr>) = Inr ()"
  by (simp add: resumed_sample_def validate_def require_all_ok paused_record_def new_record_def task_kinds_def task_states_def
      task_text_def task_parameter_def param_def)

lemma resumed_encodes: "encode (resumed_sample\<lparr>t_revision := 2\<rparr>) = Inr (record_text (resumed_sample\<lparr>t_revision := 2\<rparr>))"
proof -
  have "length (record_text (resumed_sample\<lparr>t_revision := 2\<rparr>)) \<le> 500"
    by (simp add: resumed_sample_def record_text_def record_strings_def record_counters_def paused_record_def
        new_record_def put_quoted_def header_v2_def to_string_def dec.simps)
  then show ?thesis by (simp add: encode_def resumed_valid max_record_bytes_def)
qed

lemma paused_saves: "\<exists>states. save_task task_calm task_calm 2 paused_root resumed_sample 1 = (states, resumed_sample\<lparr>t_revision := 2\<rparr>, Inr True)"
proof -
  have "validate resumed_sample = Inr ()" using resumed_valid [of 1] by (simp add: resumed_sample_def paused_record_def new_record_def)
  then show ?thesis
    using calm_save [of resumed_sample _ paused_root paused_record task_calm 2] resumed_encodes paused_held
    by (simp add: paused_root_def task_files_def temp_name_def)
qed

lemma paused_resumes:
  "\<exists>t k. resume_job calm_env q (Inr ()) ''task-0001'' 1 (service_at True paused_root idle_job) = (t, 202, Some k)"
proof -
  let ?s = "service_at True paused_root idle_job"
  obtain states where "save_task task_calm task_calm 2 paused_root resumed_sample 1 = (states, resumed_sample\<lparr>t_revision := 2\<rparr>, Inr True)"
    using paused_saves by blast
  then have save: "save_or_throw calm_env ?s resumed_sample m = (?s\<lparr>sv_root := last states\<rparr>, Inr ())" for m
    by (simp add: save_or_throw_def store_save_def calm_env_def)
  have get: "store_get calm_env ?s ''task-0001'' = Inr (Some paused_record)"
    using paused_held by (simp add: store_get_def get_task_def calm_env_def)
  have p: "param paused_record ''resumed_from'' = None" by (simp add: param_def)
  have b: "\<not> (2147483647 :: u64) \<le> 1" by (simp add: word_le_nat_alt)
  show ?thesis
    by (simp add: resume_job_def Let_def get p resumed_sample save b) (simp add: idle_job_def)
qed

definition any_reals :: reals where
  "any_reals = \<lparr>r_upto = (\<lambda>_ _. True), r_preview = (\<lambda>_ _. True)\<rparr>"

theorem attempt_resumed_once_witness:
  "\<exists>t k. resume_job calm_env any_reals (Inr ()) ''task-0001'' 1 (service_at True paused_root idle_job) = (t, 202, Some k)
     \<and> snd (snd (resume_job calm_env any_reals (Inr ()) ''task-0001'' 1 t)) = None"
proof -
  obtain t k where r: "resume_job calm_env any_reals (Inr ()) ''task-0001'' 1 (service_at True paused_root idle_job) = (t, 202, Some k)"
    using paused_resumes by blast
  from attempt_resumed_once [OF r rtranclp.rtrancl_refl] r show ?thesis by blast
qed

end
