(* ===== verification/JobStatus.thy ===== *)
theory JobStatus
  imports JobGuarantees
begin

text \<open>
  The shape of the job in every reachable state, which its status rests on, and the requests that are
  refused: they leave the service as it was.
\<close>

section \<open>The shape of the job\<close>

text \<open>
  A running job has no outcome; a cancelled one shows it; only trainings are cancelled or recoverable;
  only audio tasks and recoverable trainings are paused; there is a job once a generation was issued.
\<close>

definition job_wf :: "job \<Rightarrow> bool" where
  "job_wf j \<longleftrightarrow>
     (j_running j \<longrightarrow> \<not> j_done j \<and> \<not> j_error j \<and> \<not> j_cancelled j)
     \<and> (j_cancelled j \<longrightarrow> j_stage j = ''cancelled'' \<and> j_done j \<and> \<not> j_error j)
     \<and> (j_cancel_requested j \<or> j_recoverable j \<longrightarrow> j_kind j = Training_job)
     \<and> (j_pause_requested j \<longrightarrow> staged_job j)
     \<and> (j_running j \<or> j_done j \<longrightarrow> j_generation j \<noteq> 0)"

lemma store_save_job [simp]: "sv_job (fst (store_save e s r)) = sv_job s"
  by (simp add: store_save_def case_prod_beta)

lemma save_or_throw_job [simp]: "sv_job (fst (save_or_throw e s r m)) = sv_job s"
  by (simp add: save_or_throw_def case_prod_beta)

lemma flag_failure_job [simp]: "sv_job (fst (flag_failure p)) = sv_job (fst p)"
  by (simp add: flag_failure_def)

lemma retain_recipe_job [simp]: "sv_job (fst (retain_recipe e i ins ass m s)) = sv_job s"
  by (simp add: retain_recipe_def split: sum.split option.split)

lemma reserve_job_job:
  "sv_job (fst (reserve_job e room name jk requested s)) = sv_job s
    \<or> (\<exists>t. j_generation (sv_job s) \<noteq> - 1 \<and> ti_generation t = j_generation (sv_job s) + 1
         \<and> sv_job (fst (reserve_job e room name jk requested s)) = reserved_job t name jk (sv_job s))"
proof -
  define t where "t = \<lparr>ti_generation = j_generation (sv_job s) + 1, ti_id = (if requested = []
     then sv_instance s @ ''-'' @ to_string (j_generation (sv_job s) + 1) else requested), ti_attempt = 1\<rparr>"
  have "sv_job (fst (reserve_job e room name jk requested s)) = sv_job s
    \<or> j_generation (sv_job s) \<noteq> - 1
      \<and> sv_job (fst (reserve_job e room name jk requested s)) = reserved_job t name jk (sv_job s)"
    unfolding reserve_job_def Let_def t_def [symmetric] case_prod_beta
    by (simp split: sum.split bool.split)
  moreover have "ti_generation t = j_generation (sv_job s) + 1" by (simp add: t_def)
  ultimately show ?thesis by blast
qed

lemma job_wf_reserved: "ti_generation t \<noteq> 0 \<Longrightarrow> job_wf (reserved_job t name jk j)"
  by (simp add: job_wf_def reserved_job_def)

lemma job_wf_resumed: "ti_generation t \<noteq> 0 \<Longrightarrow> job_wf (resumed_job t r training j)"
  by (simp add: job_wf_def resumed_job_def)

lemma job_wf_stage: "j_running j \<Longrightarrow> job_wf j \<Longrightarrow> job_wf (j\<lparr>j_stage := stage\<rparr>)"
  by (simp add: job_wf_def staged_job_def audio_job_def)

lemma job_wf_marks [simp]:
  "job_wf (j\<lparr>j_progress_saved := n\<rparr>) = job_wf j" "job_wf (j\<lparr>j_channel := b\<rparr>) = job_wf j"
  "job_wf (j\<lparr>j_cancel_error := b\<rparr>) = job_wf j" "job_wf (j\<lparr>j_control_path := c\<rparr>) = job_wf j"
  "job_wf (j\<lparr>j_notice := c\<rparr>) = job_wf j"
  by (simp_all add: job_wf_def staged_job_def audio_job_def)

lemma job_wf_end:
  "job_wf j \<Longrightarrow> j_running j \<Longrightarrow> job_wf (j\<lparr>j_stage := st, j_error := er, j_done := d, j_running := False\<rparr>)"
  "job_wf j \<Longrightarrow> j_running j \<Longrightarrow> job_wf (j\<lparr>j_done := d, j_error := er, j_running := False\<rparr>)"
  by (simp_all add: job_wf_def staged_job_def audio_job_def)

lemma finish_audio_job:
  assumes "j_generation (sv_job s) = ti_generation t"
  shows "\<exists>er. sv_job (finish_audio_task e t result error paused digest s)
    = (sv_job s)\<lparr>j_done := True, j_error := er, j_running := False\<rparr>"
proof -
  define D where "D = (if j_cancel_error (sv_job s) \<or> error \<noteq> [] \<or> paused then Inr [] else digest)"
  define p where "p = flag_failure
    (case store_get e s (ti_id t) of Inl x \<Rightarrow> (s, Inl x)
     | Inr None \<Rightarrow> (s, Inl (Runtime_error ''missing audio task record''))
     | Inr (Some r) \<Rightarrow>
         (case e_log e of Inl x \<Rightarrow> (s, Inl x)
          | Inr _ \<Rightarrow>
         (case D of Inl x \<Rightarrow> (s, Inl x)
          | Inr d \<Rightarrow> save_or_throw e s (finished_record e (sv_job s) result error paused d r) ''cannot retain audio task result'')))"
  have job: "sv_job (fst p) = sv_job s" by (simp add: p_def split: sum.split option.split)
  show ?thesis
    using assms unfolding finish_audio_task_def Let_def D_def [symmetric] p_def [symmetric]
    by (auto simp: case_prod_beta job)
qed

lemma job_wf_outcome:
  "job_wf j \<Longrightarrow> j_running j \<Longrightarrow> job_wf (j\<lparr>j_cancelled := (c = Training_cancelled), j_error := (c = Training_error),
     j_stage := (if c = Training_paused then ''paused'' else if c = Training_cancelled then ''cancelled''
                 else if c = Training_error then ''error'' else ''done''),
     j_done := (c \<noteq> Training_paused), j_running := False\<rparr>)"
  by (cases c) (simp_all add: job_wf_def staged_job_def audio_job_def)

lemma job_wf_step: "job_step s t \<Longrightarrow> job_wf (sv_job s) \<Longrightarrow> job_wf (sv_job t)"
proof (induction rule: job_step.induct)
  case (reserving s e room name jk requested)
  then show ?case
    using reserve_job_job [of e room name jk requested s] word_next(1) [of "j_generation (sv_job s)"] job_wf_reserved
    by metis
next
  case (staging g s stage e)
  then show ?case by (auto simp: set_stage_def owned_def intro: job_wf_stage)
next
  case (checkpointing g s e stage)
  then show ?case by (auto simp: training_checkpoint_def Let_def case_prod_beta owned_def intro: job_wf_stage)
next
  case (bounding g s e stage)
  then show ?case by (auto simp: audio_boundary_def Let_def owned_def intro: job_wf_stage)
next
  case (progressing s e g p)
  then show ?case by (auto simp: observe_progress_def Let_def case_prod_beta split: sum.split option.split)
next
  case (finishing g s stage e error)
  then show ?case by (simp add: finish_def persist_terminal_def Let_def owned_def job_wf_end)
next
  case (finishing_training g s e outcome)
  show ?case
  proof (cases "j_generation (sv_job s) = g \<and> j_kind (sv_job s) = Training_job")
    case True
    then have r: "j_running (sv_job s)" using finishing_training(1) by (simp add: owned_def)
    define o1 where "o1 = (if j_cancel_error (sv_job s) then Training_error else outcome)"
    define t where "t = fst (persist_job e (outcome_state o1) True s)"
    define o2 where "o2 = (if sv_failed t then Training_error else o1)"
    have job: "sv_job t = sv_job s" by (simp add: t_def)
    note wf = job_wf_outcome [OF finishing_training(2) r, of o2]
    show ?thesis
      unfolding finish_training_def persist_terminal_def Let_def o1_def [symmetric] t_def [symmetric] o2_def [symmetric]
      using True wf by (simp add: job)
  qed (use finishing_training(2) in \<open>auto simp: finish_training_def\<close>)
next
  case (finishing_audio t s e result error paused digest)
  show ?case
  proof (cases "j_generation (sv_job s) = ti_generation t")
    case True
    then have r: "j_running (sv_job s)" using finishing_audio(1) by (simp add: owned_def)
    from finish_audio_job [OF True] show ?thesis using job_wf_end(2) [OF finishing_audio(2) r] by metis
  qed (use finishing_audio in \<open>simp add: finish_audio_task_def\<close>)
next
  case (channelling s token)
  then show ?case by (simp add: open_channel_def)
next
  case (registering s g)
  then show ?case by (simp add: register_training_channel_def)
next
  case (closing s g clean)
  then show ?case by (simp add: close_channel_def)
next
  case (retaining s e i inserted assigned m)
  then show ?case by simp
next
  case (retaining_training g i s e preprocessed)
  then show ?case
    by (auto simp: retain_training_def case_prod_beta owned_def job_wf_def staged_job_def audio_job_def)
next
  case (cancelling s i delivered)
  then show ?case by (auto simp: cancel_job_def Let_def job_wf_def staged_job_def audio_job_def)
next
  case (pausing s e i attempt)
  then show ?case
    by (auto simp: pause_job_def Let_def job_wf_def staged_job_def audio_job_def split: sum.split option.split)
next
  case (pausing_failed s i attempt)
  then show ?case by (simp add: pause_undelivered_def)
next
  case (resuming s e q room i attempt)
  then show ?case
    by (cases rule: resume_cases [of e q room i attempt s])
      (auto intro!: job_wf_resumed dest: word_next(1))
next
  case (renaming s e i name expected)
  then show ?case by (simp add: rename_task_def Let_def case_prod_beta split: sum.split option.split)
next
  case (cleaning s e i attempt pruned)
  then show ?case by (simp add: cleanup_task_def Let_def case_prod_beta split: sum.split option.split)
next
  case (guarding g i s e reason)
  then show ?case
    by (auto simp: guard_pause_def Let_def case_prod_beta owned_def job_wf_def staged_job_def audio_job_def
        split: sum.split option.split)
next
  case (guarding_failed s g)
  then show ?case by (simp add: guard_undelivered_def)
qed

lemma job_wf_run: "job_step\<^sup>*\<^sup>* s t \<Longrightarrow> job_wf (sv_job s) \<Longrightarrow> job_wf (sv_job t)"
  by (induction rule: rtranclp_induct) (auto intro: job_wf_step)

section \<open>Refusals\<close>

lemma save_refused_same:
  assumes "store_save e s r = (s', Inr False)" and "map_order (t_params r)"
  shows "s' = s"
proof -
  obtain states r' out where save: "save_task (e_save e) (e_list e) (sv_capacity s) (sv_root s) r (t_revision r) = (states, r', out)"
    using prod_cases3 by blast
  then have s': "s' = s\<lparr>sv_root := last states\<rparr>" "out = Inr False" using assms(1) by (simp_all add: store_save_def)
  from save assms(2) show ?thesis
  proof (cases rule: task_save_cases)
    case (written result)
    have "out = map_sum id (\<lambda>_. True) result" by (rule written(7))
    then have False using s'(2) by (cases result) simp_all
    then show ?thesis ..
  next
    case refused
    have "s\<lparr>sv_root := sv_root s\<rparr> = s" by (cases s) simp
    then show ?thesis using s'(1) refused(1) by simp
  qed
qed

lemma rename_refused:
  assumes "snd (rename_task e i name expected s) \<noteq> 200" and "snd (rename_task e i name expected s) \<noteq> 503"
  shows "fst (rename_task e i name expected s) = s"
proof (cases "store_get e s i")
  case (Inr found)
  show ?thesis
  proof (cases found)
    case (Some r)
    define q where "q = r\<lparr>t_params := assign_param ''display_name'' name (t_params r), t_updated_ms := e_now e\<rparr>"
    have o: "map_order (t_params q)" using store_get_Some [of e s i r] Inr Some by (simp add: q_def assign_order)
    obtain s' out where save: "store_save e s q = (s', out)" by fastforce
    have eq: "rename_task e i name expected s =
        (if \<not> sv_tasks s \<or> sv_failed s then (s, 503) else if display_name r = name then (s, 200)
         else if display_name r \<noteq> expected then (s, 409)
         else (s', case out of Inl x \<Rightarrow> 503 | Inr b \<Rightarrow> if b then 200 else 409))"
      unfolding rename_task_def Inr Some Let_def by (simp add: save [unfolded q_def])
    show ?thesis
      using assms save_refused_same [of e s q s'] save o by (auto simp: eq split: if_splits sum.splits)
  qed (use Inr in \<open>simp add: rename_task_def\<close>)
qed (simp add: rename_task_def)

lemma resume_refused:
  "snd (resume_job e q room i attempt s) = (code, k) \<Longrightarrow> code \<noteq> 202 \<Longrightarrow> code \<noteq> 503 \<Longrightarrow>
     fst (resume_job e q room i attempt s) = s \<and> k = None"
  by (cases rule: resume_cases [of e q room i attempt s]) simp_all

lemma pause_refused: "fst (snd (pause_job e i attempt s)) \<noteq> 202 \<Longrightarrow> fst (pause_job e i attempt s) = s"
  by (auto simp: pause_job_def Let_def split: sum.split option.split)

lemma cancel_refused: "fst (cancel_job i delivered s) = s \<or> snd (cancel_job i delivered s) \<in> {200, 202, 500}"
  by (simp add: cancel_job_def Let_def)

lemma cleanup_refused:
  "snd (cleanup_task e i attempt pruned s) \<noteq> 200 \<Longrightarrow> snd (cleanup_task e i attempt pruned s) \<noteq> 503
     \<Longrightarrow> fst (cleanup_task e i attempt pruned s) = s"
  by (auto simp: cleanup_task_def Let_def case_prod_beta split: sum.splits option.splits if_splits)

section \<open>The properties\<close>

text \<open>C33: In every state the service reaches, the job is well formed: a running job has no outcome, a
  cancelled one ended at its stage ''cancelled'' without an error, only trainings are asked to cancel,
  only audio tasks and recoverable trainings to pause; so the status a client reads says whether it
  runs, and every job that shows ''cancelled'' was a finished one.\<close>

theorem job_well_formed:
  assumes "start_service e signalled inst cap root = Inr s" and "distinct (map fst root)" and "job_step\<^sup>*\<^sup>* s t"
  shows "job_wf (sv_job t)
    \<and> (j_running (sv_job t) \<longleftrightarrow> job_state_name (sv_job t) \<in> {''cancel_requested'', ''queued'', ''publishing'', ''running''})
    \<and> (job_state_name (sv_job t) = ''cancelled'' \<longrightarrow> j_done (sv_job t) \<and> \<not> cancellable (sv_job t))
    \<and> (job_state_name (sv_job t) = ''cancel_requested'' \<longrightarrow> j_kind (sv_job t) = Training_job)"
proof -
  have "sv_job s = idle_job" using started [OF assms(1,2)] by (simp add: at_rest_def)
  then have "job_wf (sv_job t)" by (intro job_wf_run [OF assms(3)]) (simp add: job_wf_def idle_job_def)
  then show ?thesis by (auto simp: job_wf_def job_state_name_def cancellable_def)
qed


theorem job_well_formed_witness:
  "job_wf (sv_job (fst (plain_reserve (service_at True [] idle_job))))"
proof -
  have "job_step (service_at True [] idle_job) (fst (plain_reserve (service_at True [] idle_job)))"
    unfolding plain_reserve_def by (rule job_step.reserving)
  from job_well_formed [OF calm_starts _ r_into_rtranclp [of job_step, OF this]] show ?thesis by simp
qed


end
