(* ===== verification/TrainingRun.thy ===== *)
theory TrainingRun
  imports Sha256 FileSystem "HOL-Library.Multiset"
begin

text \<open>
  The control of a joint training run: its state (\<^verbatim>\<open>tools/app_support/joint_run_state.h\<close>), the channel that
  stops it (\<^verbatim>\<open>tools/app_support/training_cancel.cpp\<close>) and the loop of \<^verbatim>\<open>run_full_joint_training\<close> in
  \<^verbatim>\<open>tools/app_support/joint_full_training.cpp\<close>, with its checkpoints and candidates.  The random generator
  with \<^verbatim>\<open>std::shuffle\<close> and \<^verbatim>\<open>std::uniform_int_distribution\<close>, the floating point operations and the trainer
  on the device are parameters.
\<close>

section \<open>Parameters\<close>

record 'f float_ops =
  fo_mul :: "'f \<Rightarrow> 'f \<Rightarrow> 'f"
  fo_positive :: "'f \<Rightarrow> bool" \<comment> \<open>finite and above 0\<close>
  fo_unit :: "'f \<Rightarrow> bool" \<comment> \<open>finite, above 0 and at most 1\<close>

record 'g random_ops =
  ra_seed :: "32 word \<Rightarrow> 'g"
  ra_shuffle :: "'g \<Rightarrow> int list \<Rightarrow> int list \<times> 'g"
  ra_draw :: "int \<Rightarrow> 'g \<Rightarrow> int \<times> 'g" \<comment> \<open>from 0 to a bound\<close>

text \<open>What the standard says of them.\<close>

definition permuting :: "'g random_ops \<Rightarrow> bool" where
  "permuting ra \<longleftrightarrow> (\<forall>g xs. mset (fst (ra_shuffle ra g xs)) = mset xs)"

definition drawing :: "'g random_ops \<Rightarrow> bool" where
  "drawing ra \<longleftrightarrow> (\<forall>n g. 0 \<le> n \<longrightarrow> 0 \<le> fst (ra_draw ra n g) \<and> fst (ra_draw ra n g) \<le> n)"

section \<open>The state of a run\<close>

text \<open>The counters of type \<^verbatim>\<open>int\<close> stay below 2000 * 4096, which fits.\<close>

record ('f, 'g) run_state =
  rs_identity :: string
  rs_epochs :: int
  rs_step :: int
  rs_initial_lr :: 'f
  rs_decay :: 'f
  rs_order :: "int list"
  rs_random :: 'g

definition clips :: "('f, 'g) run_state \<Rightarrow> int" where
  "clips s = int (length (rs_order s))"

definition epoch :: "('f, 'g) run_state \<Rightarrow> int" where
  "epoch s = rs_step s div clips s"

definition slot :: "('f, 'g) run_state \<Rightarrow> int" where
  "slot s = rs_step s mod clips s"

definition run_done :: "('f, 'g) run_state \<Rightarrow> bool" where
  "run_done s \<longleftrightarrow> rs_step s = rs_epochs s * clips s"

definition current_clip :: "('f, 'g) run_state \<Rightarrow> int result" where
  "current_clip s =
     (if run_done s then Inl (Logic_error ''training already complete'') else Inr (rs_order s ! nat (slot s)))"

definition crop :: "'g random_ops \<Rightarrow> int \<Rightarrow> ('f, 'g) run_state \<Rightarrow> (int \<times> ('f, 'g) run_state) result" where
  "crop ra frames s =
     (if run_done s \<or> frames < 32 \<or> 600 < frames then Inl (Invalid_argument ''invalid crop request'')
      else let (start, g) = ra_draw ra (frames - 32) (rs_random s) in Inr (start, s\<lparr>rs_random := g\<rparr>))"

definition reshuffle :: "'g random_ops \<Rightarrow> ('f, 'g) run_state \<Rightarrow> ('f, 'g) run_state" where
  "reshuffle ra s = (let (order, g) = ra_shuffle ra (rs_random s) (rs_order s) in s\<lparr>rs_order := order, rs_random := g\<rparr>)"

definition advance :: "'g random_ops \<Rightarrow> ('f, 'g) run_state \<Rightarrow> ('f, 'g) run_state result" where
  "advance ra s =
     (if run_done s then Inl (Logic_error ''training already complete'')
      else let s1 = s\<lparr>rs_step := rs_step s + 1\<rparr>
           in Inr (if slot s1 = 0 \<and> \<not> run_done s1 then reshuffle ra s1 else s1))"

definition learning_rate :: "'f float_ops \<Rightarrow> ('f, 'g) run_state \<Rightarrow> 'f result" where
  "learning_rate fo s =
     (let v = ((\<lambda>x. fo_mul fo x (rs_decay s)) ^^ nat (epoch s)) (rs_initial_lr s)
      in if fo_positive fo v then Inr v else Inl (Invalid_argument ''learning rate underflow''))"

definition max_clips :: nat where "max_clips = 4096"

definition validate_run :: "'f float_ops \<Rightarrow> ('f, 'g) run_state \<Rightarrow> unit result" where
  "validate_run fo s =
     (if \<not> valid_digest (rs_identity s) \<or> rs_order s = [] \<or> max_clips < length (rs_order s) \<or> rs_epochs s < 1 \<or> 2000 < rs_epochs s
        \<or> rs_step s < 0 \<or> rs_epochs s * clips s < rs_step s \<or> \<not> fo_unit fo (rs_initial_lr s) \<or> \<not> fo_unit fo (rs_decay s)
      then Inl (Invalid_argument ''invalid joint-full state'')
      else if sort (rs_order s) \<noteq> map int [0..<length (rs_order s)] then Inl (Invalid_argument ''invalid clip permutation'')
      else case learning_rate fo s of Inl x \<Rightarrow> Inl x | Inr _ \<Rightarrow> Inr ())"

definition begin_run ::
  "'f float_ops \<Rightarrow> 'g random_ops \<Rightarrow> string \<Rightarrow> int \<Rightarrow> int \<Rightarrow> 32 word \<Rightarrow> 'f \<Rightarrow> 'f \<Rightarrow> ('f, 'g) run_state result" where
  "begin_run fo ra identity n epochs seed lr decay =
     (if n < 1 \<or> int max_clips < n then Inl (Invalid_argument ''joint-full requires 1..4096 clips'')
      else let s = reshuffle ra \<lparr>rs_identity = identity, rs_epochs = epochs, rs_step = 0, rs_initial_lr = lr, rs_decay = decay,
                     rs_order = map int [0..<nat n], rs_random = ra_seed ra seed\<rparr>
           in case validate_run fo s of Inl x \<Rightarrow> Inl x | Inr _ \<Rightarrow> Inr s)"

section \<open>The channel\<close>

datatype training_result = Training_completed | Training_failed | Training_stopped
datatype delivery = Delivered | Closed | Delivery_error

text \<open>Answers of \<^verbatim>\<open>pread\<close> and \<^verbatim>\<open>pwrite\<close>, retried when they were interrupted.\<close>

fun retried :: "reply list \<Rightarrow> nat \<Rightarrow> nat option" where
  "retried [] whole = Some whole"
| "retried (Interrupted # rs) whole = retried rs whole"
| "retried (Failed # rs) whole = None"
| "retried (Moved n # rs) whole = Some (min n whole)"

text \<open>The reader: \<^const>\<open>None\<close> without a channel; the file it opened and whether an error was met.\<close>

record reader =
  re_open :: bool
  re_error :: bool

definition open_reader :: "string \<Rightarrow> (bool \<times> nat) option \<Rightarrow> bool \<Rightarrow> reader" where
  "open_reader path found stat_fails =
     (if path = [] then \<lparr>re_open = False, re_error = False\<rparr>
      else case found of None \<Rightarrow> \<lparr>re_open = False, re_error = True\<rparr>
      | Some (regular, bytes) \<Rightarrow> \<lparr>re_open = True, re_error = (stat_fails \<or> \<not> regular \<or> bytes \<noteq> 1)\<rparr>)"

definition poll_reader :: "reply list \<Rightarrow> bytes \<Rightarrow> reader \<Rightarrow> reader \<times> training_result" where
  "poll_reader rs held r =
     (if re_error r then (r, Training_failed)
      else if \<not> re_open r then (r, Training_completed)
      else let got = (case retried rs (min 2 (length held)) of None \<Rightarrow> None | Some n \<Rightarrow> Some (take n held))
           in if got = Some ''0'' then (r, Training_completed)
              else if got = Some ''1'' then (r, Training_stopped)
              else (r\<lparr>re_error := True\<rparr>, Training_failed))"

record source =
  so_open :: bool
  so_error :: bool
  so_requested :: bool

text \<open>The constructor: the new file holds \<^verbatim>\<open>0\<close>.\<close>

definition open_source :: "bool \<Rightarrow> reply list \<Rightarrow> (source \<times> bytes) option" where
  "open_source created rs =
     (if \<not> created \<or> retried rs 1 \<noteq> Some 1 then None
      else Some (\<lparr>so_open = True, so_error = False, so_requested = False\<rparr>, ''0''))"

definition request_stop :: "reply list \<Rightarrow> source \<times> bytes \<Rightarrow> (source \<times> bytes) \<times> delivery" where
  "request_stop rs p =
     (let (c, held) = p in
      if so_error c then (p, Delivery_error)
      else if \<not> so_open c then (p, Closed)
      else if so_requested c then (p, Delivered)
      else if retried rs 1 \<noteq> Some 1 then ((c\<lparr>so_error := True\<rparr>, held), Delivery_error)
      else ((c\<lparr>so_requested := True\<rparr>, ''1'' @ drop 1 held), Delivered))"

definition close_source :: "bool \<Rightarrow> source \<Rightarrow> source \<times> bool" where
  "close_source fails c =
     (let c' = (if so_open c then c\<lparr>so_open := False, so_error := (so_error c \<or> fails)\<rparr> else c) in (c', \<not> so_error c'))"

text \<open>
  \<^verbatim>\<open>run_training_iterations\<close>, which the other profiles use: a poll before every step and one after the last.
  \<open>poll\<close> is what the channel answers before the given step.
\<close>

fun run_training_iterations ::
  "(nat \<Rightarrow> training_result) \<Rightarrow> (nat \<Rightarrow> 's \<Rightarrow> 's \<times> bool) \<Rightarrow> nat \<Rightarrow> nat \<Rightarrow> 's \<Rightarrow> 's \<times> training_result" where
  "run_training_iterations poll complete_step i 0 s = (s, poll i)"
| "run_training_iterations poll complete_step i (Suc left) s =
     (if poll i \<noteq> Training_completed then (s, poll i)
      else let (s', good) = complete_step i s
           in if good then run_training_iterations poll complete_step (Suc i) left s' else (s', Training_failed))"

section \<open>The run\<close>

text \<open>
  The trainer and its files, by step, clip and epoch: the frames of a verified clip, a step, the learning
  rate it is given, the steps and the rate it reports, and whether a checkpoint and a candidate could be
  written.
\<close>

record ('f, 't) trainer_ops =
  to_frames :: "int \<Rightarrow> int \<Rightarrow> int result"
  to_step :: "int \<Rightarrow> int \<Rightarrow> 't \<Rightarrow> 't result"
  to_set_lr :: "'f \<Rightarrow> 't \<Rightarrow> 't"
  to_steps :: "'t \<Rightarrow> int"
  to_rate :: "'t \<Rightarrow> 'f"
  to_save :: "int \<Rightarrow> bool"
  to_export :: "int \<Rightarrow> bool"

text \<open>The files of the checkpoint directory, in the order of their numbered names.\<close>

record ('f, 'g, 't) run =
  ru_state :: "('f, 'g) run_state"
  ru_trainer :: 't
  ru_checkpoints :: "(int \<times> ('f, 'g) run_state \<times> 't) list"
  ru_candidates :: "(int \<times> 't) list"

definition put_numbered :: "int \<Rightarrow> 'a \<Rightarrow> (int \<times> 'a) list \<Rightarrow> (int \<times> 'a) list" where
  "put_numbered n v files = insort_key fst (n, v) (filter (\<lambda>p. fst p \<noteq> n) files)"

text \<open>\<^verbatim>\<open>save_state\<close>: the checkpoint is committed, then all but the last two are removed.\<close>

definition save_state :: "('f, 't) trainer_ops \<Rightarrow> ('f, 'g, 't) run \<Rightarrow> ('f, 'g, 't) run result" where
  "save_state op r =
     (if \<not> to_save op (rs_step (ru_state r)) then Inl (Runtime_error ''joint-full full checkpoint save failed'')
      else let files = put_numbered (rs_step (ru_state r)) (ru_state r, ru_trainer r) (ru_checkpoints r)
           in Inr (r\<lparr>ru_checkpoints := drop (length files - 2) files\<rparr>))"

definition save_candidate :: "('f, 't) trainer_ops \<Rightarrow> ('f, 'g, 't) run \<Rightarrow> ('f, 'g, 't) run result" where
  "save_candidate op r =
     (let s = ru_state r in
      if slot s \<noteq> 0 \<or> epoch s = 0 \<or> 200 < epoch s \<or> epoch s mod 50 \<noteq> 0 then Inr r
      else if \<not> to_export op (epoch s) then Inl (Runtime_error ''joint-full candidate export failed'')
      else Inr (r\<lparr>ru_candidates := put_numbered (epoch s) (ru_trainer r) (ru_candidates r)\<rparr>))"

definition after_epoch :: "('f, 't) trainer_ops \<Rightarrow> ('f, 'g, 't) run \<Rightarrow> ('f, 'g, 't) run result" where
  "after_epoch op r =
     (let s = ru_state r in
      if slot s \<noteq> 0 then Inr r
      else case (if epoch s mod 5 = 0 \<or> run_done s then save_state op r else Inr r) of Inl x \<Rightarrow> Inl x
      | Inr r' \<Rightarrow> save_candidate op r')"

definition train_once ::
  "'f float_ops \<Rightarrow> 'g random_ops \<Rightarrow> ('f, 't) trainer_ops \<Rightarrow> ('f, 'g, 't) run \<Rightarrow> ('f, 'g, 't) run result" where
  "train_once fo ra op r =
     (case current_clip (ru_state r) of Inl x \<Rightarrow> Inl x
      | Inr clip \<Rightarrow>
      case to_frames op (rs_step (ru_state r)) clip of Inl x \<Rightarrow> Inl x
      | Inr frames \<Rightarrow>
      case crop ra frames (ru_state r) of Inl x \<Rightarrow> Inl x
      | Inr (start, s1) \<Rightarrow>
      case to_step op clip start (ru_trainer r) of Inl x \<Rightarrow> Inl x
      | Inr t1 \<Rightarrow>
      case advance ra s1 of Inl x \<Rightarrow> Inl x
      | Inr s2 \<Rightarrow>
      case learning_rate fo s2 of Inl x \<Rightarrow> Inl x
      | Inr lr \<Rightarrow> after_epoch op (r\<lparr>ru_state := s2, ru_trainer := to_set_lr op lr t1\<rparr>))"

text \<open>\<open>poll\<close> is what the channel answers when the given number of steps is complete.\<close>

partial_function (option) train_loop ::
  "'f float_ops \<Rightarrow> 'g random_ops \<Rightarrow> ('f, 't) trainer_ops \<Rightarrow> (int \<Rightarrow> training_result) \<Rightarrow> ('f, 'g, 't) run
     \<Rightarrow> (('f, 'g, 't) run \<times> training_result) result option" where
  "train_loop fo ra op poll r =
     (if run_done (ru_state r) then Some (Inr (r, Training_completed))
      else if poll (rs_step (ru_state r)) \<noteq> Training_completed
      then Some (map_sum id (\<lambda>r'. (r', poll (rs_step (ru_state r)))) (save_state op r))
      else case train_once fo ra op r of Inl x \<Rightarrow> Some (Inl x) | Inr r' \<Rightarrow> train_loop fo ra op poll r')"

text \<open>After the loop: a last poll, the candidate of a resumption that had nothing to do, the final model.\<close>

definition train_run ::
  "'f float_ops \<Rightarrow> 'g random_ops \<Rightarrow> ('f, 't) trainer_ops \<Rightarrow> (int \<Rightarrow> training_result) \<Rightarrow> bool \<Rightarrow> ('f, 'g, 't) run
     \<Rightarrow> (('f, 'g, 't) run \<times> training_result) result option" where
  "train_run fo ra op poll exported r =
     (case train_loop fo ra op poll r of None \<Rightarrow> None
      | Some (Inl x) \<Rightarrow> Some (Inl x)
      | Some (Inr (r1, c)) \<Rightarrow>
          if c \<noteq> Training_completed then Some (Inr (r1, c))
          else if poll (rs_step (ru_state r1)) \<noteq> Training_completed
          then Some (map_sum id (\<lambda>r2. (r2, poll (rs_step (ru_state r1)))) (save_state op r1))
          else case (if rs_step (ru_state r1) = rs_step (ru_state r) then save_candidate op r1 else Inr r1) of
            Inl x \<Rightarrow> Some (Inl x)
          | Inr r2 \<Rightarrow> Some (if exported then Inr (r2, Training_completed)
                           else Inl (Runtime_error ''joint-full final export failed'')))"

text \<open>
  What the run relies on: a step counts one, and the learning rate is the one that was set.
\<close>

definition trainer_counts :: "('f, 't) trainer_ops \<Rightarrow> bool" where
  "trainer_counts op \<longleftrightarrow> (\<forall>clip start t t'. to_step op clip start t = Inr t' \<longrightarrow> to_steps op t' = to_steps op t + 1)
     \<and> (\<forall>lr t. to_steps op (to_set_lr op lr t) = to_steps op t \<and> to_rate op (to_set_lr op lr t) = lr)"

text \<open>
  A run from the start saves its first checkpoint; a resumption continues the checkpoint its caller names,
  which is the newest one here.
\<close>

definition start_run ::
  "('f, 't) trainer_ops \<Rightarrow> ('f, 'g) run_state \<Rightarrow> 't \<Rightarrow> ('f, 'g, 't) run result" where
  "start_run op s t = save_state op \<lparr>ru_state = s, ru_trainer = t, ru_checkpoints = [], ru_candidates = []\<rparr>"

definition same_recipe :: "('f, 'g) run_state \<Rightarrow> ('f, 'g) run_state \<Rightarrow> bool" where
  "same_recipe restored s \<longleftrightarrow> rs_identity restored = rs_identity s \<and> rs_epochs restored = rs_epochs s
     \<and> length (rs_order restored) = length (rs_order s)
     \<and> rs_initial_lr restored = rs_initial_lr s \<and> rs_decay restored = rs_decay s"

definition resume_run ::
  "'f float_ops \<Rightarrow> ('f, 't) trainer_ops \<Rightarrow> ('f, 'g) run_state \<Rightarrow> ('f, 'g, 't) run \<Rightarrow> ('f, 'g, 't) run result" where
  "resume_run fo op s r =
     (case ru_checkpoints r of [] \<Rightarrow> Inl (Runtime_error ''joint-full checkpoint load failed'')
      | _ \<Rightarrow>
          let (n, restored, t) = last (ru_checkpoints r)
          in case validate_run fo restored of Inl x \<Rightarrow> Inl x
             | Inr _ \<Rightarrow>
                 if \<not> same_recipe restored s \<or> rs_step restored \<noteq> to_steps op t \<or> learning_rate fo restored \<noteq> Inr (to_rate op t)
                 then Inl (Invalid_argument ''resume dataset, recipe, step or learning rate mismatch'')
                 else Inr (r\<lparr>ru_state := restored, ru_trainer := t\<rparr>))"

end
