(* ===== verification/TrainingContract.thy ===== *)
theory TrainingContract
  imports TrainingRun
begin

text \<open>
  What a training run promises: it ends, every epoch feeds every clip exactly once, stopping it at any
  step and resuming from its newest checkpoint changes nothing of its outcome, and a request on its
  channel stops it before the next step.
\<close>

section \<open>States\<close>

definition run_ok :: "('f, 'g) run_state \<Rightarrow> bool" where
  "run_ok s \<longleftrightarrow> 0 < clips s \<and> length (rs_order s) \<le> max_clips \<and> mset (rs_order s) = mset (map int [0..<length (rs_order s)])
     \<and> 1 \<le> rs_epochs s \<and> rs_epochs s \<le> 2000 \<and> 0 \<le> rs_step s \<and> rs_step s \<le> rs_epochs s * clips s"

lemma validated_ok: "validate_run fo s = Inr () \<Longrightarrow> run_ok s"
  unfolding validate_run_def run_ok_def
  by (auto simp: clips_def split: if_splits sum.splits dest: arg_cong [where f = mset])

lemma validated_iff:
  "validate_run fo s = Inr () \<longleftrightarrow> valid_digest (rs_identity s) \<and> fo_unit fo (rs_initial_lr s) \<and> fo_unit fo (rs_decay s)
     \<and> run_ok s \<and> is_ok (learning_rate fo s)"
proof -
  have "sort (rs_order s) = map int [0..<length (rs_order s)]
      \<longleftrightarrow> mset (rs_order s) = mset (map int [0..<length (rs_order s)])"
  proof
    assume "mset (rs_order s) = mset (map int [0..<length (rs_order s)])"
    moreover have "sorted (map int [0..<length (rs_order s)])" by (simp add: sorted_map)
    ultimately show "sort (rs_order s) = map int [0..<length (rs_order s)]"
      by (metis properties_for_sort mset_sort sorted_sort)
  qed (metis mset_sort)
  then show ?thesis
    by (auto simp: validate_run_def run_ok_def clips_def split: sum.splits)
qed

lemma reshuffle_simps [simp]:
  "rs_step (reshuffle ra s) = rs_step s" "rs_epochs (reshuffle ra s) = rs_epochs s" "rs_identity (reshuffle ra s) = rs_identity s"
  "rs_initial_lr (reshuffle ra s) = rs_initial_lr s" "rs_decay (reshuffle ra s) = rs_decay s"
  by (simp_all add: reshuffle_def case_prod_beta)

lemma reshuffle_order:
  "permuting ra \<Longrightarrow> mset (rs_order (reshuffle ra s)) = mset (rs_order s) \<and> length (rs_order (reshuffle ra s)) = length (rs_order s)"
  by (auto simp: reshuffle_def case_prod_beta permuting_def dest: arg_cong [where f = size] intro: mset_eq_length)

lemma crop_simps:
  "crop ra frames s = Inr (start, t) \<Longrightarrow> \<not> run_done s \<and> 32 \<le> frames \<and> frames \<le> 600 \<and> (\<exists>g. t = s\<lparr>rs_random := g\<rparr>)"
  by (auto simp: crop_def case_prod_beta split: if_splits)

lemma advanced:
  assumes "advance ra s = Inr t" and "permuting ra" and "run_ok s"
  shows "\<not> run_done s \<and> run_ok t \<and> rs_step t = rs_step s + 1 \<and> rs_epochs t = rs_epochs s \<and> clips t = clips s
    \<and> rs_identity t = rs_identity s \<and> rs_initial_lr t = rs_initial_lr s \<and> rs_decay t = rs_decay s
    \<and> (slot t \<noteq> 0 \<longrightarrow> rs_order t = rs_order s)"
proof -
  define s1 where "s1 = s\<lparr>rs_step := rs_step s + 1\<rparr>"
  have t: "\<not> run_done s" "t = (if slot s1 = 0 \<and> \<not> run_done s1 then reshuffle ra s1 else s1)"
    using assms(1) unfolding advance_def Let_def s1_def [symmetric] by (auto split: if_splits)
  have "rs_step s + 1 \<le> rs_epochs s * clips s"
    using assms(3) t(1) by (simp add: run_ok_def run_done_def)
  moreover have "mset (rs_order t) = mset (rs_order s) \<and> length (rs_order t) = length (rs_order s)"
    using reshuffle_order [OF assms(2), of s1] by (simp add: t(2) s1_def)
  moreover have "rs_step t = rs_step s + 1" "rs_epochs t = rs_epochs s" "rs_identity t = rs_identity s"
    "rs_initial_lr t = rs_initial_lr s" "rs_decay t = rs_decay s"
    by (simp_all add: t(2) s1_def)
  moreover have "slot t \<noteq> 0 \<longrightarrow> rs_order t = rs_order s"
    using calculation by (auto simp: t(2) s1_def slot_def clips_def)
  ultimately show ?thesis using assms(3) t(1) by (simp add: run_ok_def clips_def)
qed

lemma begun:
  assumes "begin_run fo ra i n epochs seed lr decay = Inr s" and "permuting ra"
  shows "validate_run fo s = Inr () \<and> rs_step s = 0 \<and> rs_epochs s = epochs \<and> clips s = n \<and> rs_identity s = i
    \<and> rs_initial_lr s = lr \<and> rs_decay s = decay"
  using assms(1)
  by (auto simp: begin_run_def Let_def clips_def reshuffle_order [OF assms(2), THEN conjunct2] split: if_splits sum.splits)

section \<open>Iterations\<close>

text \<open>A run of the other profiles that completed did all its steps, each after an answer to go on.\<close>

lemma iterations_completed:
  assumes "run_training_iterations poll complete_step i n s = (t, Training_completed)"
  shows "(\<forall>j \<in> {i..i + n}. poll j = Training_completed) \<and> t = fold (\<lambda>j s. fst (complete_step j s)) [i..<i + n] s"
  using assms
proof (induction n arbitrary: i s)
  case (Suc n)
  obtain s' good where c: "complete_step i s = (s', good)" by (cases "complete_step i s")
  with Suc.prems have p: "poll i = Training_completed" and good: good
    and rest: "run_training_iterations poll complete_step (Suc i) n s' = (t, Training_completed)"
    by (auto split: if_splits)
  from Suc.IH [OF rest] have ih: "\<forall>j \<in> {Suc i..Suc i + n}. poll j = Training_completed"
    "t = fold (\<lambda>j s. fst (complete_step j s)) [Suc i..<Suc i + n] s'" by simp_all
  have "[i..<i + Suc n] = i # [Suc i..<Suc i + n]" by (simp add: upt_conv_Cons)
  moreover have "poll j = Training_completed" if "j \<in> {i..i + Suc n}" for j
    using that p ih(1) by (cases "j = i") auto
  ultimately show ?case using ih(2) c by simp
qed simp

section \<open>Files\<close>

lemma put_numbered_last:
  assumes "\<forall>p \<in> set files. fst p \<le> n"
  shows "put_numbered n v files = filter (\<lambda>p. fst p \<noteq> n) files @ [(n, v)]"
proof -
  have "insort_key fst (n, v) xs = xs @ [(n, v)]" if "\<forall>p \<in> set xs. fst p < n" for xs :: "(int \<times> 'a) list"
    using that by (induction xs) auto
  moreover have "\<forall>p \<in> set (filter (\<lambda>p. fst p \<noteq> n) files). fst p < n" using assms by fastforce
  ultimately show ?thesis by (simp add: put_numbered_def)
qed

lemma put_numbered_again [simp]: "put_numbered n v (put_numbered n v files) = put_numbered n v files"
proof -
  have "filter (\<lambda>p. fst p \<noteq> n) (insort_key fst (n, v) xs) = filter (\<lambda>p. fst p \<noteq> n) xs" for xs :: "(int \<times> 'a) list"
    by (induction xs) auto
  then show ?thesis by (simp add: put_numbered_def)
qed

lemma set_put_numbered: "set (put_numbered n v files) = insert (n, v) {p \<in> set files. fst p \<noteq> n}"
  by (auto simp: put_numbered_def set_insort_key)

text \<open>The checkpoints of a run: at most two, none of a later step.\<close>

definition files_ok :: "('f, 'g, 't) run \<Rightarrow> bool" where
  "files_ok r \<longleftrightarrow> length (ru_checkpoints r) \<le> 2 \<and> (\<forall>p \<in> set (ru_checkpoints r). fst p \<le> rs_step (ru_state r))"

definition newest_saved :: "('f, 'g, 't) run \<Rightarrow> bool" where
  "newest_saved r \<longleftrightarrow> ru_checkpoints r \<noteq> []
     \<and> last (ru_checkpoints r) = (rs_step (ru_state r), ru_state r, ru_trainer r)"

lemma saved_state:
  assumes "save_state op r = Inr t" and "files_ok r"
  shows "ru_state t = ru_state r \<and> ru_trainer t = ru_trainer r \<and> ru_candidates t = ru_candidates r
    \<and> files_ok t \<and> newest_saved t"
proof -
  define files where "files = put_numbered (rs_step (ru_state r)) (ru_state r, ru_trainer r) (ru_checkpoints r)"
  have t: "t = r\<lparr>ru_checkpoints := drop (length files - 2) files\<rparr>"
    using assms(1) by (simp add: save_state_def files_def Let_def split: if_splits)
  have f: "files = filter (\<lambda>p. fst p \<noteq> rs_step (ru_state r)) (ru_checkpoints r) @ [(rs_step (ru_state r), ru_state r, ru_trainer r)]"
    unfolding files_def by (rule put_numbered_last) (use assms(2) in \<open>simp add: files_ok_def\<close>)
  have "set (drop (length files - 2) files) \<subseteq> set files" by (rule set_drop_subset)
  then have "\<forall>p \<in> set (drop (length files - 2) files). fst p \<le> rs_step (ru_state r)"
    using assms(2) f by (auto simp: files_ok_def)
  moreover have "drop (length files - 2) files \<noteq> []" "last (drop (length files - 2) files) = last files"
    using f by (auto simp: last_drop)
  ultimately show ?thesis using f by (simp add: t files_ok_def newest_saved_def)
qed

text \<open>The candidate of the epoch, when one is due, was exported from the trainer as it is.\<close>

definition candidates_ok :: "('f, 't) trainer_ops \<Rightarrow> ('f, 'g, 't) run \<Rightarrow> bool" where
  "candidates_ok op r \<longleftrightarrow>
     slot (ru_state r) \<noteq> 0 \<or> epoch (ru_state r) = 0 \<or> 200 < epoch (ru_state r) \<or> epoch (ru_state r) mod 50 \<noteq> 0
     \<or> to_export op (epoch (ru_state r))
       \<and> put_numbered (epoch (ru_state r)) (ru_trainer r) (ru_candidates r) = ru_candidates r"

lemma candidates_saved: "candidates_ok op r \<Longrightarrow> save_candidate op r = Inr r"
  by (cases r) (auto simp: candidates_ok_def save_candidate_def Let_def)

lemma candidates_ok_cong:
  "ru_state t = ru_state r \<Longrightarrow> ru_trainer t = ru_trainer r \<Longrightarrow> ru_candidates t = ru_candidates r
     \<Longrightarrow> candidates_ok op t = candidates_ok op r"
  by (simp add: candidates_ok_def)

lemma saved_candidate:
  assumes "save_candidate op r = Inr t"
  shows "ru_state t = ru_state r \<and> ru_trainer t = ru_trainer r \<and> ru_checkpoints t = ru_checkpoints r \<and> candidates_ok op t"
  using assms by (auto simp: save_candidate_def candidates_ok_def Let_def split: if_splits)

lemma after_epoch_step:
  assumes "after_epoch op r = Inr t" and "files_ok r"
  shows "ru_state t = ru_state r \<and> ru_trainer t = ru_trainer r \<and> files_ok t \<and> candidates_ok op t"
proof (cases "slot (ru_state r) = 0")
  case True
  then obtain r1 where r1: "(if epoch (ru_state r) mod 5 = 0 \<or> run_done (ru_state r) then save_state op r else Inr r) = Inr r1"
    and t: "save_candidate op r1 = Inr t"
    using assms(1) by (auto simp: after_epoch_def Let_def split: sum.splits)
  have "ru_state r1 = ru_state r \<and> ru_trainer r1 = ru_trainer r \<and> files_ok r1"
    using r1 saved_state [OF _ assms(2)] assms(2) by (auto split: if_splits)
  then show ?thesis using saved_candidate [OF t] unfolding files_ok_def by metis
next
  case False
  then show ?thesis using assms by (simp add: after_epoch_def candidates_ok_def Let_def)
qed

section \<open>One step\<close>

definition run_inv :: "'f float_ops \<Rightarrow> ('f, 't) trainer_ops \<Rightarrow> ('f, 'g, 't) run \<Rightarrow> bool" where
  "run_inv fo op r \<longleftrightarrow> validate_run fo (ru_state r) = Inr () \<and> files_ok r \<and> candidates_ok op r"

text \<open>The parts of a step, in the order of the code.\<close>

lemma train_onceE:
  assumes "train_once fo ra op r = Inr t"
  obtains clip frames start s1 t1 s2 lr where "current_clip (ru_state r) = Inr clip" "to_frames op (rs_step (ru_state r)) clip = Inr frames"
    "crop ra frames (ru_state r) = Inr (start, s1)" "to_step op clip start (ru_trainer r) = Inr t1" "advance ra s1 = Inr s2"
    "learning_rate fo s2 = Inr lr" "after_epoch op (r\<lparr>ru_state := s2, ru_trainer := to_set_lr op lr t1\<rparr>) = Inr t"
  using assms by (auto simp: train_once_def split: sum.splits prod.splits)

lemma train_once_step:
  assumes "train_once fo ra op r = Inr t" and "permuting ra" and "run_inv fo op r"
  shows "run_inv fo op t \<and> rs_step (ru_state t) = rs_step (ru_state r) + 1 \<and> \<not> run_done (ru_state r)
    \<and> rs_epochs (ru_state t) = rs_epochs (ru_state r) \<and> clips (ru_state t) = clips (ru_state r)
    \<and> same_recipe (ru_state t) (ru_state r)"
  using assms(1)
proof (cases rule: train_onceE)
  case (1 clip frames start s1 t1 s2 lr)
  from assms(3) have v: "validate_run fo (ru_state r) = Inr ()" and f: "files_ok r" by (simp_all add: run_inv_def)
  from crop_simps [OF 1(3)] obtain g where s1: "s1 = (ru_state r)\<lparr>rs_random := g\<rparr>" by blast
  have ok: "run_ok s1" using validated_ok [OF v] by (simp add: s1 run_ok_def clips_def)
  note a = advanced [OF 1(5) assms(2) ok]
  have s2: "validate_run fo s2 = Inr ()"
    using a v 1(6) by (simp add: validated_iff s1)
  let ?r = "r\<lparr>ru_state := s2, ru_trainer := to_set_lr op lr t1\<rparr>"
  have "files_ok ?r" using f a by (auto simp: files_ok_def s1)
  from after_epoch_step [OF 1(7) this] have t: "ru_state t = s2" "files_ok t" "candidates_ok op t" by simp_all
  have "\<not> run_done (ru_state r)" using a by (simp add: s1 run_done_def clips_def)
  moreover have "clips s1 = clips (ru_state r)" by (simp add: s1 clips_def)
  moreover from this have "length (rs_order s2) = length (rs_order (ru_state r))" using a by (simp add: clips_def)
  ultimately show ?thesis using a t s2 by (simp add: run_inv_def s1 same_recipe_def)
qed

lemma same_recipe_trans: "same_recipe a b \<Longrightarrow> same_recipe b c \<Longrightarrow> same_recipe a c"
  by (simp add: same_recipe_def)

lemma same_recipe_refl [simp]: "same_recipe a a"
  by (simp add: same_recipe_def)

section \<open>The loop\<close>

text \<open>The steps that remain; every step takes one.\<close>

definition remaining :: "('f, 'g) run_state \<Rightarrow> nat" where
  "remaining s = nat (rs_epochs s * clips s - rs_step s)"

lemma train_once_remaining:
  assumes "train_once fo ra op r = Inr t" and "permuting ra" and "run_inv fo op r"
  shows "remaining (ru_state t) < remaining (ru_state r)"
proof -
  have "validate_run fo (ru_state r) = Inr ()" using assms(3) by (simp add: run_inv_def)
  then have "run_ok (ru_state r)" by (rule validated_ok)
  then show ?thesis
    using train_once_step [OF assms] by (auto simp: remaining_def run_ok_def run_done_def)
qed

text \<open>Induction over a loop from a valid run: at its end, at a stop, and through a step.\<close>

lemma train_loop_induct [consumes 2, case_names finished stopped failed step]:
  fixes r :: "('f, 'g, 't) run"
  assumes "permuting ra" and "run_inv fo op r"
    and "\<And>r. run_inv fo op r \<Longrightarrow> run_done (ru_state r) \<Longrightarrow> P r"
    and "\<And>r. run_inv fo op r \<Longrightarrow> \<not> run_done (ru_state r) \<Longrightarrow> poll (rs_step (ru_state r)) \<noteq> Training_completed \<Longrightarrow> P r"
    and "\<And>r x. run_inv fo op r \<Longrightarrow> \<not> run_done (ru_state r) \<Longrightarrow> poll (rs_step (ru_state r)) = Training_completed
      \<Longrightarrow> train_once fo ra op r = Inl x \<Longrightarrow> P r"
    and "\<And>r t. run_inv fo op r \<Longrightarrow> \<not> run_done (ru_state r) \<Longrightarrow> poll (rs_step (ru_state r)) = Training_completed
      \<Longrightarrow> train_once fo ra op r = Inr t \<Longrightarrow> P t \<Longrightarrow> P r"
  shows "P r"
  using assms(2)
proof (induction "remaining (ru_state r)" arbitrary: r rule: less_induct)
  case less
  show ?case
  proof (cases "run_done (ru_state r) \<or> poll (rs_step (ru_state r)) \<noteq> Training_completed")
    case True
    then show ?thesis using assms(3,4) less(2) by blast
  next
    case False
    show ?thesis
    proof (cases "train_once fo ra op r")
      case (Inl x)
      then show ?thesis using assms(5) [OF less(2)] False by blast
    next
      case (Inr t)
      have "P t" using less(1) [OF train_once_remaining [OF Inr assms(1) less(2)]] train_once_step [OF Inr assms(1) less(2)] by blast
      then show ?thesis using assms(6) [OF less(2) _ _ Inr] False by blast
    qed
  qed
qed

lemma train_loop_simps:
  "run_done (ru_state r) \<Longrightarrow> train_loop fo ra op poll r = Some (Inr (r, Training_completed))"
  "\<not> run_done (ru_state r) \<Longrightarrow> poll (rs_step (ru_state r)) \<noteq> Training_completed \<Longrightarrow>
     train_loop fo ra op poll r = Some (map_sum id (\<lambda>r'. (r', poll (rs_step (ru_state r)))) (save_state op r))"
  "\<not> run_done (ru_state r) \<Longrightarrow> poll (rs_step (ru_state r)) = Training_completed \<Longrightarrow> train_once fo ra op r = Inl x \<Longrightarrow>
     train_loop fo ra op poll r = Some (Inl x)"
  "\<not> run_done (ru_state r) \<Longrightarrow> poll (rs_step (ru_state r)) = Training_completed \<Longrightarrow> train_once fo ra op r = Inr t \<Longrightarrow>
     train_loop fo ra op poll r = train_loop fo ra op poll t"
  by (subst train_loop.simps, simp)+

text \<open>The loop returns; where it ends the run is valid, and where it was stopped its state is saved.\<close>

lemma train_loop_ends:
  assumes "permuting ra" and "run_inv fo op r"
  shows "\<exists>out. train_loop fo ra op poll r = Some out
    \<and> (\<forall>t c. out = Inr (t, c) \<longrightarrow> run_inv fo op t \<and> same_recipe (ru_state t) (ru_state r)
         \<and> rs_step (ru_state r) \<le> rs_step (ru_state t)
         \<and> (if c = Training_completed then run_done (ru_state t) else newest_saved t \<and> c = poll (rs_step (ru_state t))))"
  using assms
proof (induction rule: train_loop_induct [where poll = poll])
  case (finished r)
  then show ?case by (simp add: train_loop_simps)
next
  case (stopped r)
  have "run_inv fo op t \<and> newest_saved t \<and> ru_state t = ru_state r" if "save_state op r = Inr t" for t
    using saved_state [OF that] stopped(1) candidates_ok_cong [of t r op] by (simp add: run_inv_def)
  then show ?case
    using stopped by (cases "save_state op r") (auto simp: train_loop_simps)
next
  case (failed r x)
  then show ?case by (simp add: train_loop_simps)
next
  case (step r t)
  have s: "same_recipe (ru_state t) (ru_state r)" "rs_step (ru_state r) \<le> rs_step (ru_state t)"
    using train_once_step [OF step(4) assms(1) step(1)] by simp_all
  then show ?case
    using step(5) unfolding train_loop_simps(4) [where poll = poll, OF step(2,3,4)] using same_recipe_trans by fastforce
qed

section \<open>Stopping and resuming\<close>

text \<open>A run without its checkpoints, and the outcome of a run up to them.\<close>

definition strip :: "('f, 'g, 't) run \<Rightarrow> ('f, 'g, 't) run" where
  "strip r = r\<lparr>ru_checkpoints := []\<rparr>"

definition outcome ::
  "(('f, 'g, 't) run \<times> training_result) result option \<Rightarrow> (('f, 'g, 't) run \<times> training_result) result option" where
  "outcome = map_option (map_sum id (map_prod strip id))"

lemma outcome_simps [simp]:
  "outcome (Some (Inl x)) = Some (Inl x)" "outcome (Some (Inr (r, c))) = Some (Inr (strip r, c))" "outcome None = None"
  by (simp_all add: outcome_def)

lemma strip_simps [simp]:
  "ru_state (strip r) = ru_state r" "ru_trainer (strip r) = ru_trainer r" "ru_candidates (strip r) = ru_candidates r"
  by (simp_all add: strip_def)

lemma strip_eq:
  "strip r = strip t \<longleftrightarrow> ru_state r = ru_state t \<and> ru_trainer r = ru_trainer t \<and> ru_candidates r = ru_candidates t"
  by (cases r; cases t) (simp add: strip_def)

lemma save_state_strip: "to_save op (rs_step (ru_state r)) \<Longrightarrow> map_sum id strip (save_state op r) = Inr (strip r)"
  by (simp add: save_state_def Let_def strip_def)

lemma save_candidate_strip: "map_sum id strip (save_candidate op r) = save_candidate op (strip r)"
  by (simp add: save_candidate_def Let_def strip_def)

lemma after_epoch_strip:
  assumes "\<forall>n. to_save op n"
  shows "map_sum id strip (after_epoch op r) = (if slot (ru_state r) \<noteq> 0 then Inr (strip r) else save_candidate op (strip r))"
proof (cases "slot (ru_state r) = 0")
  case True
  have "\<exists>t. (if epoch (ru_state r) mod 5 = 0 \<or> run_done (ru_state r) then save_state op r else Inr r) = Inr t \<and> strip t = strip r"
    using assms by (auto simp: save_state_def Let_def strip_def)
  then show ?thesis using True by (auto simp: after_epoch_def Let_def save_candidate_strip)
qed (simp add: after_epoch_def)

lemma train_once_strip:
  assumes "\<forall>n. to_save op n" and "strip r = strip t"
  shows "map_sum id strip (train_once fo ra op r) = map_sum id strip (train_once fo ra op t)"
proof -
  have e: "ru_state r = ru_state t" "ru_trainer r = ru_trainer t" "ru_candidates r = ru_candidates t"
    using assms(2) by (simp_all add: strip_eq)
  have "map_sum id strip (after_epoch op (r\<lparr>ru_state := s, ru_trainer := t1\<rparr>))
      = map_sum id strip (after_epoch op (t\<lparr>ru_state := s, ru_trainer := t1\<rparr>))" for s t1
  proof -
    have "strip (r\<lparr>ru_state := s, ru_trainer := t1\<rparr>) = strip (t\<lparr>ru_state := s, ru_trainer := t1\<rparr>)"
      using e by (simp add: strip_eq)
    then show ?thesis unfolding after_epoch_strip [OF assms(1)] by simp
  qed
  then show ?thesis unfolding train_once_def e by (auto split: sum.split prod.split)
qed

abbreviation on :: "int \<Rightarrow> training_result" where "on \<equiv> (\<lambda>_. Training_completed)"

lemma train_loop_strip:
  assumes "permuting ra" and "run_inv fo op r" and "\<forall>n. to_save op n"
  shows "run_inv fo op t \<Longrightarrow> strip r = strip t \<Longrightarrow> outcome (train_loop fo ra op on r) = outcome (train_loop fo ra op on t)"
  using assms(1,2)
proof (induction arbitrary: t rule: train_loop_induct [where poll = on])
  case (finished r)
  then have "run_done (ru_state t)" by (simp add: strip_eq)
  with finished show ?case by (simp add: train_loop_simps)
next
  case (stopped r)
  then show ?case by simp
next
  case (failed r x)
  have "map_sum id strip (train_once fo ra op t) = Inl x" using train_once_strip [OF assms(3) failed(6), of fo ra] failed(4) by simp
  then have "train_once fo ra op t = Inl x" by (cases "train_once fo ra op t") simp_all
  moreover have "\<not> run_done (ru_state t)" using failed(2,6) by (simp add: strip_eq)
  ultimately show ?case using failed(2,3,4) by (simp add: train_loop_simps)
next
  case (step r r1)
  have "map_sum id strip (train_once fo ra op t) = Inr (strip r1)" using train_once_strip [OF assms(3) step(7), of fo ra] step(4) by simp
  then obtain t1 where t1: "train_once fo ra op t = Inr t1" "strip r1 = strip t1" by (cases "train_once fo ra op t") auto
  have "run_inv fo op t1" using train_once_step [OF t1(1) assms(1) step(6)] by simp
  then have "outcome (train_loop fo ra op on r1) = outcome (train_loop fo ra op on t1)" using step(5) t1(2) by blast
  moreover have "\<not> run_done (ru_state t)" using step(2,7) by (simp add: strip_eq)
  ultimately show ?case using step(2,3,4) t1(1) by (simp add: train_loop_simps)
qed

text \<open>What a stopped loop left, carried on, ends as the loop that was not stopped.\<close>

lemma train_loop_carried_on:
  assumes "permuting ra" and "run_inv fo op r" and "\<forall>n. to_save op n"
  shows "train_loop fo ra op poll r = Some (Inr (t, c)) \<Longrightarrow>
    outcome (train_loop fo ra op on r) = outcome (train_loop fo ra op on t)"
  using assms(1,2)
proof (induction rule: train_loop_induct [where poll = poll])
  case (finished r)
  then show ?case by (simp add: train_loop_simps)
next
  case (stopped r)
  then have t: "save_state op r = Inr t" by (cases "save_state op r") (simp_all add: train_loop_simps)
  then have "strip t = strip r" using assms(3) by (auto simp: save_state_def Let_def strip_def)
  moreover have "run_inv fo op t"
    using saved_state [OF t] stopped(1) candidates_ok_cong [of t r op] by (simp add: run_inv_def)
  ultimately show ?case using train_loop_strip [OF assms(1) stopped(1) assms(3)] by simp
next
  case (failed r x)
  then show ?case by (simp add: train_loop_simps)
next
  case (step r r1)
  have "train_loop fo ra op poll r1 = Some (Inr (t, c))" using step(2,3,4,6) by (simp add: train_loop_simps)
  moreover have "train_loop fo ra op on r = train_loop fo ra op on r1" using step(2,4) by (simp add: train_loop_simps)
  ultimately show ?case using step(5) by simp
qed

lemma train_run_inv:
  assumes "run_inv fo op r" and "permuting ra"
  shows "train_run fo ra op poll exported r =
    (case train_loop fo ra op poll r of None \<Rightarrow> None
     | Some (Inl x) \<Rightarrow> Some (Inl x)
     | Some (Inr (r1, c)) \<Rightarrow>
         if c \<noteq> Training_completed then Some (Inr (r1, c))
         else if poll (rs_step (ru_state r1)) \<noteq> Training_completed
         then Some (map_sum id (\<lambda>r2. (r2, poll (rs_step (ru_state r1)))) (save_state op r1))
         else Some (if exported then Inr (r1, Training_completed) else Inl (Runtime_error ''joint-full final export failed'')))"
proof -
  have "save_candidate op t = Inr t" if "train_loop fo ra op poll r = Some (Inr (t, c))" for t c
    using train_loop_ends [OF assms(2,1), of poll] that candidates_saved [of op t] by (auto simp: run_inv_def)
  then show ?thesis by (auto simp: train_run_def split: option.split sum.split prod.split)
qed

lemma outcome_run:
  assumes "run_inv fo op r" and "permuting ra"
  shows "outcome (train_run fo ra op on exported r) =
    (case outcome (train_loop fo ra op on r) of None \<Rightarrow> None | Some (Inl x) \<Rightarrow> Some (Inl x)
     | Some (Inr (r1, c)) \<Rightarrow>
         if c \<noteq> Training_completed then Some (Inr (r1, c))
         else Some (if exported then Inr (r1, Training_completed) else Inl (Runtime_error ''joint-full final export failed'')))"
  unfolding train_run_inv [OF assms] by (auto split: option.split sum.split prod.split)

text \<open>A session that was stopped left a valid run whose newest checkpoint is its state, and nothing is lost.\<close>

lemma stopped_session:
  assumes "permuting ra" and "run_inv fo op r" and "\<forall>n. to_save op n"
    and "train_run fo ra op poll exported r = Some (Inr (t, c))" and "c \<noteq> Training_completed"
  shows "run_inv fo op t \<and> newest_saved t \<and> same_recipe (ru_state t) (ru_state r) \<and> rs_step (ru_state r) \<le> rs_step (ru_state t)
    \<and> c = poll (rs_step (ru_state t))
    \<and> outcome (train_run fo ra op on exported t) = outcome (train_run fo ra op on exported r)"
proof -
  obtain out where out: "train_loop fo ra op poll r = Some out" using train_loop_ends [OF assms(1,2), of poll] by blast
  with assms(4) obtain r1 c1 where loop: "train_loop fo ra op poll r = Some (Inr (r1, c1))"
    unfolding train_run_inv [OF assms(2,1)] by (cases out) auto
  have cases: "if c1 \<noteq> Training_completed then t = r1 \<and> c = c1
      else save_state op r1 = Inr t \<and> c = poll (rs_step (ru_state r1))"
    using assms(4,5) unfolding train_run_inv [OF assms(2,1)] loop
    by (cases "save_state op r1") (auto split: if_splits)
  note ends = train_loop_ends [OF assms(1,2), of poll, unfolded loop, simplified]
  have r1: "run_inv fo op r1" "same_recipe (ru_state r1) (ru_state r)" "rs_step (ru_state r) \<le> rs_step (ru_state r1)"
    using ends by simp_all
  have carried: "outcome (train_loop fo ra op on r) = outcome (train_loop fo ra op on r1)"
    by (rule train_loop_carried_on [OF assms(1,2,3) loop])
  show ?thesis
  proof (cases "c1 = Training_completed")
    case False
    then show ?thesis using ends cases carried r1 by (simp add: outcome_run [OF _ assms(1)] assms(2))
  next
    case True
    with cases have t: "save_state op r1 = Inr t" "c = poll (rs_step (ru_state r1))" by simp_all
    note s = saved_state [OF t(1)]
    have inv: "run_inv fo op t" using s r1(1) candidates_ok_cong [of t r1 op] by (simp add: run_inv_def)
    have "strip t = strip r1" using s r1(1) by (simp add: strip_eq run_inv_def)
    then have "outcome (train_loop fo ra op on r1) = outcome (train_loop fo ra op on t)"
      using train_loop_strip [OF assms(1) r1(1) assms(3) inv] by simp
    then show ?thesis
      using s r1 inv carried t(2) by (simp add: outcome_run [OF inv assms(1)] outcome_run [OF assms(2,1)]) (simp add: run_inv_def)
  qed
qed

text \<open>The trainer reports the step and the rate of the state.\<close>

definition trainer_agrees :: "'f float_ops \<Rightarrow> ('f, 't) trainer_ops \<Rightarrow> ('f, 'g, 't) run \<Rightarrow> bool" where
  "trainer_agrees fo op r \<longleftrightarrow> to_steps op (ru_trainer r) = rs_step (ru_state r)
     \<and> learning_rate fo (ru_state r) = Inr (to_rate op (ru_trainer r))"

lemma trainer_agrees_cong:
  "ru_state t = ru_state r \<Longrightarrow> ru_trainer t = ru_trainer r \<Longrightarrow> trainer_agrees fo op t = trainer_agrees fo op r"
  by (simp add: trainer_agrees_def)

lemma train_once_agrees:
  assumes "train_once fo ra op r = Inr t" and "permuting ra" and "run_inv fo op r" and "trainer_counts op"
    and "trainer_agrees fo op r"
  shows "trainer_agrees fo op t"
  using assms(1)
proof (cases rule: train_onceE)
  case (1 clip frames start s1 t1 s2 lr)
  from assms(3) have v: "validate_run fo (ru_state r) = Inr ()" and f: "files_ok r" by (simp_all add: run_inv_def)
  from crop_simps [OF 1(3)] obtain g where s1: "s1 = (ru_state r)\<lparr>rs_random := g\<rparr>" by blast
  have "run_ok s1" using validated_ok [OF v] by (simp add: s1 run_ok_def clips_def)
  note a = advanced [OF 1(5) assms(2) this]
  have "files_ok (r\<lparr>ru_state := s2, ru_trainer := to_set_lr op lr t1\<rparr>)" using f a by (auto simp: files_ok_def s1)
  from after_epoch_step [OF 1(7) this] have t: "ru_state t = s2" "ru_trainer t = to_set_lr op lr t1" by simp_all
  have "to_steps op t1 = to_steps op (ru_trainer r) + 1" using assms(4) 1(4) unfolding trainer_counts_def by blast
  then show ?thesis
    using a assms(4,5) 1(6) by (simp add: trainer_agrees_def t s1 trainer_counts_def)
qed

lemma train_loop_agrees:
  assumes "permuting ra" and "run_inv fo op r" and "trainer_counts op"
  shows "trainer_agrees fo op r \<Longrightarrow> train_loop fo ra op poll r = Some (Inr (t, c)) \<Longrightarrow> trainer_agrees fo op t"
  using assms(1,2)
proof (induction rule: train_loop_induct [where poll = poll])
  case (finished r)
  then show ?case by (simp add: train_loop_simps)
next
  case (stopped r)
  then have "save_state op r = Inr t" by (cases "save_state op r") (simp_all add: train_loop_simps)
  then have "ru_state t = ru_state r \<and> ru_trainer t = ru_trainer r" using saved_state stopped(1) unfolding run_inv_def by blast
  then show ?case using stopped(4) trainer_agrees_cong by blast
next
  case (failed r x)
  then show ?case by (simp add: train_loop_simps)
next
  case (step r r1)
  have "train_loop fo ra op poll r1 = Some (Inr (t, c))" using step(2,3,4,7) by (simp add: train_loop_simps)
  then show ?case using step(5) train_once_agrees [OF step(4) assms(1) step(1) assms(3) step(6)] by blast
qed

lemma train_run_agrees:
  assumes "permuting ra" and "run_inv fo op r" and "trainer_counts op" and "trainer_agrees fo op r"
    and "train_run fo ra op poll exported r = Some (Inr (t, c))"
  shows "trainer_agrees fo op t"
proof -
  obtain out where out: "train_loop fo ra op poll r = Some out" using train_loop_ends [OF assms(1,2), of poll] by blast
  with assms(5) obtain r1 c1 where loop: "train_loop fo ra op poll r = Some (Inr (r1, c1))"
    unfolding train_run_inv [OF assms(2,1)] by (cases out) auto
  have "run_inv fo op r1" using train_loop_ends [OF assms(1,2), of poll] loop by simp
  then have "files_ok r1" by (simp add: run_inv_def)
  have "t = r1 \<or> save_state op r1 = Inr t"
    using assms(5) unfolding train_run_inv [OF assms(2,1)] loop
    by (cases "save_state op r1") (auto split: if_splits)
  then have "ru_state t = ru_state r1 \<and> ru_trainer t = ru_trainer r1"
    using saved_state \<open>files_ok r1\<close> by blast
  then show ?thesis using train_loop_agrees [OF assms(1-4) loop] trainer_agrees_cong by blast
qed

lemma resumed_run:
  assumes "newest_saved t" and "run_inv fo op t" and "same_recipe (ru_state t) s" and "trainer_agrees fo op t"
  shows "resume_run fo op s t = Inr t"
proof -
  have "t\<lparr>ru_state := ru_state t, ru_trainer := ru_trainer t\<rparr> = t" by (cases t) simp
  then show ?thesis
    using assms by (cases "ru_checkpoints t") (auto simp: resume_run_def newest_saved_def run_inv_def trainer_agrees_def)
qed

text \<open>Sessions that may each be stopped, and a last one that is not; every session resumes the one before.\<close>

fun sessions ::
  "'f float_ops \<Rightarrow> 'g random_ops \<Rightarrow> ('f, 't) trainer_ops \<Rightarrow> bool \<Rightarrow> ('f, 'g) run_state \<Rightarrow> (int \<Rightarrow> training_result) list
     \<Rightarrow> ('f, 'g, 't) run \<Rightarrow> (('f, 'g, 't) run \<times> training_result) result option" where
  "sessions fo ra op exported s [] r = train_run fo ra op on exported r"
| "sessions fo ra op exported s (p # ps) r =
     (case train_run fo ra op p exported r of None \<Rightarrow> None
      | Some (Inl x) \<Rightarrow> Some (Inl x)
      | Some (Inr (t, c)) \<Rightarrow>
          if c = Training_completed then Some (Inr (t, c))
          else case resume_run fo op s t of Inl x \<Rightarrow> Some (Inl x)
          | Inr t' \<Rightarrow> sessions fo ra op exported s ps t')"

lemma saved_any: "\<forall>n. to_save op n \<Longrightarrow> \<exists>t. save_state op r = Inr t"
  by (simp add: save_state_def Let_def)

definition stops :: "(('f, 'g, 't) run \<times> training_result) result option \<Rightarrow> bool" where
  "stops out \<longleftrightarrow> (case out of Some (Inr (t, c)) \<Rightarrow> c \<noteq> Training_completed | _ \<Rightarrow> False)"

lemma stops_simps [simp]: "stops (Some (Inr (t, c))) = (c \<noteq> Training_completed)" "\<not> stops (Some (Inl x))"
  by (simp_all add: stops_def)

lemma unstopped_loop:
  assumes "permuting ra" and "run_inv fo op r" and "\<forall>n. to_save op n"
  shows "stops (train_loop fo ra op poll r) \<or> train_loop fo ra op poll r = train_loop fo ra op on r"
  using assms(1,2)
proof (induction rule: train_loop_induct [where poll = poll])
  case (finished r)
  then show ?case by (simp add: train_loop_simps)
next
  case (stopped r)
  obtain t where "save_state op r = Inr t" using saved_any [OF assms(3)] by blast
  then have "stops (train_loop fo ra op poll r)" using stopped by (simp add: train_loop_simps)
  then show ?case ..
next
  case (failed r x)
  then show ?case by (simp add: train_loop_simps)
next
  case (step r t)
  have "train_loop fo ra op poll r = train_loop fo ra op poll t" "train_loop fo ra op on r = train_loop fo ra op on t"
    using step(2,3,4) by (simp_all add: train_loop_simps)
  then show ?case using step(5) by simp
qed

lemma finished_session:
  assumes "permuting ra" and "run_inv fo op r" and "\<forall>n. to_save op n" and "\<not> stops (train_run fo ra op poll exported r)"
  shows "train_run fo ra op poll exported r = train_run fo ra op on exported r"
proof -
  obtain out where out: "train_loop fo ra op poll r = Some out" using train_loop_ends [OF assms(1,2), of poll] by blast
  show ?thesis
  proof (cases out)
    case (Inl x)
    then have "train_loop fo ra op on r = Some (Inl x)" using unstopped_loop [OF assms(1-3), of poll] out by simp
    then show ?thesis by (simp add: train_run_inv [OF assms(2,1)] out Inl)
  next
    case (Inr p)
    obtain r1 c1 where p: "out = Inr (r1, c1)" using Inr by (cases p) simp
    obtain t where t: "save_state op r1 = Inr t" using saved_any [OF assms(3)] by blast
    have c: "c1 = Training_completed" "poll (rs_step (ru_state r1)) = Training_completed"
      using assms(4) t unfolding train_run_inv [OF assms(2,1)] out p by (auto split: if_splits)
    have "train_loop fo ra op on r = Some (Inr (r1, c1))"
      using unstopped_loop [OF assms(1-3), of poll] c(1) unfolding out p by simp
    then show ?thesis using c by (simp add: train_run_inv [OF assms(2,1)] out p)
  qed
qed

lemma sessions_outcome:
  assumes "permuting ra" and "run_inv fo op r" and "\<forall>n. to_save op n" and "same_recipe (ru_state r) s"
    and "trainer_counts op" and "trainer_agrees fo op r"
  shows "outcome (sessions fo ra op exported s ps r) = outcome (train_run fo ra op on exported r)"
  using assms(2,4,6)
proof (induction ps arbitrary: r)
  case (Cons p ps)
  show ?case
  proof (cases "stops (train_run fo ra op p exported r)")
    case True
    then obtain t c where t: "train_run fo ra op p exported r = Some (Inr (t, c))" "c \<noteq> Training_completed"
      by (auto simp: stops_def split: option.splits sum.splits prod.splits)
    note st = stopped_session [OF assms(1) Cons.prems(1) assms(3) t]
    have recipe: "same_recipe (ru_state t) s" using st Cons.prems(2) same_recipe_trans by blast
    have agrees: "trainer_agrees fo op t" by (rule train_run_agrees [OF assms(1) Cons.prems(1) assms(5) Cons.prems(3) t(1)])
    have "resume_run fo op s t = Inr t" using resumed_run [OF _ _ recipe agrees] st by blast
    then show ?thesis using t st Cons.IH [of t] recipe agrees by simp
  next
    case False
    then have "train_run fo ra op p exported r = train_run fo ra op on exported r"
      by (rule finished_session [OF assms(1) Cons.prems(1) assms(3)])
    moreover have "sessions fo ra op exported s (p # ps) r = train_run fo ra op p exported r"
      using False by (auto simp: stops_def split: option.split sum.split)
    ultimately show ?thesis by simp
  qed
qed simp

section \<open>Starting\<close>

lemma started_run:
  assumes "begin_run fo ra i n epochs seed lr decay = Inr s" and "permuting ra" and "start_run op s t0 = Inr r0"
  shows "run_inv fo op r0 \<and> ru_state r0 = s \<and> ru_trainer r0 = t0 \<and> same_recipe (ru_state r0) s"
proof -
  let ?r = "\<lparr>ru_state = s, ru_trainer = t0, ru_checkpoints = [], ru_candidates = []\<rparr>"
  have "files_ok ?r" by (simp add: files_ok_def)
  with assms(3) have s: "ru_state r0 = s \<and> ru_trainer r0 = t0 \<and> files_ok r0"
    using saved_state [of op ?r r0] by (simp add: start_run_def)
  moreover have "epoch s = 0" using begun [OF assms(1,2)] by (simp add: epoch_def)
  ultimately show ?thesis using begun [OF assms(1,2)] by (simp add: run_inv_def candidates_ok_def)
qed

section \<open>What every epoch feeds\<close>

text \<open>A trainer that notes the clips it is given.\<close>

definition logging :: "('f, int list) trainer_ops \<Rightarrow> ('f, int list) trainer_ops" where
  "logging op = op\<lparr>to_step := (\<lambda>clip start log. Inr (log @ [clip])), to_set_lr := (\<lambda>_ log. log)\<rparr>"

definition epoch_log :: "int list \<Rightarrow> nat \<Rightarrow> int list \<Rightarrow> bool" where
  "epoch_log order k log \<longleftrightarrow>
     (let n = length order in length log = k
        \<and> (\<forall>e < k div n. mset (take n (drop (e * n) log)) = mset (map int [0..<n]))
        \<and> drop (k div n * n) log = take (k mod n) order)"

lemma epoch_log_step:
  assumes "epoch_log order k log" and "order \<noteq> []" and "mset order = mset (map int [0..<length order])"
    and "length order' = length order" and "Suc k mod length order \<noteq> 0 \<longrightarrow> order' = order"
  shows "epoch_log order' (Suc k) (log @ [order ! (k mod length order)])"
proof -
  define n where "n = length order"
  define x where "x = order ! (k mod n)"
  have n: "0 < n" using assms(2) by (simp add: n_def)
  have log: "length log = k" "\<forall>e < k div n. mset (take n (drop (e * n) log)) = mset (map int [0..<n])"
    "drop (k div n * n) log = take (k mod n) order"
    using assms(1) by (simp_all add: epoch_log_def Let_def n_def)
  have old: "take n (drop (e * n) (log @ [x])) = take n (drop (e * n) log)" if "e < k div n" for e
  proof -
    have "Suc e * n \<le> k div n * n" using that by (intro mult_le_mono1) simp
    also have "\<dots> \<le> k" by (rule div_times_less_eq_dividend)
    finally show ?thesis using log(1) by simp
  qed
  have le: "k div n * n \<le> k" by (rule div_times_less_eq_dividend)
  have tail: "drop (k div n * n) (log @ [x]) = take (Suc (k mod n)) order"
    using log(1,3) le n by (simp add: x_def n_def take_Suc_conv_app_nth)
  show ?thesis
  proof (cases "Suc (k mod n) = n")
    case True
    then have d: "Suc k div n = Suc (k div n)" "Suc k mod n = 0" by (simp_all add: div_Suc mod_Suc)
    have "take n (drop (k div n * n) (log @ [x])) = order" unfolding tail True by (simp add: n_def)
    then have last: "mset (take n (drop (k div n * n) (log @ [x]))) = mset (map int [0..<n])"
      using assms(3) by (simp only: n_def)
    have "mset (take n (drop (e * n) (log @ [x]))) = mset (map int [0..<n])" if "e < Suc (k div n)" for e
      using last old [of e] log(2) that by (cases "e = k div n") (simp_all only: less_Suc_eq simp_thms)
    then have "\<forall>e < Suc (k div n). mset (take n (drop (e * n) (log @ [x]))) = mset (map int [0..<n])" by blast
    moreover have "Suc k = Suc (k div n) * n" using d by (metis add.right_neutral div_mult_mod_eq)
    then have "drop (Suc (k div n) * n) (log @ [x]) = []" using log(1) by simp
    ultimately show ?thesis using log(1) assms(4) d by (simp add: epoch_log_def Let_def x_def n_def)
  next
    case False
    then have d: "Suc k div n = k div n" "Suc k mod n = Suc (k mod n)" by (simp_all add: div_Suc mod_Suc)
    then have "order' = order" using assms(5) by (simp add: n_def)
    then show ?thesis using log old tail d by (simp add: epoch_log_def Let_def x_def n_def)
  qed
qed

lemma epoch_log_run:
  assumes "train_once fo ra (logging op) r = Inr t" and "permuting ra" and "run_inv fo (logging op) r"
    and "epoch_log (rs_order (ru_state r)) (nat (rs_step (ru_state r))) (ru_trainer r)"
  shows "epoch_log (rs_order (ru_state t)) (nat (rs_step (ru_state t))) (ru_trainer t)"
  using assms(1)
proof (cases rule: train_onceE)
  case (1 clip frames start s1 t1 s2 lr)
  from assms(3) have v: "validate_run fo (ru_state r) = Inr ()" and f: "files_ok r" by (simp_all add: run_inv_def)
  from crop_simps [OF 1(3)] obtain g where s1: "s1 = (ru_state r)\<lparr>rs_random := g\<rparr>" by blast
  have ok: "run_ok s1" using validated_ok [OF v] by (simp add: s1 run_ok_def clips_def)
  note a = advanced [OF 1(5) assms(2) ok]
  define k where "k = nat (rs_step (ru_state r))"
  let ?o = "rs_order (ru_state r)"
  have k: "rs_step (ru_state r) = int k" using ok by (simp add: k_def run_ok_def s1)
  have ne: "?o \<noteq> []" using ok by (auto simp: run_ok_def s1 clips_def)
  let ?r = "r\<lparr>ru_state := s2, ru_trainer := to_set_lr (logging op) lr t1\<rparr>"
  have "files_ok ?r" using f a by (auto simp: files_ok_def s1)
  from after_epoch_step [OF 1(7) this] have t: "ru_state t = s2" "ru_trainer t = ru_trainer r @ [clip]"
    using 1(4) by (simp_all add: logging_def)
  have clip: "clip = ?o ! (k mod length ?o)"
  proof -
    have "nat (int k mod int (length ?o)) = k mod length ?o" by (metis nat_int zmod_int)
    then show ?thesis using 1(1) by (auto simp: current_clip_def slot_def clips_def k split: if_splits)
  qed
  have step: "nat (rs_step s2) = Suc k" using a k by (simp add: s1)
  have len: "length (rs_order s2) = length ?o" using a by (simp add: s1 clips_def)
  have keep: "Suc k mod length ?o \<noteq> 0 \<longrightarrow> rs_order s2 = ?o"
  proof
    assume "Suc k mod length ?o \<noteq> 0"
    moreover have "slot s2 = int (Suc k mod length ?o)"
      using a k len by (simp add: slot_def clips_def s1 zmod_int add.commute)
    ultimately show "rs_order s2 = ?o" using a by (simp add: s1)
  qed
  have m: "mset ?o = mset (map int [0..<length ?o])" using ok by (simp add: run_ok_def s1)
  show ?thesis
    using epoch_log_step [OF assms(4) [folded k_def] ne m len keep] by (simp add: t clip step)
qed

lemma epoch_log_loop:
  assumes "permuting ra" and "run_inv fo (logging op) r"
  shows "epoch_log (rs_order (ru_state r)) (nat (rs_step (ru_state r))) (ru_trainer r) \<Longrightarrow>
    train_loop fo ra (logging op) poll r = Some (Inr (t, Training_completed)) \<Longrightarrow>
    epoch_log (rs_order (ru_state t)) (nat (rs_step (ru_state t))) (ru_trainer t)"
  using assms
proof (induction rule: train_loop_induct [where poll = poll])
  case (finished r)
  then show ?case by (simp add: train_loop_simps)
next
  case (stopped r)
  then show ?case by (cases "save_state (logging op) r") (auto simp: train_loop_simps)
next
  case (failed r x)
  then show ?case by (simp add: train_loop_simps)
next
  case (step r r1)
  have "train_loop fo ra (logging op) poll r1 = Some (Inr (t, Training_completed))"
    using step(2,3,4,7) by (simp add: train_loop_simps)
  then show ?case using step(5) epoch_log_run [OF step(4) assms(1) step(1,6)] by blast
qed

end
