(* ===== verification/TrainingGuarantees.thy ===== *)
theory TrainingGuarantees
  imports TrainingContract
begin

text \<open>
  The guarantees of a training run, from its start: it returns, every epoch feeds every clip once, its
  outcome does not depend on where it was stopped and resumed, and a delivered request stops it.
\<close>

section \<open>The channel in use\<close>

datatype channel_event = Requested "reply list" | Closing bool

fun channel_events :: "channel_event list \<Rightarrow> source \<times> bytes \<Rightarrow> source \<times> bytes" where
  "channel_events [] p = p"
| "channel_events (Requested rs # es) p = channel_events es (fst (request_stop rs p))"
| "channel_events (Closing fails # es) p = channel_events es (fst (close_source fails (fst p)), snd p)"

lemma channel_requested:
  "so_requested (fst p) \<or> so_error (fst p) \<or> \<not> so_open (fst p) \<Longrightarrow> snd (channel_events es p) = snd p"
proof (induction es p rule: channel_events.induct)
  case (2 rs es p)
  then have "fst (request_stop rs p) = p" by (cases p) (auto simp: request_stop_def)
  then show ?case using 2 by simp
next
  case (3 fails es p)
  then show ?case by (cases p) (auto simp: close_source_def Let_def)
qed simp

text \<open>The file holds one byte, and a delivered request has made it a 1.\<close>

definition channel_ok :: "source \<times> bytes \<Rightarrow> bool" where
  "channel_ok p \<longleftrightarrow> length (snd p) = 1 \<and> (so_requested (fst p) \<longrightarrow> snd p = ''1'')"

lemma opened_channel: "open_source created rs = Some p \<Longrightarrow> channel_ok p"
  by (auto simp: open_source_def channel_ok_def split: if_splits)

lemma channel_kept: "channel_ok p \<Longrightarrow> channel_ok (channel_events es p)"
proof (induction es p rule: channel_events.induct)
  case (2 rs es p)
  then have "channel_ok (fst (request_stop rs p))" by (cases p) (auto simp: request_stop_def channel_ok_def)
  then show ?case using 2 by simp
next
  case (3 fails es p)
  then have "channel_ok (fst (close_source fails (fst p)), snd p)" by (cases p) (auto simp: close_source_def channel_ok_def Let_def)
  then show ?case using 3 by simp
qed simp

lemma delivered_held:
  assumes "channel_ok p" and "request_stop rs p = (q, Delivered)"
  shows "snd q = ''1'' \<and> so_requested (fst q)"
  using assms by (cases p) (auto simp: request_stop_def channel_ok_def split: if_splits)

text \<open>An answered poll of an open reader says what the file holds.\<close>

definition answered :: "bytes \<Rightarrow> training_result \<Rightarrow> bool" where
  "answered held c \<longleftrightarrow> (\<exists>rs. retried rs 1 = Some 1 \<and> c = snd (poll_reader rs held \<lparr>re_open = True, re_error = False\<rparr>))"

lemma answered_stop: "answered ''1'' c \<Longrightarrow> c = Training_stopped"
  by (auto simp: answered_def poll_reader_def)

lemma stopped_in_time:
  assumes "permuting ra" and "run_inv fo op r"
  shows "rs_step (ru_state r) \<le> k \<Longrightarrow> \<forall>n \<ge> k. poll n \<noteq> Training_completed \<Longrightarrow>
    train_loop fo ra op poll r = Some (Inr (t, c)) \<Longrightarrow> rs_step (ru_state t) \<le> k"
  using assms
proof (induction rule: train_loop_induct [where poll = poll])
  case (finished r)
  then show ?case by (simp add: train_loop_simps)
next
  case (stopped r)
  then have "save_state op r = Inr t" by (cases "save_state op r") (simp_all add: train_loop_simps)
  then have "ru_state t = ru_state r" using saved_state stopped(1) unfolding run_inv_def by blast
  then show ?case using stopped(4) by simp
next
  case (failed r x)
  then show ?case by (simp add: train_loop_simps)
next
  case (step r r1)
  have "rs_step (ru_state r) \<noteq> k" using step(3,7) by auto
  then have "rs_step (ru_state r1) \<le> k" using train_once_step [OF step(4) assms(1) step(1)] step(6) by simp
  moreover have "train_loop fo ra op poll r1 = Some (Inr (t, c))" using step(2,3,4,8) by (simp add: train_loop_simps)
  ultimately show ?case using step(5,7) by blast
qed

lemma run_bounds: "run_ok s \<Longrightarrow> 0 \<le> rs_step s \<and> rs_step s \<le> 8192000"
proof -
  assume r: "run_ok s"
  then have "rs_epochs s * clips s \<le> 2000 * 4096"
    by (intro mult_mono) (simp_all add: run_ok_def clips_def max_clips_def)
  then show ?thesis using r by (simp add: run_ok_def)
qed

section \<open>Instances\<close>

text \<open>Two clips, one epoch, a shuffle that reverses and a trainer that notes its clips.\<close>

definition unit_floats :: "unit float_ops" where
  "unit_floats = \<lparr>fo_mul = (\<lambda>_ _. ()), fo_positive = (\<lambda>_. True), fo_unit = (\<lambda>_. True)\<rparr>"

definition reversing :: "unit random_ops" where
  "reversing = \<lparr>ra_seed = (\<lambda>_. ()), ra_shuffle = (\<lambda>g xs. (rev xs, g)), ra_draw = (\<lambda>n g. (0, g))\<rparr>"

definition noting :: "(unit, int list) trainer_ops" where
  "noting = \<lparr>to_frames = (\<lambda>_ _. Inr 32), to_step = (\<lambda>clip start log. Inr (log @ [clip])), to_set_lr = (\<lambda>_ log. log),
     to_steps = (\<lambda>log. int (length log)), to_rate = (\<lambda>_. ()), to_save = (\<lambda>_. True), to_export = (\<lambda>_. True)\<rparr>"

definition two_clips :: "int \<Rightarrow> (unit, unit) run_state" where
  "two_clips k = \<lparr>rs_identity = replicate 64 (CHR ''a''), rs_epochs = 1, rs_step = k, rs_initial_lr = (), rs_decay = (),
     rs_order = [1, 0], rs_random = ()\<rparr>"

definition two_run :: "int \<Rightarrow> int list \<Rightarrow> (int \<times> (unit, unit) run_state \<times> int list) list \<Rightarrow> (unit, unit, int list) run" where
  "two_run k log saved_files = \<lparr>ru_state = two_clips k, ru_trainer = log, ru_checkpoints = saved_files, ru_candidates = []\<rparr>"

lemmas instances = unit_floats_def reversing_def noting_def two_clips_def two_run_def

lemma reversing_permutes: "permuting reversing"
  by (simp add: permuting_def reversing_def)

lemma noting_counts: "trainer_counts noting"
  by (simp add: trainer_counts_def noting_def)

lemma noting_logs: "logging noting = noting"
  by (simp add: logging_def noting_def)

lemma two_begin: "begin_run unit_floats reversing (replicate 64 (CHR ''a'')) 2 1 0 () () = Inr (two_clips 0)"
  by code_simp

lemma two_start: "start_run noting (two_clips 0) [] = Inr (two_run 0 [] [(0, two_clips 0, [])])"
  by code_simp

lemma two_first:
  "train_once unit_floats reversing noting (two_run 0 [] [(0, two_clips 0, [])]) = Inr (two_run 1 [1] [(0, two_clips 0, [])])"
  by code_simp

lemma two_second:
  "train_once unit_floats reversing noting (two_run 1 [1] [(0, two_clips 0, [])])
     = Inr (two_run 2 [1, 0] [(0, two_clips 0, []), (2, two_clips 2, [1, 0])])"
  by code_simp

lemma two_done [simp]: "run_done (ru_state (two_run k log saved_files)) = (k = 2)" "rs_step (ru_state (two_run k log saved_files)) = k"
  by (simp_all add: run_done_def clips_def two_run_def two_clips_def)

lemma two_loop:
  "train_loop unit_floats reversing noting (\<lambda>_. Training_completed) (two_run 0 [] [(0, two_clips 0, [])])
     = Some (Inr (two_run 2 [1, 0] [(0, two_clips 0, []), (2, two_clips 2, [1, 0])], Training_completed))"
  by (simp add: train_loop_simps two_first two_second)

definition stop_at :: "int \<Rightarrow> int \<Rightarrow> training_result" where
  "stop_at k n = (if n < k then Training_completed else Training_stopped)"

lemma two_stopped:
  "train_loop unit_floats reversing noting (stop_at 1) (two_run 0 [] [(0, two_clips 0, [])])
     = Some (Inr (two_run 1 [1] [(0, two_clips 0, []), (1, two_clips 1, [1])], Training_stopped))"
proof -
  have "save_state noting (two_run 1 [1] [(0, two_clips 0, [])]) = Inr (two_run 1 [1] [(0, two_clips 0, []), (1, two_clips 1, [1])])"
    by code_simp
  then show ?thesis by (simp add: train_loop_simps two_first stop_at_def)
qed

lemma two_run_done:
  "train_run unit_floats reversing noting (\<lambda>_. Training_completed) True (two_run 0 [] [(0, two_clips 0, [])])
     = Some (Inr (two_run 2 [1, 0] [(0, two_clips 0, []), (2, two_clips 2, [1, 0])], Training_completed))"
  by (simp add: train_run_def two_loop)

lemma two_run_stopped:
  "train_run unit_floats reversing noting (stop_at 1) True (two_run 0 [] [(0, two_clips 0, [])])
     = Some (Inr (two_run 1 [1] [(0, two_clips 0, []), (1, two_clips 1, [1])], Training_stopped))"
  by (simp add: train_run_def two_stopped)

section \<open>The properties\<close>

text \<open>C37: A training run returns, however its channel, its files and the trainer answer: the loop takes at most
  one step for each clip of each epoch, so its counters stay below 2 to the 31; and a run that ends
  without an exception either did every step or was stopped, with its state as the newest checkpoint
  and never more than two of them.\<close>

theorem training_run_returns:
  assumes "permuting ra" and "begin_run fo ra i n epochs seed lr decay = Inr s" and "start_run op s t0 = Inr r0"
  shows "\<exists>out. train_run fo ra op poll exported r0 = Some out
    \<and> (\<forall>t c. out = Inr (t, c) \<longrightarrow> rs_step (ru_state t) \<le> epochs * n \<and> rs_step (ru_state t) < 2 ^ 31
        \<and> length (ru_checkpoints t) \<le> 2
        \<and> (if c = Training_completed then rs_step (ru_state t) = epochs * n else newest_saved t))"
proof -
  note r0 = started_run [OF assms(2,1,3)] and s = begun [OF assms(2,1)]
  obtain out where out: "train_loop fo ra op poll r0 = Some out" using train_loop_ends [OF assms(1), of fo op r0 poll] r0 by blast
  have ends: "run_inv fo op t \<and> same_recipe (ru_state t) s
      \<and> (if c = Training_completed then run_done (ru_state t) else newest_saved t)" if "out = Inr (t, c)" for t c
    using train_loop_ends [OF assms(1), of fo op r0 poll] r0 out that by (simp split: if_splits)
  have run: "rs_step (ru_state t) \<le> epochs * n \<and> rs_step (ru_state t) < 2 ^ 31 \<and> length (ru_checkpoints t) \<le> 2
      \<and> (run_done (ru_state t) \<longrightarrow> rs_step (ru_state t) = epochs * n)" if "run_inv fo op t" "same_recipe (ru_state t) s" for t
  proof -
    have "run_ok (ru_state t)" using that(1) validated_ok unfolding run_inv_def by blast
    then show ?thesis
      using run_bounds [of "ru_state t"] that s by (auto simp: run_ok_def same_recipe_def clips_def run_done_def run_inv_def files_ok_def)
  qed
  show ?thesis
  proof (cases out)
    case (Inl x)
    then show ?thesis using out r0 assms(1) by (simp add: train_run_inv)
  next
    case (Inr p)
    obtain t c where p: "out = Inr (t, c)" using Inr by (cases p) simp
    have saved: "run_inv fo op u \<and> same_recipe (ru_state u) s \<and> newest_saved u" if "save_state op t = Inr u" for u
      using saved_state [OF that] ends [OF p] candidates_ok_cong [of u t op] by (simp add: run_inv_def)
    have t: "run_inv fo op t" "same_recipe (ru_state t) s" using ends [OF p] by (simp_all split: if_splits)
    have u: "rs_step (ru_state u) \<le> epochs * n \<and> rs_step (ru_state u) < 2 ^ 31 \<and> length (ru_checkpoints u) \<le> 2 \<and> newest_saved u"
      if "save_state op t = Inr u" for u using run [of u] saved [OF that] by simp
    have inv: "run_inv fo op r0" using r0 by simp
    have "train_run fo ra op poll exported r0 =
        (if c \<noteq> Training_completed then Some (Inr (t, c))
         else if poll (rs_step (ru_state t)) \<noteq> Training_completed
         then Some (map_sum id (\<lambda>r2. (r2, poll (rs_step (ru_state t)))) (save_state op t))
         else Some (if exported then Inr (t, Training_completed) else Inl (Runtime_error ''joint-full final export failed'')))"
      by (simp add: train_run_inv [OF inv assms(1)] out p)
    then show ?thesis
      using ends [OF p] run [OF t] u by (cases "save_state op t") (auto split: if_splits)
  qed
qed

lemma training_run_returns_witness:
  "newest_saved (two_run 1 [1] [(0, two_clips 0, []), (1, two_clips 1, [1])])"
  using training_run_returns [OF reversing_permutes two_begin two_start, of "stop_at 1" True]
  by (simp add: two_run_stopped)

text \<open>C38: A run that completes fed every clip exactly once in every epoch, in whatever order the shuffles put
  them, even when its polls, crops and checkpoints came between.\<close>

theorem every_clip_once_per_epoch:
  assumes "permuting ra" and "begin_run fo ra i n epochs seed lr decay = Inr s"
    and "start_run (logging op) s [] = Inr r0"
    and "train_run fo ra (logging op) poll exported r0 = Some (Inr (t, Training_completed))"
  shows "length (ru_trainer t) = nat epochs * nat n
    \<and> (\<forall>e < nat epochs. mset (take (nat n) (drop (e * nat n) (ru_trainer t))) = mset (map int [0..<nat n]))"
proof -
  note r0 = started_run [OF assms(2,1,3)] and s = begun [OF assms(2,1)]
  have inv: "run_inv fo (logging op) r0" using r0 by simp
  obtain out where out: "train_loop fo ra (logging op) poll r0 = Some out" using train_loop_ends [OF assms(1) inv, of poll] by blast
  obtain t1 c where o: "out = Inr (t1, c)"
    using assms(4) unfolding train_run_inv [OF inv assms(1)] out by (cases out) auto
  have "c = Training_completed \<and> t = t1"
    using assms(4) unfolding train_run_inv [OF inv assms(1)] out o
    by (cases "save_state (logging op) t1") (auto split: if_splits)
  then have loop: "train_loop fo ra (logging op) poll r0 = Some (Inr (t, Training_completed))" using out o by simp
  have "epoch_log (rs_order (ru_state r0)) (nat (rs_step (ru_state r0))) (ru_trainer r0)"
    using r0 s by (simp add: epoch_log_def Let_def)
  from epoch_log_loop [OF assms(1) inv this loop]
  have log: "epoch_log (rs_order (ru_state t)) (nat (rs_step (ru_state t))) (ru_trainer t)" .
  have e: "run_inv fo (logging op) t" "same_recipe (ru_state t) s" "run_done (ru_state t)"
    using train_loop_ends [OF assms(1) inv, of poll] loop r0 by simp_all
  have ok: "run_ok (ru_state t)" using e(1) validated_ok unfolding run_inv_def by blast
  have n: "length (rs_order (ru_state t)) = nat n" "0 < n" "rs_step (ru_state t) = epochs * n" "0 \<le> epochs"
    using e(2,3) s ok by (auto simp: same_recipe_def clips_def run_done_def run_ok_def)
  then have "nat (rs_step (ru_state t)) = nat epochs * nat n" by (simp add: nat_mult_distrib)
  then show ?thesis using log n by (simp add: epoch_log_def Let_def)
qed

lemma every_clip_once_per_epoch_witness:
  "mset (take (nat 2) (drop (0 * nat 2) (ru_trainer (two_run 2 [1, 0] [(0, two_clips 0, []), (2, two_clips 2, [1, 0])]))))
     = mset (map int [0..<nat 2])"
  by (rule every_clip_once_per_epoch [OF reversing_permutes two_begin, of noting, unfolded noting_logs, OF two_start two_run_done,
      THEN conjunct2, THEN spec, THEN mp]) simp



text \<open>C40: Once a request was delivered on the channel, whatever is requested or closed after it, training does
  no further step: when the polls from step \<open>k\<close> on are answered from the channel's file, the run ends at
  step \<open>k\<close> or earlier, complete or with that state as its newest checkpoint.\<close>

theorem delivered_request_stops:
  assumes "permuting ra" and "begin_run fo ra i m epochs seed lr decay = Inr s" and "start_run op s t0 = Inr r0"
    and "open_source True rs0 = Some (c, held)"
    and "request_stop rs (channel_events es1 (c, held)) = (p, Delivered)"
    and "0 \<le> k" and "\<forall>n \<ge> k. answered (snd (channel_events es2 p)) (poll n)"
    and "train_run fo ra op poll exported r0 = Some (Inr (t, res))"
  shows "rs_step (ru_state t) \<le> k
    \<and> (if res = Training_completed then rs_step (ru_state t) = epochs * m \<and> rs_step (ru_state t) < k else newest_saved t)"
proof -
  note r0 = started_run [OF assms(2,1,3)] and s = begun [OF assms(2,1)]
  have inv: "run_inv fo op r0" using r0 by simp
  have "channel_ok (c, held)" by (rule opened_channel [OF assms(4)])
  then have "channel_ok (channel_events es1 (c, held))" by (rule channel_kept)
  then have "snd p = ''1'' \<and> so_requested (fst p)" by (rule delivered_held [OF _ assms(5)])
  then have "snd (channel_events es2 p) = ''1''" using channel_requested by metis
  then have polls: "\<forall>n \<ge> k. poll n = Training_stopped" using assms(7) answered_stop by metis
  obtain out where out: "train_loop fo ra op poll r0 = Some out" using train_loop_ends [OF assms(1) inv, of poll] by blast
  obtain t1 c1 where o: "out = Inr (t1, c1)"
    using assms(8) unfolding train_run_inv [OF inv assms(1)] out by (cases out) auto
  have loop: "train_loop fo ra op poll r0 = Some (Inr (t1, c1))" using out o by simp
  have "rs_step (ru_state r0) \<le> k" using r0 s assms(6) by simp
  from stopped_in_time [OF assms(1) inv this _ loop] have k: "rs_step (ru_state t1) \<le> k" using polls by simp
  have ends: "run_inv fo op t1" "same_recipe (ru_state t1) s"
    "if c1 = Training_completed then run_done (ru_state t1) else newest_saved t1"
    using train_loop_ends [OF assms(1) inv, of poll] loop r0 by simp_all
  have all: "run_done (ru_state t1) \<longrightarrow> rs_step (ru_state t1) = epochs * m"
    using ends(2) s by (simp add: run_done_def same_recipe_def clips_def)
  have cases: "(c1 \<noteq> Training_completed \<and> t = t1 \<and> res = c1)
     \<or> (c1 = Training_completed \<and> poll (rs_step (ru_state t1)) = Training_completed \<and> t = t1 \<and> res = Training_completed)
     \<or> (save_state op t1 = Inr t \<and> res \<noteq> Training_completed)"
    using assms(8) unfolding train_run_inv [OF inv assms(1)] loop
    by (cases "save_state op t1") (auto split: if_splits)
  then consider (a) "c1 \<noteq> Training_completed" "t = t1" "res = c1"
    | (b) "c1 = Training_completed" "poll (rs_step (ru_state t1)) = Training_completed" "t = t1" "res = Training_completed"
    | (c) "save_state op t1 = Inr t" "res \<noteq> Training_completed" by blast
  then show ?thesis
  proof cases
    case a
    then show ?thesis using k ends by simp
  next
    case b
    then have "rs_step (ru_state t1) \<noteq> k" using polls by auto
    then show ?thesis using b k ends(3) all by simp
  next
    case c
    from saved_state [OF c(1)] ends(1) have "ru_state t = ru_state t1" "newest_saved t" by (simp_all add: run_inv_def)
    then show ?thesis using c k by simp
  qed
qed

lemma delivered_request_stops_witness:
  "rs_step (ru_state (two_run 1 [1] [(0, two_clips 0, []), (1, two_clips 1, [1])])) \<le> 1"
proof -
  let ?p = "(\<lparr>so_open = True, so_error = False, so_requested = True\<rparr>, ''1'')"
  have opened: "open_source True [] = Some (\<lparr>so_open = True, so_error = False, so_requested = False\<rparr>, ''0'')"
    by (simp add: open_source_def)
  have asked: "request_stop [] (channel_events [] (\<lparr>so_open = True, so_error = False, so_requested = False\<rparr>, ''0'')) = (?p, Delivered)"
    by (simp add: request_stop_def)
  have "retried [] 1 = Some 1" by simp
  then have "\<forall>n \<ge> 1. answered (snd (channel_events [Closing False] ?p)) (stop_at 1 n)"
    unfolding answered_def by (intro allI impI exI [where x = "[]"]) (simp add: poll_reader_def stop_at_def)
  from delivered_request_stops [OF reversing_permutes two_begin two_start opened asked _ this two_run_stopped]
  show ?thesis by simp
qed

end
