(* ===== verification/Spec2Isabelle.thy ===== *)
theory Spec2Isabelle
  imports CheckpointContract SafetensorsContract JsonContract HttpRequestContract HttpMultipartContract HttpResponseContract HttpServer
    WebText Publish WavWriter UploadsContract StaticFiles JobStatus TrainingGuarantees
begin

text \<open>
  Resonantia, a voice conversion engine in C++ and CUDA with a training pipeline and a web service.

  The program has four layers.  The numerical core (\<^verbatim>\<open>src/content\<close>, \<^verbatim>\<open>src/f0\<close>, \<^verbatim>\<open>src/synthesizer\<close>,
  \<^verbatim>\<open>src/separation\<close>, \<^verbatim>\<open>src/training\<close>, \<^verbatim>\<open>src/index\<close>) is CUDA and floating point.  Under it lie the
  file formats (\<^verbatim>\<open>src/io\<close>): WAV files, safetensors containers and block checkpoints.  Above it lie
  the pipelines and the command line programs, and above those the web service (\<^verbatim>\<open>tools/web\<close>), which
  receives uploads, runs the programs as child processes, publishes their results and serves them.
  This development models the parts that decide what is stored and what is accepted: the file formats
  and the web service's transport, uploads, processes and publications.

  Theories and code.

  \<^item> \<^verbatim>\<open>Prelude\<close>: exceptions as \<^verbatim>\<open>exn + 'a\<close>, bytes as \<^verbatim>\<open>char list\<close>, little-endian fields, decimal
    numerals, unsigned 64-bit arithmetic; the collections \<^verbatim>\<open>codec\<close> and \<^verbatim>\<open>frame\<close>.
  \<^item> \<^verbatim>\<open>FileSystem\<close>: a directory as an association list, and the kernel's answers to \<^verbatim>\<open>read\<close>,
    \<^verbatim>\<open>write\<close> and the other calls as parameters (\<^verbatim>\<open>transfer\<close> of \<^verbatim>\<open>src/io/block_checkpoint.cpp\<close>).
  \<^item> \<^verbatim>\<open>Sha256\<close>: the streaming digest of \<^verbatim>\<open>include/voxmutatio/core/sha256.h\<close> on words, and its
    equality with a one-shot reference.
  \<^item> \<^verbatim>\<open>Checkpoint\<close>, \<^verbatim>\<open>CheckpointFormat\<close>, \<^verbatim>\<open>CheckpointStore\<close>, \<^verbatim>\<open>CheckpointContract\<close>:
    \<^verbatim>\<open>src/io/block_checkpoint.cpp\<close>.  The first holds the code (opening in three modes, lock, identity,
    scan, publication, read, save, list), the second the layout of a block file, the third the
    invariant and what each operation does to the directory at every point where a crash may fall, the
    last the contract of a store of immutable blocks (locale \<^verbatim>\<open>immutable_store\<close>) and the properties.
  \<^item> \<^verbatim>\<open>Json\<close>, \<^verbatim>\<open>JsonContract\<close>: the JSON reader of \<^verbatim>\<open>src/io/safetensors.cpp\<close> and what it reads back
    of written strings and documents.
  \<^item> \<^verbatim>\<open>Safetensors\<close>, \<^verbatim>\<open>SafetensorsFacts\<close>, \<^verbatim>\<open>SafetensorsContract\<close>: the header parser, the loader with
    its mapping and snapshot, the accessors; the layout of an accepted file, the loader's invariant
    and the locale \<^verbatim>\<open>tensor_source\<close> of what a user of tensors relies on.
  \<^item> \<^verbatim>\<open>Text\<close>: the searches and splits of \<^verbatim>\<open>std::string\<close> the transport uses.
  \<^item> \<^verbatim>\<open>HttpRequest\<close>, \<^verbatim>\<open>HttpMultipart\<close>, \<^verbatim>\<open>HttpResponse\<close> with their contracts, and \<^verbatim>\<open>HttpServer\<close>:
    \<^verbatim>\<open>tools/web/http_transport.cpp\<close>: reading a request from a stream of received pieces, admission by
    length, memory and token; multipart forms; answers and audio ranges; the accept loop and its
    workers as a step relation over the two shared counters.
  \<^item> \<^verbatim>\<open>WebText\<close>, \<^verbatim>\<open>StaticFiles\<close>, \<^verbatim>\<open>Publish\<close>, \<^verbatim>\<open>ProcessRunner\<close>, \<^verbatim>\<open>Uploads\<close>, \<^verbatim>\<open>UploadsContract\<close>:
    \<^verbatim>\<open>tools/web/workflow_support.cpp\<close>: names and form fields, the files of the web root, the three
    publication transactions with their rollback (locale \<^verbatim>\<open>publication\<close>, one interpretation each), child
    processes and their logs, uploads and their decoding by an external program.
  \<^item> \<^verbatim>\<open>Riff\<close>, \<^verbatim>\<open>WavFile\<close>, \<^verbatim>\<open>WavContract\<close>: \<^verbatim>\<open>src/io/audio_io.cpp\<close>: chunks, formats, samples, whole
    files, atomic writing.
  \<^item> \<^verbatim>\<open>WavStream\<close>, \<^verbatim>\<open>WavStreamContract\<close>, \<^verbatim>\<open>WavWriter\<close>: \<^verbatim>\<open>src/io/bounded_audio_io.cpp\<close>: the window
    reader, the sample spool and the incremental writer; the locale \<^verbatim>\<open>weaker_reader\<close> relates a reader
    over a failing kernel to the reader of a whole file.

  State and effects.  A component's state is a record, an operation returns the new state beside its
  result; where a crash may fall between two system calls, an operation returns the list of the
  directory's states.  A C++ exception is \<^verbatim>\<open>Inl\<close>, a returned \<^verbatim>\<open>false\<close> or \<^verbatim>\<open>nullopt\<close> is \<^verbatim>\<open>False\<close> or
  \<^verbatim>\<open>None\<close>.  Machine integers keep their width where the code relies on it (\<^verbatim>\<open>u64\<close> in digests,
  checkpoints and chunk arithmetic); lengths of byte strings are naturals with the code's bounds written
  out.

  Parameters.  The kernel: every system call's answer is an argument, so the theorems hold under any
  failures and short transfers unless they say otherwise.  Conversion between samples and floating
  point (\<^verbatim>\<open>float_unit\<close>, \<^verbatim>\<open>pcm_unit_scheme\<close>): the theorems about samples state what they need of it.  The
  external decoder of uploads and the child processes: functions of their command and input.
  Resolution of links in paths: a function given to the static file server.

  Termination.  Recursion is structural or has a measure, the length of the remaining input mostly.
  Only \<^verbatim>\<open>skip_value\<close> of the JSON reader carries fuel; twice the length of the text plus one is
  enough, which \<^verbatim>\<open>JsonContract.skip_fuel_enough\<close> shows.

  Not modelled.  The CUDA kernels and networks, and the pipelines, training loops and
  signal processing built on them: floating point on a device, which HOL has no library for here.  The
  job service, task store and storage accounting of \<^verbatim>\<open>tools/web\<close>, the command line programs and the
  registry of separation models.  Socket setup, \<^verbatim>\<open>poll\<close> and time-outs of the transport appear only as
  the answers they give.
\<close>

end
